(* ===== verification/Go_Prelude.thy ===== *)
theory Go_Prelude
  imports Main "HOL-Library.Word"
begin

text \<open>
  Shared ground of the development: the Go notions every component of the platform
  uses (error values, results that may also panic, effectful calls through an interface
  value, byte-string helpers of package \<^verbatim>\<open>strings\<close>, decimal text) and the generic
  lemmas the component theories build on.

  \<^item> \<open>error\<close> / \<open>result\<close>: a Go \<^verbatim>\<open>error\<close> value, and the outcome of a call (a value, an
    error, or a run-time panic).
  \<^item> \<open>eff\<close>: a call on a stateful object: state in, result and state out. \<open>ret\<close>, \<open>raise\<close>
    and \<open>bnd\<close> sequence such calls the way \<^verbatim>\<open>if err != nil { return err }\<close> does.
  \<^item> \<open>triple\<close>: total-correctness triples over \<open>eff\<close>, with the rules collected in
    \<open>triple_rules\<close>; the invariant proofs of the stateful components are applications of
    these rules.
\<close>

named_theorems triple_rules \<open>introduction rules for triples over effectful calls\<close>
named_theorems eff_simps \<open>unfolding of the effect combinators\<close>

type_synonym u8 = "8 word"
type_synonym u64 = "64 word"
type_synonym address = "160 word"
type_synonym hash = "256 word"


section \<open>Errors and results\<close>

text \<open>
  \<open>Sentinel\<close> is a package-level error variable (compared by identity), \<open>Opaque\<close> any other
  plain error, \<open>Wrap\<close> the result of \<^verbatim>\<open>fmt.Errorf("prefix: %w", err)\<close>, \<open>PgError\<close> an error
  reported by the database server together with its SQLSTATE code.
\<close>

datatype error =
    Sentinel string
  | Opaque string
  | Wrap string error
  | PgError string string

datatype 'a result = Ok 'a | Err error | Panic string

text \<open>\<^verbatim>\<open>err.Error()\<close>.\<close>

fun Error_text :: "error \<Rightarrow> string" where
  "Error_text (Sentinel m) = m"
| "Error_text (Opaque m) = m"
| "Error_text (Wrap p e) = p @ '': '' @ Error_text e"
| "Error_text (PgError c m) = m @ '' (SQLSTATE '' @ c @ '')''"

text \<open>\<^verbatim>\<open>errors.Is(err, target)\<close>: identity along the chain of wrapped errors.\<close>

fun errors_Is :: "error \<Rightarrow> error \<Rightarrow> bool" where
  "errors_Is (Wrap p e) t = (Wrap p e = t \<or> errors_Is e t)"
| "errors_Is e t = (e = t)"

fun bind_result :: "'a result \<Rightarrow> ('a \<Rightarrow> 'b result) \<Rightarrow> 'b result" where
  "bind_result (Ok x) f = f x"
| "bind_result (Err e) f = Err e"
| "bind_result (Panic m) f = Panic m"

text \<open>\<^verbatim>\<open>if err != nil { return fmt.Errorf("prefix: %w", err) }\<close>\<close>

fun wrap_err :: "string \<Rightarrow> 'a result \<Rightarrow> 'a result" where
  "wrap_err p (Ok x) = Ok x"
| "wrap_err p (Err e) = Err (Wrap p e)"
| "wrap_err p (Panic m) = Panic m"

fun is_Ok :: "'a result \<Rightarrow> bool" where
  "is_Ok (Ok x) = True"
| "is_Ok (Err e) = False"
| "is_Ok (Panic m) = False"

lemma bind_result_eq_Ok [simp]:
  "bind_result r f = Ok y \<longleftrightarrow> (\<exists>x. r = Ok x \<and> f x = Ok y)"
  by (cases r) auto

lemma wrap_err_eq_Ok [simp]: "wrap_err p r = Ok x \<longleftrightarrow> r = Ok x"
  by (cases r) auto

lemma is_Ok_iff: "is_Ok r \<longleftrightarrow> (\<exists>x. r = Ok x)"
  by (cases r) auto

lemma errors_Is_refl [simp]: "errors_Is e e"
  by (cases e) auto


section \<open>Effectful calls\<close>

type_synonym ('s, 'a) eff = "'s \<Rightarrow> 'a result \<times> 's"

definition ret :: "'a \<Rightarrow> ('s, 'a) eff" where
  [eff_simps]: "ret x = (\<lambda>s. (Ok x, s))"

definition raise :: "error \<Rightarrow> ('s, 'a) eff" where
  [eff_simps]: "raise e = (\<lambda>s. (Err e, s))"

text \<open>A result computed without touching the state.\<close>

definition lift :: "'a result \<Rightarrow> ('s, 'a) eff" where
  [eff_simps]: "lift r = (\<lambda>s. (r, s))"

definition bnd :: "('s, 'a) eff \<Rightarrow> ('a \<Rightarrow> ('s, 'b) eff) \<Rightarrow> ('s, 'b) eff" where
  "bnd m f = (\<lambda>s. case m s of
       (Ok x, s') \<Rightarrow> f x s'
     | (Err e, s') \<Rightarrow> (Err e, s')
     | (Panic p, s') \<Rightarrow> (Panic p, s'))"

text \<open>\<^verbatim>\<open>_ = call(...)\<close>: the call runs and its error is dropped.\<close>

definition ignore_err :: "('s, 'a) eff \<Rightarrow> ('s, unit) eff" where
  "ignore_err m = (\<lambda>s. case m s of
       (Ok x, s') \<Rightarrow> (Ok (), s')
     | (Err e, s') \<Rightarrow> (Ok (), s')
     | (Panic p, s') \<Rightarrow> (Panic p, s'))"

text \<open>\<^verbatim>\<open>if err := call(...); err != nil { return fmt.Errorf("prefix: %w", err) }\<close>\<close>

definition wrap_eff :: "string \<Rightarrow> ('s, 'a) eff \<Rightarrow> ('s, 'a) eff" where
  "wrap_eff p m = (\<lambda>s. case m s of (r, s') \<Rightarrow> (wrap_err p r, s'))"

text \<open>\<^verbatim>\<open>if err != nil { ... } else { ... }\<close> after a call.\<close>

definition on_err :: "('s, 'a) eff \<Rightarrow> (error \<Rightarrow> ('s, 'b) eff) \<Rightarrow> ('a \<Rightarrow> ('s, 'b) eff) \<Rightarrow> ('s, 'b) eff" where
  "on_err m h f = (\<lambda>s. case m s of
       (Ok x, s') \<Rightarrow> f x s'
     | (Err e, s') \<Rightarrow> h e s'
     | (Panic p, s') \<Rightarrow> (Panic p, s'))"

text \<open>A call on one of two objects a component holds (its store and its bus).\<close>

definition on_fst :: "('s, 'a) eff \<Rightarrow> ('s \<times> 'b, 'a) eff" where
  [eff_simps]: "on_fst m = (\<lambda>(s, b). case m s of (r, s') \<Rightarrow> (r, (s', b)))"

definition on_snd :: "('b, 'a) eff \<Rightarrow> ('s \<times> 'b, 'a) eff" where
  [eff_simps]: "on_snd m = (\<lambda>(s, b). case m b of (r, b') \<Rightarrow> (r, (s, b')))"

text \<open>\<^verbatim>\<open>for _, x := range xs { body }\<close> where the body may return early with an error.\<close>

fun for_each :: "'a list \<Rightarrow> ('a \<Rightarrow> ('s, unit) eff) \<Rightarrow> ('s, unit) eff" where
  "for_each [] f = ret ()"
| "for_each (x # xs) f = bnd (f x) (\<lambda>_. for_each xs f)"

lemma bnd_Ok [simp]: "m s = (Ok x, s') \<Longrightarrow> bnd m f s = f x s'"
  by (simp add: bnd_def)

lemma bnd_Err [simp]: "m s = (Err e, s') \<Longrightarrow> bnd m f s = (Err e, s')"
  by (simp add: bnd_def)

lemma bnd_Panic [simp]: "m s = (Panic p, s') \<Longrightarrow> bnd m f s = (Panic p, s')"
  by (simp add: bnd_def)

lemma bnd_eq_Ok:
  "bnd m f s = (Ok y, t) \<longleftrightarrow> (\<exists>x s'. m s = (Ok x, s') \<and> f x s' = (Ok y, t))"
  by (auto simp: bnd_def split: prod.splits result.splits)

lemma ret_bnd [simp]: "bnd (ret x) f = f x"
  by (simp add: bnd_def ret_def fun_eq_iff)

lemma lift_Ok [simp]: "lift (Ok x) = ret x"
  by (simp add: lift_def ret_def)

lemma bnd_assoc: "bnd (bnd m f) g = bnd m (\<lambda>x. bnd (f x) g)"
  by (auto simp: bnd_def fun_eq_iff split: prod.splits result.splits)


subsection \<open>Triples\<close>

text \<open>
  \<open>triple P m Q R\<close>: from a state satisfying \<open>P\<close>, the call \<open>m\<close> either returns \<open>x\<close> in a
  state satisfying \<open>Q x\<close>, or fails (error or panic) in a state satisfying \<open>R\<close>.
\<close>

definition triple ::
  "('s \<Rightarrow> bool) \<Rightarrow> ('s, 'a) eff \<Rightarrow> ('a \<Rightarrow> 's \<Rightarrow> bool) \<Rightarrow> ('s \<Rightarrow> bool) \<Rightarrow> bool" where
  "triple P m Q R \<longleftrightarrow> (\<forall>s. P s \<longrightarrow> (case m s of
       (Ok x, s') \<Rightarrow> Q x s'
     | (Err e, s') \<Rightarrow> R s'
     | (Panic p, s') \<Rightarrow> R s'))"

lemma tripleI:
  assumes "\<And>s x s'. P s \<Longrightarrow> m s = (Ok x, s') \<Longrightarrow> Q x s'"
    and "\<And>s e s'. P s \<Longrightarrow> m s = (Err e, s') \<Longrightarrow> R s'"
    and "\<And>s p s'. P s \<Longrightarrow> m s = (Panic p, s') \<Longrightarrow> R s'"
  shows "triple P m Q R"
  using assms by (auto simp: triple_def split: prod.splits result.splits)

lemma triple_okD: "triple P m Q R \<Longrightarrow> P s \<Longrightarrow> m s = (Ok x, s') \<Longrightarrow> Q x s'"
  by (auto simp: triple_def split: prod.splits result.splits)

lemma triple_errD: "triple P m Q R \<Longrightarrow> P s \<Longrightarrow> m s = (Err e, s') \<Longrightarrow> R s'"
  by (fastforce simp: triple_def split: prod.splits result.splits)

lemma triple_panicD: "triple P m Q R \<Longrightarrow> P s \<Longrightarrow> m s = (Panic e, s') \<Longrightarrow> R s'"
  by (fastforce simp: triple_def split: prod.splits result.splits)

lemma triple_bnd:
  assumes "triple P m M R" and "\<And>x. triple (M x) (f x) Q R"
  shows "triple P (bnd m f) Q R"
proof (rule tripleI)
  fix s y t assume "P s" "bnd m f s = (Ok y, t)"
  then show "Q y t"
    using assms by (auto simp: bnd_eq_Ok dest: triple_okD)
next
  fix s e t assume P: "P s" and b: "bnd m f s = (Err e, t)"
  obtain r s' where m: "m s = (r, s')" by fastforce
  show "R t"
    using P b m triple_okD [OF assms(1) P] triple_errD [OF assms(1) P]
    by (cases r) (auto dest: triple_errD [OF assms(2)])
next
  fix s e t assume P: "P s" and b: "bnd m f s = (Panic e, t)"
  obtain r s' where m: "m s = (r, s')" by fastforce
  show "R t"
    using P b m triple_okD [OF assms(1) P] triple_panicD [OF assms(1) P]
    by (cases r) (auto dest: triple_panicD [OF assms(2)])
qed

lemma triple_conseq:
  assumes "triple P' m Q' R'" and "\<And>s. P s \<Longrightarrow> P' s"
    and "\<And>x s. Q' x s \<Longrightarrow> Q x s" and "\<And>s. R' s \<Longrightarrow> R s"
  shows "triple P m Q R"
  using assms by (fastforce simp: triple_def split: prod.splits result.splits)

lemma triple_ret [triple_rules]: "(\<And>s. P s \<Longrightarrow> Q x s) \<Longrightarrow> triple P (ret x) Q R"
  by (simp add: triple_def ret_def)

lemma triple_raise [triple_rules]: "(\<And>s. P s \<Longrightarrow> R s) \<Longrightarrow> triple P (raise e) Q R"
  by (simp add: triple_def raise_def)

lemma triple_lift [triple_rules]:
  "(\<And>s x. P s \<Longrightarrow> r = Ok x \<Longrightarrow> Q x s) \<Longrightarrow> (\<And>s. P s \<Longrightarrow> R s) \<Longrightarrow> triple P (lift r) Q R"
  by (cases r) (simp_all add: triple_def lift_def)

lemma triple_bnd_lift:
  "(\<And>x. r = Ok x \<Longrightarrow> triple P (f x) Q R) \<Longrightarrow> (\<And>s. P s \<Longrightarrow> R s) \<Longrightarrow>
   triple P (bnd (lift r) f) Q R"
  by (cases r) (simp_all add: triple_def lift_def bnd_def)

lemma triple_if [triple_rules]:
  "(c \<Longrightarrow> triple P m Q R) \<Longrightarrow> (\<not> c \<Longrightarrow> triple P n Q R) \<Longrightarrow> triple P (if c then m else n) Q R"
  by simp

lemma triple_on_fst:
  "triple P m Q R \<Longrightarrow>
   triple (\<lambda>w. P (fst w)) (on_fst m) (\<lambda>x w. Q x (fst w)) (\<lambda>w. R (fst w))"
  by (fastforce simp: triple_def on_fst_def split: prod.splits result.splits)

lemma triple_on_snd [triple_rules]:
  "triple (\<lambda>w. P (fst w)) (on_snd m) (\<lambda>_ w. P (fst w)) (\<lambda>w. P (fst w))"
  by (fastforce simp: triple_def on_snd_def split: prod.splits result.splits)

lemma triple_ignore_err:
  "triple P m (\<lambda>_. Q) Q \<Longrightarrow> triple P (ignore_err m) (\<lambda>_. Q) Q"
  by (fastforce simp: triple_def ignore_err_def split: prod.splits result.splits)

lemma triple_for_each:
  "(\<And>x. x \<in> set xs \<Longrightarrow> triple P (f x) (\<lambda>_. P) R) \<Longrightarrow> triple P (for_each xs f) (\<lambda>_. P) R"
proof (induction xs)
  case Nil
  then show ?case by (simp add: triple_ret)
next
  case (Cons x xs)
  then show ?case by (auto intro!: triple_bnd)
qed

lemma wrap_eff_eq: "wrap_eff p m s = (r, s') \<longleftrightarrow> (\<exists>r0. m s = (r0, s') \<and> r = wrap_err p r0)"
  by (auto simp: wrap_eff_def split: prod.splits)

lemma wrap_err_fails:
  "Err e = wrap_err p r \<longleftrightarrow> (\<exists>e0. r = Err e0 \<and> e = Wrap p e0)" "Panic q = wrap_err p r \<longleftrightarrow> r = Panic q"
  by (cases r; auto)+

lemma wrap_err_eq_Ok': "Ok x = wrap_err p r \<longleftrightarrow> r = Ok x"
  by (cases r) auto

lemma triple_wrap: "triple P m Q R \<Longrightarrow> triple P (wrap_eff p m) Q R"
  by (rule tripleI) (auto simp: wrap_eff_eq wrap_err_fails wrap_err_eq_Ok'
      dest: triple_okD triple_errD triple_panicD)

lemma triple_conj:
  assumes "triple P m Q R" and "triple P' m Q' R'"
  shows "triple (\<lambda>s. P s \<and> P' s) m (\<lambda>x s. Q x s \<and> Q' x s) (\<lambda>s. R s \<and> R' s)"
proof (rule tripleI)
  fix s x s' assume P: "P s \<and> P' s" and m: "m s = (Ok x, s')"
  show "Q x s' \<and> Q' x s'"
    using triple_okD [OF assms(1) _ m] triple_okD [OF assms(2) _ m] P by blast
next
  fix s e s' assume P: "P s \<and> P' s" and m: "m s = (Err e, s')"
  show "R s' \<and> R' s'"
    using triple_errD [OF assms(1) _ m] triple_errD [OF assms(2) _ m] P by blast
next
  fix s e s' assume P: "P s \<and> P' s" and m: "m s = (Panic e, s')"
  show "R s' \<and> R' s'"
    using triple_panicD [OF assms(1) _ m] triple_panicD [OF assms(2) _ m] P by blast
qed

lemma triple_invariantD: "triple I m (\<lambda>_. I) I \<Longrightarrow> I s \<Longrightarrow> m s = (r, s') \<Longrightarrow> I s'"
  by (cases r) (auto dest: triple_okD triple_errD triple_panicD)

lemma triple_succeeds: "triple P m Q (\<lambda>_. False) \<Longrightarrow> P s \<Longrightarrow> is_Ok (fst (m s))"
  by (cases "m s"; cases "fst (m s)") (auto dest: triple_errD triple_panicD)

lemma triple_pre_false: "(\<And>s. \<not> P s) \<Longrightarrow> triple P m Q R"
  by (simp add: triple_def)

lemma triple_ex: "(\<And>x. triple (P x) m Q R) \<Longrightarrow> triple (\<lambda>s. \<exists>x. P x s) m Q R"
  by (fastforce simp: triple_def split: prod.splits result.splits)


section \<open>Successors of machine words\<close>

lemma unat_inc: "n \<noteq> - 1 \<Longrightarrow> unat (n + 1) = unat (n :: 'a::len word) + 1"
  using unatSuc [of n] by (simp add: add.commute eq_neg_iff_add_eq_0)

lemma word_less_inc: "n \<noteq> - 1 \<Longrightarrow> k < n + 1 \<longleftrightarrow> k \<le> (n :: 'a::len word)"
  by (simp add: word_less_nat_alt word_le_nat_alt unat_inc less_Suc_eq_le)

lemma unat_dec: "0 < n \<Longrightarrow> unat (n - 1) = unat (n :: 'a::len word) - 1"
  by (simp add: unat_minus_one word_gt_0)

lemma word_le_dec: "0 < n \<Longrightarrow> k \<le> n - 1 \<longleftrightarrow> k < (n :: 'a::len word)"
  by (auto simp: word_less_nat_alt word_le_nat_alt unat_dec)

lemma word_inc_pos: "n \<noteq> - 1 \<Longrightarrow> 0 < n + (1 :: 'a::len word)"
  by (simp add: word_less_inc)

lemma unat_less_max: "(n :: 'a::len word) < h \<Longrightarrow> n \<noteq> - 1"
  using max_word_max [of h] by (auto simp: not_less [symmetric])

lemma word_le_not_max: "n \<le> h \<Longrightarrow> h \<noteq> - 1 \<Longrightarrow> n \<noteq> (- 1 :: 'a::len word)"
  using max_word_max [of h] by (metis antisym)

end
