(* ===== verification/Eth_Lib.thy ===== *)
theory Eth_Lib
  imports Go_Prelude
begin

text \<open>
  The part of go-ethereum the platform calls. The library is not part of the repository:
  its data types appear with the fields the platform reads, and its functions are the
  fields of a record \<open>Eth\<close> that is an argument of every definition that uses them. What
  the platform relies on is stated as hypotheses (\<open>hex_lawful\<close>, \<open>abi_lawful\<close>).
\<close>

text \<open>\<^verbatim>\<open>types.Header\<close>; \<open>h_Hash\<close> is the value of \<^verbatim>\<open>header.Hash()\<close>.\<close>

record Header =
  h_Number :: int
  h_ParentHash :: hash
  h_Time :: u64
  h_Hash :: hash

record Log =
  l_Address :: address
  l_Topics :: "hash list"
  l_Data :: "u8 list"
  l_TxHash :: hash
  l_Index :: u64

record FilterQuery =
  FromBlock :: int
  ToBlock :: int
  Addresses :: "address list"
  Topics :: "hash list list"

text \<open>A line break and one tab, as they appear in the ABI literals.\<close>

definition nl_tab :: string where
  "nl_tab = [CHR 0x0A, CHR 0x09]"

text \<open>A value produced by the ABI decoder: a \<^verbatim>\<open>*big.Int\<close>, an address, or anything else.\<close>

datatype abiVal = BigInt int | Addr address | OtherVal

record 'abi Eth =
  abi_JSON :: "string \<Rightarrow> 'abi result"
  event_ID :: "'abi \<Rightarrow> string \<Rightarrow> hash"
  UnpackIntoInterface :: "'abi \<Rightarrow> string \<Rightarrow> u8 list \<Rightarrow> error + int"
  Pack :: "'abi \<Rightarrow> string \<Rightarrow> abiVal list \<Rightarrow> u8 list result"
  Unpack :: "'abi \<Rightarrow> string \<Rightarrow> u8 list \<Rightarrow> abiVal list result"
  Hash_Hex :: "hash \<Rightarrow> string"
  Address_Hex :: "address \<Rightarrow> string"
  HexToHash :: "string \<Rightarrow> hash"
  HexToAddress :: "string \<Rightarrow> address"
  IsHexAddress :: "string \<Rightarrow> bool"

text \<open>
  Documented behaviour of package \<^verbatim>\<open>common\<close>: \<^verbatim>\<open>Hex\<close> prints a value as hexadecimal text,
  \<^verbatim>\<open>HexToHash\<close> reads it back, and \<^verbatim>\<open>HexToAddress\<close> keeps the low 20 bytes of a longer value.
\<close>

definition hex_lawful :: "'abi Eth \<Rightarrow> bool" where
  "hex_lawful eth \<longleftrightarrow>
     (\<forall>h. HexToHash eth (Hash_Hex eth h) = h) \<and>
     (\<forall>h. HexToAddress eth (Hash_Hex eth h) = ucast h) \<and>
     (\<forall>a. HexToAddress eth (Address_Hex eth a) = a)"

text \<open>Big-endian value of a byte string, the ABI encoding of a \<^verbatim>\<open>uint256\<close>.\<close>

definition be_value :: "u8 list \<Rightarrow> int" where
  "be_value bs = foldl (\<lambda>acc b. 256 * acc + uint b) 0 bs"

lemma hex_lawfulD:
  assumes "hex_lawful eth"
  shows "HexToHash eth (Hash_Hex eth h) = h"
    and "HexToAddress eth (Hash_Hex eth h) = ucast h"
    and "HexToAddress eth (Address_Hex eth a) = a"
  using assms by (simp_all add: hex_lawful_def)

text \<open>The \<open>k\<close>-byte big-endian encoding of a number, and that \<open>be_value\<close> reads it back.\<close>

fun be_bytes :: "nat \<Rightarrow> int \<Rightarrow> u8 list" where
  "be_bytes 0 v = []"
| "be_bytes (Suc k) v = be_bytes k (v div 256) @ [word_of_int v]"

lemma length_be_bytes [simp]: "length (be_bytes k v) = k"
  by (induction k v rule: be_bytes.induct) simp_all

lemma be_value_be_bytes: "0 \<le> v \<Longrightarrow> v < 256 ^ k \<Longrightarrow> be_value (be_bytes k v) = v"
proof (induction k v rule: be_bytes.induct)
  case (2 k v)
  have "v div 256 < x" if "v < 256 * x" for x using that by presburger
  then have "v div 256 < 256 ^ k" using "2.prems" by simp
  then have "be_value (be_bytes k (v div 256)) = v div 256" using "2.IH" "2.prems" by simp
  moreover have "uint (word_of_int v :: u8) = v mod 256" by (simp add: uint_word_of_int)
  ultimately show ?case by (simp add: be_value_def)
qed (simp add: be_value_def)

end
