(* ===== verification/Erc20.thy ===== *)
theory Erc20
  imports Eth_Lib
begin

text \<open>
  \<^verbatim>\<open>internal/chainmonitor/erc20.go\<close>: the decoded \<^verbatim>\<open>Transfer\<close> log and the decoder. The ABI
  decoder itself is the library parameter \<open>UnpackIntoInterface\<close>.
\<close>

definition erc20TransferABI :: string where
  \<open>erc20TransferABI =
     ''[{'' @ nl_tab @
     ''"anonymous": false,'' @ nl_tab @
     ''"name": "Transfer",'' @ nl_tab @
     ''"type": "event",'' @ nl_tab @
     ''"inputs": ['' @ nl_tab @ [CHR 0x09] @
     ''{"indexed": true,  "name": "from",  "type": "address"},'' @ nl_tab @ [CHR 0x09] @
     ''{"indexed": true,  "name": "to",    "type": "address"},'' @ nl_tab @ [CHR 0x09] @
     ''{"indexed": false, "name": "value", "type": "uint256"}'' @ nl_tab @
     '']'' @ [CHR 0x0A] @
     ''}]''\<close>

record Transfer =
  Token :: address
  From :: address
  To :: address
  Value :: int
  TxHash :: hash
  LogIndex :: u64

record 'abi transferDecoder =
  td_abi :: 'abi
  TopicID :: hash

definition newTransferDecoder :: "'abi Eth \<Rightarrow> 'abi transferDecoder result" where
  "newTransferDecoder eth =
     bind_result (wrap_err ''parse erc20 abi'' (abi_JSON eth erc20TransferABI))
       (\<lambda>parsed. Ok \<lparr>td_abi = parsed, TopicID = event_ID eth parsed ''Transfer''\<rparr>)"

definition decode :: "'abi Eth \<Rightarrow> 'abi transferDecoder \<Rightarrow> Log \<Rightarrow> Transfer option" where
  "decode eth d lg =
     (if length (l_Topics lg) \<noteq> 3 \<or> l_Topics lg ! 0 \<noteq> TopicID d then None
      else case UnpackIntoInterface eth (td_abi d) ''Transfer'' (l_Data lg) of
          Inl err \<Rightarrow> None
        | Inr v \<Rightarrow> Some
            \<lparr>Token = l_Address lg,
             From = HexToAddress eth (Hash_Hex eth (l_Topics lg ! 1)),
             To = HexToAddress eth (Hash_Hex eth (l_Topics lg ! 2)),
             Value = v,
             TxHash = l_TxHash lg,
             LogIndex = l_Index lg\<rparr>)"

text \<open>
  Documented behaviour of the ABI decoder on the event's one non-indexed argument: 32 bytes
  are read as a big-endian unsigned integer, shorter data is an error.
\<close>

definition transfer_abi_lawful :: "'abi Eth \<Rightarrow> 'abi \<Rightarrow> bool" where
  "transfer_abi_lawful eth a \<longleftrightarrow>
     (\<forall>bs. length bs = 32 \<longrightarrow> UnpackIntoInterface eth a ''Transfer'' bs = Inr (be_value bs)) \<and>
     (\<forall>bs. length bs < 32 \<longrightarrow> (\<exists>e. UnpackIntoInterface eth a ''Transfer'' bs = Inl e))"

lemma decode_Some_iff:
  "decode eth d lg = Some t \<longleftrightarrow>
     (\<exists>t1 t2 v. l_Topics lg = [TopicID d, t1, t2] \<and>
        UnpackIntoInterface eth (td_abi d) ''Transfer'' (l_Data lg) = Inr v \<and>
        t = \<lparr>Token = l_Address lg, From = HexToAddress eth (Hash_Hex eth t1),
             To = HexToAddress eth (Hash_Hex eth t2), Value = v,
             TxHash = l_TxHash lg, LogIndex = l_Index lg\<rparr>)"
  by (auto simp: decode_def numeral_3_eq_3 numeral_2_eq_2 length_Suc_conv split: sum.splits)

lemma decode_provenance:
  assumes "decode eth d lg = Some t"
  shows "Token t = l_Address lg" "TxHash t = l_TxHash lg" "LogIndex t = l_Index lg"
  using assms by (auto simp: decode_Some_iff)

end
