(* ===== verification/Chain_Store.thy ===== *)
theory Chain_Store
  imports Erc20 "HOL-Library.AList"
begin

text \<open>
  \<^verbatim>\<open>internal/chainmonitor/store.go\<close>: the indexed block, the \<^verbatim>\<open>Store\<close> interface and its
  in-memory implementation \<^verbatim>\<open>MemStore\<close>.

  The interface is a record of calls on a store object (\<open>Store\<close>); its contract is the
  locale \<open>chain_store\<close>, stated over two observations of the object: the map of indexed
  blocks and the list of stored transfers. \<open>append_store\<close>, \<open>reliable_store\<close> extend the
  contract. \<open>MemStore\<close> is an interpretation of all of them.
\<close>

record Block =
  Number :: u64
  Hash :: hash
  ParentHash :: hash
  Time :: u64

record storedTransfer =
  st_block :: u64
  st_transfer :: Transfer
  st_confirmed :: bool

record 's Store =
  SaveBlock :: "Block \<Rightarrow> Transfer list \<Rightarrow> bool \<Rightarrow> ('s, unit) eff"
  LastBlock :: "('s, Block option) eff"
  BlockByNumber :: "u64 \<Rightarrow> ('s, Block option) eff"
  DeleteFrom :: "u64 \<Rightarrow> ('s, unit) eff"
  ConfirmThrough :: "u64 \<Rightarrow> ('s, unit) eff"


section \<open>MemStore\<close>

text \<open>
  The Go map \<^verbatim>\<open>blocks\<close> is an association list with distinct keys (its order plays no role
  in any result), the slice \<^verbatim>\<open>transfers\<close> a list. Every method runs under the store's mutex,
  so each is one atomic state change.
\<close>

record MemStore =
  m_blocks :: "(u64 \<times> Block) list"
  m_transfers :: "storedTransfer list"

definition NewMemStore :: MemStore where
  "NewMemStore = \<lparr>m_blocks = [], m_transfers = []\<rparr>"

definition zeroBlock :: Block where
  "zeroBlock = \<lparr>Number = 0, Hash = 0, ParentHash = 0, Time = 0\<rparr>"

definition saved_rows :: "u64 \<Rightarrow> Transfer list \<Rightarrow> bool \<Rightarrow> storedTransfer list" where
  "saved_rows n ts c = map (\<lambda>t. \<lparr>st_block = n, st_transfer = t, st_confirmed = c\<rparr>) ts"

definition mem_SaveBlock :: "Block \<Rightarrow> Transfer list \<Rightarrow> bool \<Rightarrow> (MemStore, unit) eff" where
  "mem_SaveBlock b transfers confirmed m =
     (Ok (), m\<lparr>m_blocks := AList.update (Number b) b (m_blocks m),
               m_transfers := m_transfers m @ saved_rows (Number b) transfers confirmed\<rparr>)"

definition mem_LastBlock :: "(MemStore, Block option) eff" where
  "mem_LastBlock m =
     (if length (m_blocks m) = 0 then (Ok None, m)
      else let nums = rev (sort (map fst (m_blocks m)))
           in (Ok (Some (case map_of (m_blocks m) (nums ! 0) of
                          Some b \<Rightarrow> b | None \<Rightarrow> zeroBlock)), m))"

definition mem_BlockByNumber :: "u64 \<Rightarrow> (MemStore, Block option) eff" where
  "mem_BlockByNumber number m = (Ok (map_of (m_blocks m) number), m)"

definition mem_DeleteFrom :: "u64 \<Rightarrow> (MemStore, unit) eff" where
  "mem_DeleteFrom number m =
     (Ok (), m\<lparr>m_blocks := filter (\<lambda>(n, b). \<not> n \<ge> number) (m_blocks m),
               m_transfers := filter (\<lambda>t. st_block t < number) (m_transfers m)\<rparr>)"

definition mem_ConfirmThrough :: "u64 \<Rightarrow> (MemStore, unit) eff" where
  "mem_ConfirmThrough number m =
     (Ok (), m\<lparr>m_transfers :=
        map (\<lambda>t. if st_block t \<le> number then t\<lparr>st_confirmed := True\<rparr> else t) (m_transfers m)\<rparr>)"

definition ConfirmedTransfers :: "MemStore \<Rightarrow> Transfer list" where
  "ConfirmedTransfers m = map st_transfer (filter st_confirmed (m_transfers m))"

definition memStore :: "MemStore Store" where
  "memStore =
     \<lparr>SaveBlock = mem_SaveBlock, LastBlock = mem_LastBlock,
      BlockByNumber = mem_BlockByNumber, DeleteFrom = mem_DeleteFrom,
      ConfirmThrough = mem_ConfirmThrough\<rparr>"

lemmas mem_defs =
  mem_SaveBlock_def mem_LastBlock_def mem_BlockByNumber_def mem_DeleteFrom_def
  mem_ConfirmThrough_def memStore_def


section \<open>The contract of a store\<close>

text \<open>Observations: \<open>at_view\<close> fixes the block map and the stored rows of a state.\<close>

definition at_view ::
  "('s \<Rightarrow> bool) \<Rightarrow> ('s \<Rightarrow> u64 \<rightharpoonup> Block) \<Rightarrow> ('s \<Rightarrow> storedTransfer list) \<Rightarrow>
   (u64 \<rightharpoonup> Block) \<Rightarrow> storedTransfer list \<Rightarrow> 's \<Rightarrow> bool" where
  "at_view invar blocks rows B R s \<longleftrightarrow> invar s \<and> blocks s = B \<and> rows s = R"

text \<open>The highest indexed block.\<close>

definition is_last :: "(u64 \<rightharpoonup> Block) \<Rightarrow> Block option \<Rightarrow> bool" where
  "is_last B r \<longleftrightarrow> (case r of
       None \<Rightarrow> B = Map.empty
     | Some b \<Rightarrow> B (Number b) = Some b \<and> (\<forall>n \<in> dom B. n \<le> Number b))"

definition blocks_below :: "u64 \<Rightarrow> (u64 \<rightharpoonup> Block) \<Rightarrow> (u64 \<rightharpoonup> Block)" where
  "blocks_below n B = (\<lambda>k. if k < n then B k else None)"

definition rows_below :: "u64 \<Rightarrow> storedTransfer list \<Rightarrow> storedTransfer list" where
  "rows_below n R = filter (\<lambda>r. st_block r < n) R"

definition confirm_rows :: "u64 \<Rightarrow> storedTransfer list \<Rightarrow> storedTransfer list" where
  "confirm_rows n R = map (\<lambda>r. if st_block r \<le> n then r\<lparr>st_confirmed := True\<rparr> else r) R"

text \<open>What saving may do to the rows: some of the block's transfers are appended (an
  implementation may skip a transfer it already holds).\<close>

definition rows_extended ::
  "storedTransfer list \<Rightarrow> u64 \<Rightarrow> Transfer list \<Rightarrow> bool \<Rightarrow> storedTransfer list \<Rightarrow> bool" where
  "rows_extended R n ts c R' \<longleftrightarrow> (\<exists>new. R' = R @ new \<and> set new \<subseteq> set (saved_rows n ts c))"

locale chain_store =
  fixes ops :: "'s Store"
    and invar :: "'s \<Rightarrow> bool"
    and blocks :: "'s \<Rightarrow> u64 \<rightharpoonup> Block"
    and rows :: "'s \<Rightarrow> storedTransfer list"
  assumes keyed: "invar s \<Longrightarrow> blocks s n = Some b \<Longrightarrow> Number b = n"
    and rows_indexed: "invar s \<Longrightarrow> r \<in> set (rows s) \<Longrightarrow> st_block r \<in> dom (blocks s)"
    and save_law:
      "triple (at_view invar blocks rows B R) (SaveBlock ops b ts c)
         (\<lambda>_ s. invar s \<and> blocks s = B(Number b \<mapsto> b) \<and> rows_extended R (Number b) ts c (rows s))
         (\<lambda>s. invar s \<and> (blocks s = B \<and> rows s = R \<or>
               blocks s = B(Number b \<mapsto> b) \<and> rows_extended R (Number b) ts c (rows s)))"
    and last_law:
      "triple (at_view invar blocks rows B R) (LastBlock ops)
         (\<lambda>r s. at_view invar blocks rows B R s \<and> is_last B r) (at_view invar blocks rows B R)"
    and get_law:
      "triple (at_view invar blocks rows B R) (BlockByNumber ops n)
         (\<lambda>r s. at_view invar blocks rows B R s \<and> r = B n) (at_view invar blocks rows B R)"
    and delete_law:
      "triple (at_view invar blocks rows B R) (DeleteFrom ops n)
         (\<lambda>_. at_view invar blocks rows (blocks_below n B) (rows_below n R))
         (\<lambda>s. at_view invar blocks rows B R s \<or>
               at_view invar blocks rows (blocks_below n B) (rows_below n R) s)"
    and confirm_law:
      "triple (at_view invar blocks rows B R) (ConfirmThrough ops n)
         (\<lambda>_. at_view invar blocks rows B (confirm_rows n R))
         (\<lambda>s. at_view invar blocks rows B R s \<or>
               at_view invar blocks rows B (confirm_rows n R) s)"

text \<open>A store that keeps every transfer it is given, in order.\<close>

locale append_store = chain_store +
  assumes save_appends:
    "invar s \<Longrightarrow> SaveBlock ops b ts c s = (Ok (), s') \<Longrightarrow>
       rows s' = rows s @ saved_rows (Number b) ts c"

text \<open>A store whose calls succeed, for the block numbers and blocks it can represent.\<close>

locale reliable_store = chain_store +
  fixes indexable :: "u64 \<Rightarrow> bool"
    and storable :: "Block \<Rightarrow> Transfer list \<Rightarrow> bool"
  assumes save_succeeds: "invar s \<Longrightarrow> storable b ts \<Longrightarrow> is_Ok (fst (SaveBlock ops b ts c s))"
    and last_succeeds: "invar s \<Longrightarrow> is_Ok (fst (LastBlock ops s))"
    and get_succeeds: "invar s \<Longrightarrow> indexable n \<Longrightarrow> is_Ok (fst (BlockByNumber ops n s))"
    and delete_succeeds: "invar s \<Longrightarrow> indexable n \<Longrightarrow> is_Ok (fst (DeleteFrom ops n s))"
    and confirm_succeeds: "invar s \<Longrightarrow> indexable n \<Longrightarrow> is_Ok (fst (ConfirmThrough ops n s))"


section \<open>MemStore meets the contract\<close>

definition mem_inv :: "MemStore \<Rightarrow> bool" where
  "mem_inv m \<longleftrightarrow> distinct (map fst (m_blocks m)) \<and>
     (\<forall>(n, b) \<in> set (m_blocks m). Number b = n) \<and>
     (\<forall>r \<in> set (m_transfers m). st_block r \<in> fst ` set (m_blocks m))"

definition mem_blocks :: "MemStore \<Rightarrow> u64 \<rightharpoonup> Block" where
  "mem_blocks m = map_of (m_blocks m)"

lemma mem_inv_New [simp]: "mem_inv NewMemStore"
  by (simp add: mem_inv_def NewMemStore_def)

lemma map_of_filter_below:
  "map_of (filter (\<lambda>(n, b). \<not> n \<ge> number) al) = blocks_below number (map_of al)"
  by (induction al) (auto simp: blocks_below_def fun_eq_iff)

lemma sort_rev_nth0:
  fixes xs :: "'a::linorder list"
  assumes "xs \<noteq> []"
  shows "rev (sort xs) ! 0 \<in> set xs" and "\<forall>x \<in> set xs. x \<le> rev (sort xs) ! 0"
proof -
  have ne: "sort xs \<noteq> []" using assms by (metis length_0_conv length_sort)
  then have nth: "rev (sort xs) ! 0 = last (sort xs)" by (metis hd_conv_nth hd_rev rev_is_Nil_conv)
  show "rev (sort xs) ! 0 \<in> set xs"
    using ne nth by (metis last_in_set set_sort)
  show "\<forall>x \<in> set xs. x \<le> rev (sort xs) ! 0"
  proof
    fix x assume "x \<in> set xs"
    then have "x \<in> set (butlast (sort xs) @ [last (sort xs)])"
      using ne by (simp add: append_butlast_last_id)
    moreover have "sorted (butlast (sort xs) @ [last (sort xs)])"
      using ne by (simp add: append_butlast_last_id)
    ultimately show "x \<le> rev (sort xs) ! 0"
      using nth by (auto simp: sorted_append)
  qed
qed

lemma mem_LastBlock_is_last:
  assumes "mem_inv m"
  shows "\<exists>r. mem_LastBlock m = (Ok r, m) \<and> is_last (mem_blocks m) r"
proof (cases "m_blocks m = []")
  case True
  then show ?thesis by (simp add: mem_LastBlock_def mem_blocks_def is_last_def)
next
  case False
  let ?ks = "map fst (m_blocks m)"
  let ?n = "rev (sort ?ks) ! 0"
  have "?n \<in> set ?ks" using False by (intro sort_rev_nth0(1)) simp
  then obtain b where b: "map_of (m_blocks m) ?n = Some b"
    by (metis list.set_map domD dom_map_of_conv_image_fst)
  then have "(?n, b) \<in> set (m_blocks m)" by (rule map_of_SomeD)
  then have num: "Number b = ?n" using assms by (auto simp: mem_inv_def)
  have "\<forall>k \<in> dom (mem_blocks m). k \<le> ?n"
    using sort_rev_nth0(2) [of ?ks] False by (simp add: mem_blocks_def dom_map_of_conv_image_fst)
  then have "is_last (mem_blocks m) (Some b)"
    using b num by (simp add: is_last_def mem_blocks_def)
  then show ?thesis
    using False b by (simp add: mem_LastBlock_def Let_def)
qed

lemma mem_LastBlockD:
  "mem_LastBlock m = (r, m') \<Longrightarrow> mem_inv m \<Longrightarrow> m' = m \<and> (\<exists>x. r = Ok x \<and> is_last (mem_blocks m) x)"
  using mem_LastBlock_is_last [of m] by auto

lemma set_AList_update: "set (AList.update k v al) \<subseteq> insert (k, v) (set al)"
  by (induction al) auto

lemma mem_inv_save:
  assumes "mem_inv m"
  shows "mem_inv (m\<lparr>m_blocks := AList.update (Number b) b (m_blocks m),
                    m_transfers := m_transfers m @ saved_rows (Number b) ts c\<rparr>)"
proof -
  have "\<forall>(n, b') \<in> set (AList.update (Number b) b (m_blocks m)). Number b' = n"
    using assms set_AList_update [of "Number b" b "m_blocks m"] by (fastforce simp: mem_inv_def)
  then show ?thesis
    using assms distinct_update [of "m_blocks m" "Number b" b]
    by (auto simp: mem_inv_def dom_update saved_rows_def)
qed

lemma mem_inv_delete:
  assumes "mem_inv m"
  shows "mem_inv (m\<lparr>m_blocks := filter (\<lambda>(n, b). \<not> n \<ge> number) (m_blocks m),
                    m_transfers := filter (\<lambda>t. st_block t < number) (m_transfers m)\<rparr>)"
proof -
  have "distinct (map fst (filter (\<lambda>(n, b). \<not> n \<ge> number) (m_blocks m)))"
    using assms by (simp add: mem_inv_def distinct_map_filter)
  then show ?thesis
    using assms by (fastforce simp: mem_inv_def image_iff not_le)
qed

lemma mem_inv_confirm:
  "mem_inv m \<Longrightarrow> mem_inv (m\<lparr>m_transfers :=
      map (\<lambda>t. if st_block t \<le> number then t\<lparr>st_confirmed := True\<rparr> else t) (m_transfers m)\<rparr>)"
  by (auto simp: mem_inv_def)

interpretation mem: chain_store memStore mem_inv mem_blocks m_transfers
proof
  fix s n b assume "mem_inv s" "mem_blocks s n = Some b"
  then show "Number b = n"
    by (auto simp: mem_inv_def mem_blocks_def dest: map_of_SomeD)
next
  fix s r assume "mem_inv s" "r \<in> set (m_transfers s)"
  then show "st_block r \<in> dom (mem_blocks s)"
    by (simp add: mem_inv_def mem_blocks_def dom_map_of_conv_image_fst)
next
  fix B R b ts c
  show "triple (at_view mem_inv mem_blocks m_transfers B R) (SaveBlock memStore b ts c)
         (\<lambda>_ s. mem_inv s \<and> mem_blocks s = B(Number b \<mapsto> b) \<and>
                rows_extended R (Number b) ts c (m_transfers s))
         (\<lambda>s. mem_inv s \<and> (mem_blocks s = B \<and> m_transfers s = R \<or>
               mem_blocks s = B(Number b \<mapsto> b) \<and> rows_extended R (Number b) ts c (m_transfers s)))"
    by (rule tripleI)
       (auto simp: at_view_def mem_defs mem_inv_save mem_blocks_def update_conv' rows_extended_def)
next
  fix B R
  show "triple (at_view mem_inv mem_blocks m_transfers B R) (LastBlock memStore)
         (\<lambda>r s. at_view mem_inv mem_blocks m_transfers B R s \<and> is_last B r)
         (at_view mem_inv mem_blocks m_transfers B R)"
    by (rule tripleI) (auto simp: at_view_def memStore_def dest: mem_LastBlockD)
next
  fix B R n
  show "triple (at_view mem_inv mem_blocks m_transfers B R) (BlockByNumber memStore n)
         (\<lambda>r s. at_view mem_inv mem_blocks m_transfers B R s \<and> r = B n)
         (at_view mem_inv mem_blocks m_transfers B R)"
    by (rule tripleI) (auto simp: at_view_def mem_defs mem_blocks_def)
next
  fix B R n
  show "triple (at_view mem_inv mem_blocks m_transfers B R) (DeleteFrom memStore n)
         (\<lambda>_. at_view mem_inv mem_blocks m_transfers (blocks_below n B) (rows_below n R))
         (\<lambda>s. at_view mem_inv mem_blocks m_transfers B R s \<or>
               at_view mem_inv mem_blocks m_transfers (blocks_below n B) (rows_below n R) s)"
    by (rule tripleI)
       (auto simp: at_view_def mem_defs mem_inv_delete [simplified] mem_blocks_def
          map_of_filter_below [simplified] rows_below_def)
next
  fix B R n
  show "triple (at_view mem_inv mem_blocks m_transfers B R) (ConfirmThrough memStore n)
         (\<lambda>_. at_view mem_inv mem_blocks m_transfers B (confirm_rows n R))
         (\<lambda>s. at_view mem_inv mem_blocks m_transfers B R s \<or>
               at_view mem_inv mem_blocks m_transfers B (confirm_rows n R) s)"
    by (rule tripleI)
       (auto simp: at_view_def mem_defs mem_inv_confirm mem_blocks_def confirm_rows_def)
qed

interpretation mem: append_store memStore mem_inv mem_blocks m_transfers
  by unfold_locales (auto simp: mem_defs)

interpretation mem: reliable_store memStore mem_inv mem_blocks m_transfers "\<lambda>_. True" "\<lambda>_ _. True"
  by unfold_locales (auto simp: mem_defs Let_def)

end
