(* ===== verification/Events.thy ===== *)
theory Events
  imports Go_Prelude
begin

text \<open>
  Package \<^verbatim>\<open>pkg/events\<close>: the subjects of the platform's domain events, the values that
  are published, and the publish side of the \<^verbatim>\<open>Bus\<close> interface as a dictionary of calls on
  a bus object of type \<open>'b\<close>. Callers receive the dictionary and the object, as Go code
  receives an interface value.
\<close>

text \<open>Go values handed to an encoder (\<^verbatim>\<open>any\<close>): maps and structs keep their fields in the
  order they are written.\<close>

datatype any =
    ANil
  | ABool bool
  | AInt int
  | AString string
  | ATime int
  | ASlice "any list"
  | AMap "(string \<times> any) list"
  | AStruct "(string \<times> any) list"

definition SubjectUserCreated :: string where
  "SubjectUserCreated = ''user.created''"
definition SubjectWalletCreated :: string where
  "SubjectWalletCreated = ''wallet.created''"
definition SubjectTxSubmitted :: string where
  "SubjectTxSubmitted = ''transaction.submitted''"
definition SubjectPaymentMade :: string where
  "SubjectPaymentMade = ''payment.made''"
definition SubjectChainBlock :: string where
  "SubjectChainBlock = ''chain.block''"
definition SubjectChainTransfer :: string where
  "SubjectChainTransfer = ''chain.transfer''"
definition SubjectChainReorg :: string where
  "SubjectChainReorg = ''chain.reorg''"

lemmas subject_defs =
  SubjectUserCreated_def SubjectWalletCreated_def SubjectTxSubmitted_def
  SubjectPaymentMade_def SubjectChainBlock_def SubjectChainTransfer_def SubjectChainReorg_def

record 'b Bus =
  Publish :: "string \<Rightarrow> any \<Rightarrow> ('b, unit) eff"

text \<open>The recording bus the monitor's tests use: every publication succeeds and is kept.\<close>

type_synonym capture = "(string \<times> any) list"

definition captureBus :: "capture Bus" where
  "captureBus = \<lparr>Publish = (\<lambda>subject data b. (Ok (), b @ [(subject, data)]))\<rparr>"

end
