(* ===== verification/Go_Text.thy ===== *)
theory Go_Text
  imports Go_Prelude
begin

text \<open>
  Decimal text and the helpers of packages \<^verbatim>\<open>strings\<close> and \<^verbatim>\<open>strconv\<close> the platform uses:
  printing of integers, \<^verbatim>\<open>ParseUint\<close> / \<^verbatim>\<open>ParseInt\<close> in base 10, \<^verbatim>\<open>CutPrefix\<close>, \<^verbatim>\<open>TrimPrefix\<close>
  and \<^verbatim>\<open>Cut\<close>.
\<close>

section \<open>Printing integers\<close>

definition digit_char :: "nat \<Rightarrow> char" where
  "digit_char d = char_of (48 + d)"

fun utoa :: "nat \<Rightarrow> string" where
  "utoa n = (if n < 10 then [digit_char n] else utoa (n div 10) @ [digit_char (n mod 10)])"

declare utoa.simps [simp del]

definition itoa :: "int \<Rightarrow> string" where
  "itoa i = (if i < 0 then ''-'' @ utoa (nat (- i)) else utoa (nat i))"


section \<open>Reading integers\<close>

definition is_digit :: "char \<Rightarrow> bool" where
  "is_digit c \<longleftrightarrow> 48 \<le> (of_char c :: nat) \<and> (of_char c :: nat) \<le> 57"

definition digit_val :: "char \<Rightarrow> nat" where
  "digit_val c = of_char c - 48"

definition dec_value :: "string \<Rightarrow> nat" where
  "dec_value s = foldl (\<lambda>acc c. 10 * acc + digit_val c) 0 s"

definition atou :: "string \<Rightarrow> nat option" where
  "atou s = (if s \<noteq> [] \<and> list_all is_digit s then Some (dec_value s) else None)"

text \<open>\<^verbatim>\<open>strconv.ParseUint(s, 10, bits)\<close> and \<^verbatim>\<open>strconv.ParseInt(s, 10, bits)\<close>.\<close>

definition ParseUint :: "nat \<Rightarrow> string \<Rightarrow> nat result" where
  "ParseUint bits s = (case atou s of
       None \<Rightarrow> Err (Opaque ''invalid syntax'')
     | Some n \<Rightarrow> if n < 2 ^ bits then Ok n else Err (Opaque ''value out of range''))"

fun ParseInt :: "nat \<Rightarrow> string \<Rightarrow> int result" where
  "ParseInt bits s =
     (let (neg, ds) = (case s of
            c # cs \<Rightarrow> if c = CHR ''-'' then (True, cs) else if c = CHR ''+'' then (False, cs)
                      else (False, s)
          | [] \<Rightarrow> (False, s))
      in case atou ds of
           None \<Rightarrow> Err (Opaque ''invalid syntax'')
         | Some n \<Rightarrow>
             if neg then (if n \<le> 2 ^ (bits - 1) then Ok (- int n)
                          else Err (Opaque ''value out of range''))
             else (if n < 2 ^ (bits - 1) then Ok (int n)
                   else Err (Opaque ''value out of range'')))"


section \<open>Package strings\<close>

fun CutPrefix :: "string \<Rightarrow> string \<Rightarrow> string \<times> bool" where
  "CutPrefix s prefix =
     (if take (length prefix) s = prefix then (drop (length prefix) s, True) else (s, False))"

fun TrimPrefix :: "string \<Rightarrow> string \<Rightarrow> string" where
  "TrimPrefix s prefix = fst (CutPrefix s prefix)"

text \<open>\<^verbatim>\<open>strings.Cut(s, sep)\<close> for a one-character separator: the text before the first
  separator, the text after it, and whether there is one.\<close>

fun Cut :: "string \<Rightarrow> char \<Rightarrow> string \<times> string \<times> bool" where
  "Cut [] sep = ([], [], False)"
| "Cut (c # cs) sep =
     (if c = sep then ([], cs, True)
      else case Cut cs sep of
          (before, after, True) \<Rightarrow> (c # before, after, True)
        | (before, after, False) \<Rightarrow> (c # cs, [], False))"


section \<open>Round trip\<close>

lemma is_digit_digit_char: "d < 10 \<Longrightarrow> is_digit (digit_char d)"
  by (simp add: is_digit_def digit_char_def)

lemma digit_val_digit_char: "d < 10 \<Longrightarrow> digit_val (digit_char d) = d"
  by (simp add: digit_val_def digit_char_def)

lemma dec_value_snoc: "dec_value (s @ [c]) = 10 * dec_value s + digit_val c"
  by (simp add: dec_value_def)

lemma utoa_digits: "utoa n \<noteq> [] \<and> list_all is_digit (utoa n)"
proof (induction n rule: utoa.induct)
  case (1 n)
  then show ?case
    by (cases "n < 10") (simp_all add: utoa.simps [of n] is_digit_digit_char)
qed

lemma dec_value_utoa: "dec_value (utoa n) = n"
proof (induction n rule: utoa.induct)
  case (1 n)
  show ?case
  proof (cases "n < 10")
    case True
    then show ?thesis by (simp add: utoa.simps [of n] dec_value_def digit_val_digit_char)
  next
    case False
    with "1.IH" show ?thesis
      by (simp add: utoa.simps [of n] dec_value_snoc digit_val_digit_char)
  qed
qed

lemma atou_utoa [simp]: "atou (utoa n) = Some n"
  using utoa_digits [of n] by (simp add: atou_def dec_value_utoa)

lemma utoa_inject [simp]: "utoa m = utoa n \<longleftrightarrow> m = n"
  by (metis dec_value_utoa)

lemma Cut_append:
  "sep \<notin> set pre \<Longrightarrow> Cut (pre @ sep # post) sep = (pre, post, True)"
  by (induction pre) auto

lemma Cut_none: "sep \<notin> set s \<Longrightarrow> Cut s sep = (s, [], False)"
  by (induction s) auto

end
