(* ===== verification/Chain_Monitor.thy ===== *)
theory Chain_Monitor
  imports Chain_Store Events Go_Text
begin

text \<open>
  \<^verbatim>\<open>internal/chainmonitor/monitor.go\<close>: the monitor that follows a chain and keeps the store in
  step with it. The monitor's collaborators are arguments: the chain backend (a snapshot
  of the node's answers during one poll), the store and the bus (dictionaries of calls on
  a store object and a bus object, threaded as a pair), and the request context.

  Within one \<^verbatim>\<open>Sync\<close> every block number is asked for at most once, so a backend that changes
  while \<^verbatim>\<open>Sync\<close> runs is also a function from block numbers to answers.

  \<open>Sync\<close> is \<open>syncStart\<close> (tip check), \<open>syncLoop\<close> (the block loop, one \<open>syncStep\<close> per
  block) and \<open>syncFinish\<close> (confirmation). The loop variable is a 64-bit word, as in the
  code; the loop does not end when the head is the largest word, and \<open>None\<close> stands for a
  call that never returns.
\<close>

record ChainBackend =
  HeaderByNumber :: "int option \<Rightarrow> Header result"
  FilterLogs :: "FilterQuery \<Rightarrow> Log list result"

record Config =
  Confirmations :: u64
  PollInterval :: int
  StartBlock :: u64
  Tokens :: "address list"

record ('abi, 's, 'b) Monitor =
  backend :: ChainBackend
  store :: "'s Store"
  bus :: "'b Bus"
  decoder :: "'abi transferDecoder"
  cfg :: Config

definition defaultPollInterval :: int where
  "defaultPollInterval = 12 * 1000000000"

definition New ::
  "'abi Eth \<Rightarrow> ChainBackend \<Rightarrow> 's Store \<Rightarrow> 'b Bus \<Rightarrow> Config \<Rightarrow> ('abi, 's, 'b) Monitor result" where
  "New eth be st bs c =
     bind_result (newTransferDecoder eth) (\<lambda>dec.
       let c' = (if PollInterval c \<le> 0 then c\<lparr>PollInterval := defaultPollInterval\<rparr> else c)
       in Ok \<lparr>backend = be, store = st, bus = bs, decoder = dec, cfg = c'\<rparr>)"

definition fetchTransfers ::
  "'abi Eth \<Rightarrow> ('abi, 's, 'b) Monitor \<Rightarrow> u64 \<Rightarrow> Transfer list result" where
  "fetchTransfers eth m n =
     bind_result
       (FilterLogs (backend m)
          \<lparr>FromBlock = uint n, ToBlock = uint n, Addresses = Tokens (cfg m),
           Topics = [[TopicID (decoder m)]]\<rparr>)
       (\<lambda>logs. Ok (List.map_filter (decode eth (decoder m)) logs))"

definition rollback :: "('abi, 's, 'b) Monitor \<Rightarrow> u64 \<Rightarrow> ('s \<times> 'b, unit) eff" where
  "rollback m from =
     bnd (on_fst (DeleteFrom (store m) from)) (\<lambda>_.
       ignore_err (on_snd (Publish (bus m) SubjectChainReorg
         (AMap [(''from_block'', AInt (uint from))]))))"

definition publishBlock ::
  "'abi Eth \<Rightarrow> ('abi, 's, 'b) Monitor \<Rightarrow> Block \<Rightarrow> nat \<Rightarrow> bool \<Rightarrow> ('s \<times> 'b, unit) eff" where
  "publishBlock eth m b txfers confirmed =
     ignore_err (on_snd (Publish (bus m) SubjectChainBlock
       (AMap [(''number'', AInt (uint (Number b))), (''hash'', AString (Hash_Hex eth (Hash b))),
              (''transfers'', AInt (int txfers)), (''confirmed'', ABool confirmed)])))"

definition publishTransfer ::
  "'abi Eth \<Rightarrow> ('abi, 's, 'b) Monitor \<Rightarrow> Transfer \<Rightarrow> u64 \<Rightarrow> bool \<Rightarrow> ('s \<times> 'b, unit) eff" where
  "publishTransfer eth m t block confirmed =
     ignore_err (on_snd (Publish (bus m) SubjectChainTransfer
       (AMap [(''block'', AInt (uint block)), (''token'', AString (Address_Hex eth (Token t))),
              (''from'', AString (Address_Hex eth (From t))),
              (''to'', AString (Address_Hex eth (To t))),
              (''value'', AString (itoa (Value t))),
              (''tx_hash'', AString (Hash_Hex eth (TxHash t))),
              (''confirmed'', ABool confirmed)])))"

text \<open>
  The first half of \<^verbatim>\<open>Sync\<close>: head, last indexed block, tip check. \<open>None\<close>: the tip was rolled
  back and \<^verbatim>\<open>Sync\<close> returns; otherwise the head number and the first block to index.
\<close>

definition syncStart ::
  "('abi, 's, 'b) Monitor \<Rightarrow> ('s \<times> 'b, (u64 \<times> u64) option) eff" where
  "syncStart m =
     bnd (lift (HeaderByNumber (backend m) None)) (\<lambda>head.
       let headNum = word_of_int (h_Number head) in
       bnd (on_fst (LastBlock (store m))) (\<lambda>last.
         case last of
           None \<Rightarrow> ret (Some (headNum, StartBlock (cfg m)))
         | Some b \<Rightarrow>
             bnd (lift (HeaderByNumber (backend m) (Some (uint (Number b))))) (\<lambda>canon.
               if h_Hash canon \<noteq> Hash b
               then bnd (rollback m (Number b)) (\<lambda>_. ret None)
               else ret (Some (headNum, Number b + 1)))))"

text \<open>What the loop body asks for next: the following iteration, or \<^verbatim>\<open>return nil\<close>.\<close>

datatype flow = Continue | Return

definition headerBlock :: "u64 \<Rightarrow> Header \<Rightarrow> Block" where
  "headerBlock n header =
     \<lparr>Number = n, Hash = h_Hash header, ParentHash = h_ParentHash header, Time = h_Time header\<rparr>"

text \<open>\<open>ctx n\<close> is \<^verbatim>\<open>ctx.Err()\<close> if \<^verbatim>\<open>ctx.Done()\<close> is closed when the iteration for \<open>n\<close> starts.\<close>

definition syncStep ::
  "'abi Eth \<Rightarrow> ('abi, 's, 'b) Monitor \<Rightarrow> (u64 \<Rightarrow> error option) \<Rightarrow> u64 \<Rightarrow> u64 \<Rightarrow> ('s \<times> 'b, flow) eff" where
  "syncStep eth m ctx headNum n =
     (case ctx n of
        Some e \<Rightarrow> raise e
      | None \<Rightarrow>
          bnd (lift (HeaderByNumber (backend m) (Some (uint n)))) (\<lambda>header.
          bnd (if n > 0 then on_fst (BlockByNumber (store m) (n - 1)) else ret None) (\<lambda>prev.
          if (case prev of Some p \<Rightarrow> Hash p \<noteq> h_ParentHash header | None \<Rightarrow> False)
          then bnd (rollback m (n - 1)) (\<lambda>_. ret Return)
          else
            bnd (lift (fetchTransfers eth m n)) (\<lambda>transfers.
            let block = headerBlock n header;
                confirmed = (headNum - n \<ge> Confirmations (cfg m)) in
            bnd (on_fst (SaveBlock (store m) block transfers confirmed)) (\<lambda>_.
            bnd (publishBlock eth m block (length transfers) confirmed) (\<lambda>_.
            bnd (for_each transfers (\<lambda>t. publishTransfer eth m t n confirmed)) (\<lambda>_.
            ret Continue)))))))"

partial_function (option) syncLoop ::
  "'abi Eth \<Rightarrow> ('abi, 's, 'b) Monitor \<Rightarrow> (u64 \<Rightarrow> error option) \<Rightarrow> u64 \<Rightarrow> u64 \<Rightarrow> 's \<times> 'b \<Rightarrow>
   (flow result \<times> ('s \<times> 'b)) option" where
  "syncLoop eth m ctx headNum n w =
     (if n \<le> headNum then
        (case syncStep eth m ctx headNum n w of
           (Ok Continue, w') \<Rightarrow> syncLoop eth m ctx headNum (n + 1) w'
         | (Ok Return, w') \<Rightarrow> Some (Ok Return, w')
         | (Err e, w') \<Rightarrow> Some (Err e, w')
         | (Panic p, w') \<Rightarrow> Some (Panic p, w'))
      else Some (Ok Continue, w))"

text \<open>The end of \<^verbatim>\<open>Sync\<close>: promote the blocks that are now deep enough.\<close>

definition syncFinish :: "('abi, 's, 'b) Monitor \<Rightarrow> u64 \<Rightarrow> ('s \<times> 'b, unit) eff" where
  "syncFinish m headNum =
     (if headNum \<ge> Confirmations (cfg m)
      then on_fst (ConfirmThrough (store m) (headNum - Confirmations (cfg m)))
      else ret ())"

definition Sync ::
  "'abi Eth \<Rightarrow> ('abi, 's, 'b) Monitor \<Rightarrow> (u64 \<Rightarrow> error option) \<Rightarrow> 's \<times> 'b \<Rightarrow>
   (unit result \<times> ('s \<times> 'b)) option" where
  "Sync eth m ctx w =
     (case syncStart m w of
        (Err e, w') \<Rightarrow> Some (Err e, w')
      | (Panic p, w') \<Rightarrow> Some (Panic p, w')
      | (Ok None, w') \<Rightarrow> Some (Ok (), w')
      | (Ok (Some (headNum, from)), w') \<Rightarrow>
          (case syncLoop eth m ctx headNum from w' of
             None \<Rightarrow> None
           | Some (Err e, w'') \<Rightarrow> Some (Err e, w'')
           | Some (Panic p, w'') \<Rightarrow> Some (Panic p, w'')
           | Some (Ok Return, w'') \<Rightarrow> Some (Ok (), w'')
           | Some (Ok Continue, w'') \<Rightarrow> Some (syncFinish m headNum w'')))"

text \<open>
  One turn of the polling loop in \<^verbatim>\<open>Run\<close>: the node's answers and the context during that turn,
  and whether the context is done when the turn's \<^verbatim>\<open>select\<close> is reached.
\<close>

record poll =
  p_backend :: ChainBackend
  p_ctx :: "u64 \<Rightarrow> error option"
  p_done :: bool

text \<open>\<^verbatim>\<open>Run\<close> over a finite run of polls: a failed \<^verbatim>\<open>Sync\<close> is logged and retried on the next tick.
  A panic in \<^verbatim>\<open>Sync\<close> ends the goroutine.\<close>

fun Run ::
  "'abi Eth \<Rightarrow> ('abi, 's, 'b) Monitor \<Rightarrow> poll list \<Rightarrow> 's \<times> 'b \<Rightarrow> (unit result \<times> ('s \<times> 'b)) option" where
  "Run eth m [] w = Some (Ok (), w)"
| "Run eth m (p # ps) w =
     (case Sync eth (m\<lparr>backend := p_backend p\<rparr>) (p_ctx p) w of
        None \<Rightarrow> None
      | Some (Panic q, w') \<Rightarrow> Some (Panic q, w')
      | Some (_, w') \<Rightarrow> if p_done p then Some (Ok (), w') else Run eth m ps w')"

lemma set_map_filter: "y \<in> set (List.map_filter f xs) \<longleftrightarrow> (\<exists>x \<in> set xs. f x = Some y)"
  by (induction xs) (auto simp: List.map_filter_def)

text \<open>Every transfer the monitor stores was decoded from a log the node returned for that block.\<close>

lemma fetchTransfers_provenance:
  assumes "fetchTransfers eth m n = Ok ts" and "t \<in> set ts"
  obtains logs lg where "FilterLogs (backend m)
      \<lparr>FromBlock = uint n, ToBlock = uint n, Addresses = Tokens (cfg m), Topics = [[TopicID (decoder m)]]\<rparr> = Ok logs"
    and "lg \<in> set logs" and "decode eth (decoder m) lg = Some t"
  using assms by (cases "FilterLogs (backend m) \<lparr>FromBlock = uint n, ToBlock = uint n,
      Addresses = Tokens (cfg m), Topics = [[TopicID (decoder m)]]\<rparr>")
    (auto simp: fetchTransfers_def set_map_filter)

end
