(* ===== verification/Chain_Invariant.thy ===== *)
theory Chain_Invariant
  imports Chain_Monitor
begin

text \<open>
  The invariant of the chain index and its preservation by every path through \<^verbatim>\<open>Sync\<close>,
  proved once against the store contract \<open>chain_store\<close>.

  \<^item> \<open>index_ok\<close>: the indexed blocks form one gap-free run of heights in which every block's
    parent hash is the hash of the block below it.
  \<^item> \<open>conf_sound\<close>: a transfer is marked confirmed only if its block is at least the
    configured number of confirmations below a head that was observed.
\<close>

definition linked :: "(u64 \<rightharpoonup> Block) \<Rightarrow> bool" where
  "linked B \<longleftrightarrow> (\<forall>n b b'. n \<noteq> - 1 \<longrightarrow> B n = Some b \<longrightarrow> B (n + 1) = Some b' \<longrightarrow>
     ParentHash b' = Hash b)"

definition gap_free :: "(u64 \<rightharpoonup> Block) \<Rightarrow> bool" where
  "gap_free B \<longleftrightarrow> (\<forall>i j k. i \<in> dom B \<longrightarrow> k \<in> dom B \<longrightarrow> i \<le> j \<longrightarrow> j \<le> k \<longrightarrow> j \<in> dom B)"

definition index_ok :: "(u64 \<rightharpoonup> Block) \<Rightarrow> bool" where
  "index_ok B \<longleftrightarrow> linked B \<and> gap_free B \<and> - 1 \<notin> dom B"

definition conf_sound :: "u64 \<Rightarrow> nat \<Rightarrow> storedTransfer list \<Rightarrow> bool" where
  "conf_sound c H R \<longleftrightarrow> (\<forall>r \<in> set R. st_confirmed r \<longrightarrow> unat (st_block r) + unat c \<le> H)"

text \<open>The loop is about to index block \<open>n\<close>: everything indexed lies below \<open>n\<close> and reaches up
  to it.\<close>

definition frontier :: "(u64 \<rightharpoonup> Block) \<Rightarrow> u64 \<Rightarrow> bool" where
  "frontier B n \<longleftrightarrow> (\<forall>k \<in> dom B. k < n) \<and> (B \<noteq> Map.empty \<longrightarrow> 0 < n \<and> n - 1 \<in> dom B)"

lemma index_ok_empty [simp]: "index_ok Map.empty"
  by (simp add: index_ok_def linked_def gap_free_def)

lemma frontier_empty [simp]: "frontier Map.empty n"
  by (simp add: frontier_def)

lemma frontier_after_last:
  assumes "is_last B (Some b)" and "index_ok B"
  shows "frontier B (Number b + 1)"
proof -
  have "Number b \<noteq> - 1" using assms by (auto simp: is_last_def index_ok_def)
  then show ?thesis
    using assms(1) by (auto simp: frontier_def is_last_def word_less_inc word_inc_pos)
qed

lemma linked_save:
  assumes "linked B" "n \<noteq> - 1" and below: "\<And>k. k \<in> dom B \<Longrightarrow> k < n"
    and parent: "\<And>p. 0 < n \<Longrightarrow> B (n - 1) = Some p \<Longrightarrow> Hash p = ParentHash b"
  shows "linked (B(n \<mapsto> b))"
  unfolding linked_def
proof (intro allI impI)
  fix k x y assume k: "k \<noteq> - 1" and x: "(B(n \<mapsto> b)) k = Some x" and y: "(B(n \<mapsto> b)) (k + 1) = Some y"
  consider "k = n" | "k \<noteq> n" "k + 1 = n" | "k \<noteq> n" "k + 1 \<noteq> n" by blast
  then show "ParentHash y = Hash x"
  proof cases
    case 1
    then have "n + 1 < n" using y by (intro below) auto
    then show ?thesis using assms(2) by (simp add: word_less_nat_alt unat_inc)
  next
    case 2
    then have "0 < n" and "n - 1 = k" using word_inc_pos [OF k] by auto
    then show ?thesis using parent [of x] x y 2 by simp
  next
    case 3
    then have "B k = Some x" "B (k + 1) = Some y" using x y by simp_all
    then show ?thesis using k assms(1) unfolding linked_def by blast
  qed
qed

lemma gap_free_save:
  assumes "gap_free B" "frontier B n"
  shows "gap_free (B(n \<mapsto> b))"
  unfolding gap_free_def
proof (intro allI impI)
  fix i j k assume i: "i \<in> dom (B(n \<mapsto> b))" and k: "k \<in> dom (B(n \<mapsto> b))" and ij: "i \<le> j" and jk: "j \<le> k"
  show "j \<in> dom (B(n \<mapsto> b))"
  proof (cases "j = n")
    case False
    have "k \<le> n" using k assms(2) by (auto simp: frontier_def intro: less_imp_le)
    then have "j < n" using jk False by simp
    then have iB: "i \<in> dom B" using i ij by auto
    then have n: "0 < n" "n - 1 \<in> dom B" using assms(2) by (auto simp: frontier_def)
    have "j \<le> n - 1" using \<open>j < n\<close> n(1) by (simp add: word_le_dec)
    then have "j \<in> dom B" using iB n(2) ij assms(1) unfolding gap_free_def by blast
    then show ?thesis by auto
  qed simp
qed

lemma index_ok_save:
  assumes "index_ok B" "frontier B n" "n \<noteq> - 1"
    and parent: "\<And>p. 0 < n \<Longrightarrow> B (n - 1) = Some p \<Longrightarrow> Hash p = ParentHash b"
  shows "index_ok (B(n \<mapsto> b))" and "frontier (B(n \<mapsto> b)) (n + 1)"
proof -
  have below: "k < n" if "k \<in> dom B" for k using assms(2) that by (simp add: frontier_def)
  show "index_ok (B(n \<mapsto> b))"
    using assms(1,3) linked_save [OF _ assms(3) below parent] gap_free_save [OF _ assms(2)] by (auto simp: index_ok_def)
  show "frontier (B(n \<mapsto> b)) (n + 1)"
    using assms(3) below by (auto simp: frontier_def word_less_inc word_inc_pos intro: less_imp_le)
qed

lemma blocks_below_Some [simp]: "blocks_below n B k = Some b \<longleftrightarrow> k < n \<and> B k = Some b"
  by (simp add: blocks_below_def)

lemma dom_blocks_below [simp]: "dom (blocks_below n B) = {k \<in> dom B. k < n}"
  by (auto simp: dom_def)

lemma index_ok_below:
  assumes "index_ok B"
  shows "index_ok (blocks_below n B)"
proof -
  have "gap_free (blocks_below n B)"
    unfolding gap_free_def
  proof (intro allI impI)
    fix i j k assume *: "i \<in> dom (blocks_below n B)" "k \<in> dom (blocks_below n B)" "i \<le> j" "j \<le> k"
    then have "j \<in> dom B"
      using assms unfolding index_ok_def gap_free_def dom_blocks_below by blast
    moreover have "j < n" using * by (simp add: le_less_trans)
    ultimately show "j \<in> dom (blocks_below n B)" by simp
  qed
  moreover have "linked (blocks_below n B)"
    using assms unfolding index_ok_def linked_def blocks_below_Some by blast
  ultimately show ?thesis
    using assms by (simp add: index_ok_def)
qed

lemma conf_sound_below: "conf_sound c H R \<Longrightarrow> conf_sound c H (rows_below n R)"
  by (simp add: conf_sound_def rows_below_def)

lemma conf_sound_mono: "conf_sound c H R \<Longrightarrow> H \<le> H' \<Longrightarrow> conf_sound c H' R"
  by (fastforce simp: conf_sound_def)

lemma conf_sound_save:
  assumes "conf_sound c H R" "rows_extended R n ts (h - n \<ge> c) R'" "n \<le> h" "unat h \<le> H"
  shows "conf_sound c H R'"
proof -
  have deep: "unat n + unat c \<le> H" if "c \<le> h - n"
  proof -
    have "unat c \<le> unat h - unat n"
      using that assms(3) by (simp add: word_le_nat_alt unat_sub)
    moreover have "unat n \<le> unat h" using assms(3) by (simp add: word_le_nat_alt)
    ultimately show ?thesis using assms(4) by linarith
  qed
  obtain new where R': "R' = R @ new" and new: "set new \<subseteq> set (saved_rows n ts (h - n \<ge> c))"
    using assms(2) unfolding rows_extended_def by blast
  have "unat (st_block r) + unat c \<le> H" if "r \<in> set new" "st_confirmed r" for r
  proof -
    have "r \<in> set (saved_rows n ts (h - n \<ge> c))" using that(1) new by blast
    then have "st_block r = n" "c \<le> h - n" using that(2) by (auto simp: saved_rows_def)
    then show ?thesis using deep by simp
  qed
  then show ?thesis
    using assms(1) R' by (auto simp: conf_sound_def)
qed

lemma conf_sound_confirm:
  assumes "conf_sound c H R" "c \<le> h" "unat h \<le> H"
  shows "conf_sound c H (confirm_rows (h - c) R)"
proof -
  have "unat (st_block r) + unat c \<le> H" if "st_block r \<le> h - c" for r
  proof -
    have "unat (st_block r) \<le> unat h - unat c"
      using that assms(2) by (simp add: word_le_nat_alt unat_sub)
    moreover have "unat c \<le> unat h" using assms(2) by (simp add: word_le_nat_alt)
    ultimately show ?thesis using assms(3) by linarith
  qed
  then show ?thesis
    using assms(1) by (auto simp: conf_sound_def confirm_rows_def)
qed


text \<open>No transfer at depth \<open>c\<close> or more below \<open>h\<close> is left unconfirmed.\<close>

definition conf_complete :: "u64 \<Rightarrow> u64 \<Rightarrow> storedTransfer list \<Rightarrow> bool" where
  "conf_complete c h R \<longleftrightarrow> (\<forall>r \<in> set R. unat (st_block r) + unat c \<le> unat h \<longrightarrow> st_confirmed r)"

lemma conf_complete_confirm: "c \<le> h \<Longrightarrow> conf_complete c h (confirm_rows (h - c) R)"
  by (auto simp: conf_complete_def confirm_rows_def word_le_nat_alt unat_sub)

lemma conf_complete_shallow: "\<not> c \<le> h \<Longrightarrow> conf_complete c h R"
  by (auto simp: conf_complete_def word_le_nat_alt)

text \<open>Every head a node reports is at most \<open>H\<close> and not the largest word.\<close>

definition heads_below :: "nat \<Rightarrow> ChainBackend \<Rightarrow> bool" where
  "heads_below H be \<longleftrightarrow> (\<forall>hdr. HeaderByNumber be None = Ok hdr \<longrightarrow>
     word_of_int (h_Number hdr) \<noteq> (- 1 :: u64) \<and> unat (word_of_int (h_Number hdr) :: u64) \<le> H)"


section \<open>The loop rule\<close>

text \<open>
  A loop whose head is not the largest word returns. Given an invariant \<open>I n\<close> that one step
  carries from \<open>n\<close> to \<open>n + 1\<close>, the loop ends above the head with the invariant, or ends
  early in a state the step guarantees.
\<close>

lemma syncLoop_above: "\<not> n \<le> headNum \<Longrightarrow> syncLoop eth m ctx headNum n w = Some (Ok Continue, w)"
  by (subst syncLoop.simps) simp

lemma syncLoop_step:
  assumes "n \<le> headNum" and "syncStep eth m ctx headNum n w = (r, w1)"
  shows "syncLoop eth m ctx headNum n w = (if r = Ok Continue then syncLoop eth m ctx headNum (n + 1) w1 else Some (r, w1))"
  unfolding syncLoop.simps [of eth m ctx headNum n w] using assms by (cases r) (simp_all split: flow.split)

lemma syncLoop_rule:
  assumes head: "headNum \<noteq> - 1"
    and step: "\<And>n. n \<le> headNum \<Longrightarrow>
      triple (I n) (syncStep eth m ctx headNum n)
        (\<lambda>f w. case f of Continue \<Rightarrow> I (n + 1) w | Return \<Rightarrow> Q w) R"
    and start: "I n w"
  shows "\<exists>r w'. syncLoop eth m ctx headNum n w = Some (r, w') \<and>
    (case r of Ok Continue \<Rightarrow> (\<exists>k. headNum < k \<and> (n \<le> headNum \<longrightarrow> k = headNum + 1) \<and> I k w')
     | Ok Return \<Rightarrow> Q w' | _ \<Rightarrow> R w')"
  using start
proof (induction "unat headNum + 1 - unat n" arbitrary: n w rule: less_induct)
  case less
  show ?case
  proof (cases "n \<le> headNum")
    case False
    then show ?thesis using less.prems by (auto simp: syncLoop_above not_le)
  next
    case True
    obtain r w1 where st: "syncStep eth m ctx headNum n w = (r, w1)" by (cases "syncStep eth m ctx headNum n w")
    note loop = syncLoop_step [OF True st] and ok = triple_okD [OF step [OF True] less.prems]
      and err = triple_errD [OF step [OF True] less.prems] and panic = triple_panicD [OF step [OF True] less.prems]
    show ?thesis
    proof (cases "r = Ok Continue")
      case False
      then show ?thesis
        using loop ok [of _ w1] err [of _ w1] panic [of _ w1] st by (cases r) (auto split: flow.splits)
    next
      case cont: True
      have n: "n \<noteq> - 1" using True head by (rule word_le_not_max)
      have I: "I (n + 1) w1" using ok [of Continue w1] st cont by simp
      show ?thesis
      proof (cases "n + 1 \<le> headNum")
        case below: True
        have "unat headNum + 1 - unat (n + 1) < unat headNum + 1 - unat n"
          using True n by (simp add: unat_inc word_le_nat_alt)
        from less.hyps [OF this I] obtain r' w' where "syncLoop eth m ctx headNum (n + 1) w1 = Some (r', w')"
          "case r' of Ok Continue \<Rightarrow> (\<exists>k. headNum < k \<and> (n + 1 \<le> headNum \<longrightarrow> k = headNum + 1) \<and> I k w')
           | Ok Return \<Rightarrow> Q w' | _ \<Rightarrow> R w'" by blast
        then show ?thesis using loop cont below by (intro exI [of _ r'] exI [of _ w']) (auto split: result.splits flow.splits)
      next
        case False
        then have "headNum = n" using True n by (simp add: not_le word_less_inc)
        then show ?thesis
          using loop cont I syncLoop_above [OF False, of eth m ctx w1] n
          by (intro exI [of _ "Ok Continue"] exI [of _ w1]) (auto simp: word_less_inc)
      qed
    qed
  qed
qed


text \<open>The rule for \<^verbatim>\<open>Sync\<close>: a triple for its start, a fact about its loop, a triple for its end.\<close>

lemma Sync_rule:
  assumes start: "triple P (syncStart m) (\<lambda>x w. case x of None \<Rightarrow> Q w | Some (h, f) \<Rightarrow> J h f w) R"
    and loop: "\<And>h f w. J h f w \<Longrightarrow> \<exists>r w'. syncLoop eth m ctx h f w = Some (r, w') \<and>
        (case r of Ok Continue \<Rightarrow> K h w' | Ok Return \<Rightarrow> Q w' | _ \<Rightarrow> R w')"
    and finish: "\<And>h. triple (K h) (syncFinish m h) (\<lambda>_. Q) R"
    and pre: "P w"
  shows "\<exists>r w'. Sync eth m ctx w = Some (r, w') \<and> (case r of Ok u \<Rightarrow> Q w' | _ \<Rightarrow> R w')"
proof -
  obtain x w1 where x: "syncStart m w = (x, w1)" by (cases "syncStart m w") blast
  show ?thesis
  proof (cases x)
    case (Err e)
    then have "Sync eth m ctx w = Some (Err e, w1)" using x by (simp add: Sync_def)
    moreover have "R w1" using triple_errD [OF start pre] x Err by blast
    ultimately show ?thesis by (intro exI [of _ "Err e"] exI [of _ w1]) simp
  next
    case (Panic e)
    then have "Sync eth m ctx w = Some (Panic e, w1)" using x by (simp add: Sync_def)
    moreover have "R w1" using triple_panicD [OF start pre] x Panic by blast
    ultimately show ?thesis by (intro exI [of _ "Panic e"] exI [of _ w1]) simp
  next
    case (Ok y)
    note post = triple_okD [OF start pre x [unfolded Ok]]
    show ?thesis
    proof (cases y)
      case None
      then have "Sync eth m ctx w = Some (Ok (), w1)" using x Ok by (simp add: Sync_def)
      then show ?thesis using post None by (intro exI [of _ "Ok ()"] exI [of _ w1]) simp
    next
      case (Some p)
      obtain h f where p: "p = (h, f)" by (cases p)
      obtain r w2 where loop': "syncLoop eth m ctx h f w1 = Some (r, w2)"
        and after: "case r of Ok Continue \<Rightarrow> K h w2 | Ok Return \<Rightarrow> Q w2 | _ \<Rightarrow> R w2"
        using loop [of h f w1] post Some p by auto
      note eq = Sync_def [of eth m ctx w, unfolded x Ok Some p, simplified, unfolded loop', simplified]
      show ?thesis
      proof (cases "r = Ok Continue")
        case True
        obtain r3 w3 where fin: "syncFinish m h w2 = (r3, w3)" by (cases "syncFinish m h w2") blast
        have "case r3 of Ok u \<Rightarrow> Q w3 | _ \<Rightarrow> R w3"
          using fin after True triple_okD [OF finish] triple_errD [OF finish] triple_panicD [OF finish]
          by (cases r3) auto
        then show ?thesis using eq True fin by (intro exI [of _ r3] exI [of _ w3]) simp
      next
        case False
        then show ?thesis
          using eq after
          by (intro exI [of _ "case r of Ok _ \<Rightarrow> Ok () | Err e \<Rightarrow> Err e | Panic e \<Rightarrow> Panic e"] exI [of _ w2])
             (auto split: result.splits flow.splits)
      qed
    qed
  qed
qed


section \<open>Preservation by Sync, for any store that meets the contract\<close>

context chain_store
begin

text \<open>A predicate on the two observations of the store half of the monitor's state.\<close>

definition W :: "((u64 \<rightharpoonup> Block) \<Rightarrow> storedTransfer list \<Rightarrow> bool) \<Rightarrow> 's \<times> 'b \<Rightarrow> bool" where
  "W p w \<longleftrightarrow> invar (fst w) \<and> p (blocks (fst w)) (rows (fst w))"

lemma W_conseq: "W p w \<Longrightarrow> (\<And>B R. p B R \<Longrightarrow> q B R) \<Longrightarrow> W q w"
  by (simp add: W_def)

lemma W_True: "W p w \<Longrightarrow> W (\<lambda>_ _. True) w"
  by (simp add: W_def)

lemma W_view:
  assumes "\<And>B R. p B R \<Longrightarrow> triple (at_view invar blocks rows B R) m (\<lambda>x s. W (q x) (s, ())) (\<lambda>s. W r (s, ()))"
  shows "triple (W p) (on_fst m) (\<lambda>x. W (q x)) (W r)"
proof -
  have "triple (\<lambda>s. \<exists>v. p (fst v) (snd v) \<and> at_view invar blocks rows (fst v) (snd v) s) m
          (\<lambda>x s. W (q x) (s, ())) (\<lambda>s. W r (s, ()))"
  proof (rule triple_ex)
    fix v
    show "triple (\<lambda>s. p (fst v) (snd v) \<and> at_view invar blocks rows (fst v) (snd v) s) m
            (\<lambda>x s. W (q x) (s, ())) (\<lambda>s. W r (s, ()))"
      using assms [of "fst v" "snd v"] by (cases "p (fst v) (snd v)") (simp_all add: triple_def)
  qed
  from triple_on_fst [OF this] show ?thesis
    by (rule triple_conseq) (auto simp: W_def at_view_def)
qed

lemma save_rule:
  assumes "\<And>B R R'. p B R \<Longrightarrow> rows_extended R (Number b) ts c R' \<Longrightarrow> q (B(Number b \<mapsto> b)) R'"
    and "\<And>B R. p B R \<Longrightarrow> r B R" and "\<And>B R. q B R \<Longrightarrow> r B R"
  shows "triple (W p) (on_fst (SaveBlock ops b ts c)) (\<lambda>_. W q) (W r)"
proof (rule W_view)
  fix B R assume "p B R"
  with assms show "triple (at_view invar blocks rows B R) (SaveBlock ops b ts c)
      (\<lambda>_ s. W q (s, ())) (\<lambda>s. W r (s, ()))"
    by (intro triple_conseq [OF save_law]) (auto simp: W_def)
qed

lemma last_rule:
  "triple (W p) (on_fst (LastBlock ops)) (\<lambda>x. W (\<lambda>B R. p B R \<and> is_last B x)) (W p)"
  by (rule W_view, rule triple_conseq [OF last_law]) (auto simp: W_def at_view_def)

lemma get_rule:
  "triple (W p) (on_fst (BlockByNumber ops n)) (\<lambda>x. W (\<lambda>B R. p B R \<and> x = B n)) (W p)"
  by (rule W_view, rule triple_conseq [OF get_law]) (auto simp: W_def at_view_def)

lemma delete_rule:
  assumes "\<And>B R. p B R \<Longrightarrow> q (blocks_below n B) (rows_below n R)"
    and "\<And>B R. p B R \<Longrightarrow> r B R" and "\<And>B R. q B R \<Longrightarrow> r B R"
  shows "triple (W p) (on_fst (DeleteFrom ops n)) (\<lambda>_. W q) (W r)"
  by (rule W_view, rule triple_conseq [OF delete_law]) (auto simp: W_def at_view_def assms)

lemma confirm_rule:
  assumes "\<And>B R. p B R \<Longrightarrow> q B (confirm_rows n R)"
    and "\<And>B R. p B R \<Longrightarrow> r B R" and "\<And>B R. q B R \<Longrightarrow> r B R"
  shows "triple (W p) (on_fst (ConfirmThrough ops n)) (\<lambda>_. W q) (W r)"
  by (rule W_view, rule triple_conseq [OF confirm_law]) (auto simp: W_def at_view_def assms)

lemma bus_rule: "triple (W p) (ignore_err (on_snd m)) (\<lambda>_. W p) (W p)"
proof -
  have "triple (W p) (on_snd m) (\<lambda>_. W p) (W p)"
    by (rule triple_conseq [OF triple_on_snd [of "\<lambda>s. W p (s, ())" m]]) (simp_all add: W_def)
  then show ?thesis by (rule triple_ignore_err)
qed

lemma publish_rules:
  "triple (W p) (publishBlock eth m b k c) (\<lambda>_. W p) (W p)"
  "triple (W p) (publishTransfer eth m t n c) (\<lambda>_. W p) (W p)"
  by (simp_all add: publishBlock_def publishTransfer_def bus_rule)

lemma rollback_rule:
  assumes "store m = ops"
    and "\<And>B R. p B R \<Longrightarrow> q (blocks_below n B) (rows_below n R)"
    and "\<And>B R. p B R \<Longrightarrow> r B R" and "\<And>B R. q B R \<Longrightarrow> r B R"
  shows "triple (W p) (rollback m n) (\<lambda>_. W q) (W r)"
proof -
  have "triple (W q) (ignore_err (on_snd e)) (\<lambda>_. W q) (W r)" for e :: "('c, unit) eff"
    by (rule triple_conseq [OF bus_rule [of q]]) (auto elim: W_conseq simp: assms(4))
  then show ?thesis
    unfolding rollback_def assms(1)
    by (intro triple_bnd [OF delete_rule [where p = p and q = q and r = r, OF assms(2-4)]])
qed

text \<open>The block below, if any.\<close>

lemma step_get_rule:
  assumes "store m = ops" and "\<And>B R. J B R \<Longrightarrow> E B R"
  shows "triple (W J) (if n > 0 then on_fst (BlockByNumber (store m) (n - 1)) else ret None)
    (\<lambda>prev. W (\<lambda>B R. J B R \<and> (0 < n \<longrightarrow> prev = B (n - 1)) \<and> (prev \<noteq> None \<longrightarrow> 0 < n))) (W E)"
proof (rule triple_if)
  assume "0 < n"
  then show "triple (W J) (on_fst (BlockByNumber (store m) (n - 1)))
      (\<lambda>prev. W (\<lambda>B R. J B R \<and> (0 < n \<longrightarrow> prev = B (n - 1)) \<and> (prev \<noteq> None \<longrightarrow> 0 < n))) (W E)"
    unfolding assms(1) by (intro triple_conseq [OF get_rule [of J]]) (auto elim!: W_conseq assms(2))
qed (auto intro!: triple_ret elim!: W_conseq)

text \<open>The events of a block.\<close>

lemma step_publish_rule:
  assumes NE: "\<And>B R. N B R \<Longrightarrow> E B R"
  shows "triple (W N) (bnd (publishBlock eth m b k c) (\<lambda>_.
    bnd (for_each ts (\<lambda>t. publishTransfer eth m t n c)) (\<lambda>_. ret Continue)))
    (\<lambda>f w. case f of Continue \<Rightarrow> W N w | Return \<Rightarrow> W U w) (W E)"
proof -
  have "triple (W N) (publishBlock eth m b k c) (\<lambda>_. W N) (W E)"
    by (rule triple_conseq [OF publish_rules(1) [of N]]) (auto elim: W_conseq intro: NE)
  moreover have "triple (W N) (for_each ts (\<lambda>t. publishTransfer eth m t n c)) (\<lambda>_. W N) (W E)"
    by (rule triple_for_each, rule triple_conseq [OF publish_rules(2) [of N]])
       (auto elim: W_conseq intro: NE)
  ultimately show ?thesis
    by (intro triple_bnd [where M = "\<lambda>_. W N"] triple_ret) simp_all
qed

text \<open>
  One iteration, for any properties of the store: \<open>J\<close> before, \<open>N\<close> after a saved block, \<open>U\<close>
  after a rollback, \<open>E\<close> when the iteration fails.
\<close>

lemma syncStep_gen:
  assumes st: "store m = ops"
    and undo: "\<And>B R. J B R \<Longrightarrow> 0 < n \<Longrightarrow> U (blocks_below (n - 1) B) (rows_below (n - 1) R)"
    and save: "\<And>B R R' h ts. J B R \<Longrightarrow>
        (\<And>p. 0 < n \<Longrightarrow> B (n - 1) = Some p \<Longrightarrow> Hash p = h_ParentHash h) \<Longrightarrow>
        rows_extended R n ts (headNum - n \<ge> Confirmations (cfg m)) R' \<Longrightarrow>
        N (B(n \<mapsto> headerBlock n h)) R'"
    and JE: "\<And>B R. J B R \<Longrightarrow> E B R" and UE: "\<And>B R. U B R \<Longrightarrow> E B R" and NE: "\<And>B R. N B R \<Longrightarrow> E B R"
  shows "triple (W J) (syncStep eth m ctx headNum n)
    (\<lambda>f w. case f of Continue \<Rightarrow> W N w | Return \<Rightarrow> W U w) (W E)"
  (is "triple _ _ ?Q _")
proof (cases "ctx n")
  case (Some e)
  then show ?thesis
    unfolding syncStep_def by (auto intro!: triple_raise elim: W_conseq JE)
next
  case None
  let ?c = "headNum - n \<ge> Confirmations (cfg m)"
  let ?K = "\<lambda>prev B R. J B R \<and> (0 < n \<longrightarrow> prev = B (n - 1)) \<and> (prev \<noteq> None \<longrightarrow> 0 < n)"
  have back_out: "triple (W (?K prev)) (bnd (rollback m (n - 1)) (\<lambda>_. ret Return)) ?Q (W E)"
    if "case prev of Some p \<Rightarrow> Hash p \<noteq> h_ParentHash h | None \<Rightarrow> False" for prev h
    by (rule triple_bnd [OF rollback_rule [OF st, where q = U]])
       (use that in \<open>auto intro!: triple_ret intro: undo JE UE split: option.splits\<close>)
  have keep: "triple (W (?K prev)) (on_fst (SaveBlock (store m) (headerBlock n h) ts ?c)) (\<lambda>_. W N) (W E)"
    if fits: "\<not> (case prev of Some p \<Rightarrow> Hash p \<noteq> h_ParentHash h | None \<Rightarrow> False)" for prev h ts
    unfolding st
  proof (rule save_rule)
    fix B R R' assume K: "?K prev B R" and ext: "rows_extended R (Number (headerBlock n h)) ts ?c R'"
    have num: "Number (headerBlock n h) = n" by (simp add: headerBlock_def)
    have "Hash p = h_ParentHash h" if "0 < n" "B (n - 1) = Some p" for p
      using that K fits by auto
    then show "N (B(Number (headerBlock n h) \<mapsto> headerBlock n h)) R'"
      unfolding num using K ext num by (intro save) auto
  qed (auto intro: JE NE)
  have rest: "triple (W (?K prev))
      (if (case prev of Some p \<Rightarrow> Hash p \<noteq> h_ParentHash h | None \<Rightarrow> False)
       then bnd (rollback m (n - 1)) (\<lambda>_. ret Return)
       else bnd (lift (fetchTransfers eth m n)) (\<lambda>ts.
         bnd (on_fst (SaveBlock (store m) (headerBlock n h) ts ?c)) (\<lambda>_.
         bnd (publishBlock eth m (headerBlock n h) (length ts) ?c) (\<lambda>_.
         bnd (for_each ts (\<lambda>t. publishTransfer eth m t n ?c)) (\<lambda>_. ret Continue))))) ?Q (W E)"
    for prev h
    by (rule triple_if, erule back_out)
       (intro triple_bnd_lift triple_bnd [OF keep step_publish_rule [OF NE]], auto elim: W_conseq intro: JE)
  show ?thesis
    unfolding syncStep_def Let_def None option.case
    by (intro triple_bnd_lift triple_bnd [OF step_get_rule [OF st JE] rest]) (auto elim: W_conseq intro: JE)
qed

text \<open>From the frontier at \<open>n\<close> to the frontier at \<open>n + 1\<close>.\<close>

lemma syncStep_rule:
  assumes st: "store m = ops" and cf: "Confirmations (cfg m) = c"
    and n: "n \<le> headNum" "headNum \<noteq> - 1" and H: "unat headNum \<le> H"
  shows "triple (W (\<lambda>B R. index_ok B \<and> conf_sound c H R \<and> frontier B n))
    (syncStep eth m ctx headNum n)
    (\<lambda>f w. case f of
        Continue \<Rightarrow> W (\<lambda>B R. index_ok B \<and> conf_sound c H R \<and> frontier B (n + 1)) w
      | Return \<Rightarrow> W (\<lambda>B R. index_ok B \<and> conf_sound c H R) w)
    (W (\<lambda>B R. index_ok B \<and> conf_sound c H R))"
proof (rule syncStep_gen [OF st])
  fix B R R' ts and h :: Header
  assume J: "index_ok B \<and> conf_sound c H R \<and> frontier B n"
    and parent: "\<And>p. 0 < n \<Longrightarrow> B (n - 1) = Some p \<Longrightarrow> Hash p = h_ParentHash h"
    and ext: "rows_extended R n ts (headNum - n \<ge> Confirmations (cfg m)) R'"
  have "n \<noteq> - 1" using n by (rule word_le_not_max)
  moreover have "Hash p = ParentHash (headerBlock n h)" if "0 < n" "B (n - 1) = Some p" for p
    using parent [OF that] by (simp add: headerBlock_def)
  ultimately show "index_ok (B(n \<mapsto> headerBlock n h)) \<and> conf_sound c H R' \<and>
      frontier (B(n \<mapsto> headerBlock n h)) (n + 1)"
    using J index_ok_save [of B n "headerBlock n h"] conf_sound_save [of c H R n ts headNum R'] ext n H cf
    by simp
qed (simp_all add: index_ok_below conf_sound_below)

text \<open>
  The start of \<^verbatim>\<open>Sync\<close>, for any properties of the store: \<open>P\<close> before, \<open>G\<close> when the loop is to begin, \<open>U\<close> after a rollback of
  the tip, \<open>E\<close> on a failure.
\<close>

lemma syncStart_gen:
  assumes st: "store m = ops"
    and first: "\<And>h B R. HeaderByNumber (backend m) None = Ok h \<Longrightarrow> P B R \<Longrightarrow> is_last B None \<Longrightarrow>
        G (word_of_int (h_Number h)) (StartBlock (cfg m)) B R"
    and go: "\<And>h B R b. HeaderByNumber (backend m) None = Ok h \<Longrightarrow> P B R \<Longrightarrow> is_last B (Some b) \<Longrightarrow>
        G (word_of_int (h_Number h)) (Number b + 1) B R"
    and undo: "\<And>B R b. P B R \<Longrightarrow> is_last B (Some b) \<Longrightarrow> U (blocks_below (Number b) B) (rows_below (Number b) R)"
    and PE: "\<And>B R. P B R \<Longrightarrow> E B R" and UE: "\<And>B R. U B R \<Longrightarrow> E B R"
  shows "triple (W P) (syncStart m) (\<lambda>x w. case x of None \<Rightarrow> W U w | Some (h, f) \<Rightarrow> W (G h f) w) (W E)"
  (is "triple _ _ ?Q _")
proof -
  have tail: "triple (W (\<lambda>B R. P B R \<and> is_last B last))
      (case last of
           None \<Rightarrow> ret (Some (word_of_int (h_Number h), StartBlock (cfg m)))
         | Some b \<Rightarrow>
             bnd (lift (HeaderByNumber (backend m) (Some (uint (Number b))))) (\<lambda>canon.
               if h_Hash canon \<noteq> Hash b
               then bnd (rollback m (Number b)) (\<lambda>_. ret None)
               else ret (Some (word_of_int (h_Number h), Number b + 1)))) ?Q (W E)"
    if h: "HeaderByNumber (backend m) None = Ok h" for last h
  proof (cases last)
    case None
    then show ?thesis using first [OF h] by (auto intro!: triple_ret elim!: W_conseq)
  next
    case (Some b)
    let ?P = "\<lambda>B R. P B R \<and> is_last B (Some b)"
    have back_out: "triple (W ?P) (bnd (rollback m (Number b)) (\<lambda>_. ret None)) ?Q (W E)"
      by (rule triple_bnd [OF rollback_rule [OF st, where q = U]]) (auto intro!: triple_ret intro: undo PE UE)
    have on: "triple (W ?P) (ret (Some (word_of_int (h_Number h), Number b + 1))) ?Q (W E)"
      using go [OF h] by (auto intro!: triple_ret elim!: W_conseq)
    show ?thesis
      unfolding Some option.case by (intro triple_bnd_lift triple_if back_out on) (auto elim: W_conseq intro: PE)
  qed
  have last: "triple (W P) (on_fst (LastBlock ops)) (\<lambda>x. W (\<lambda>B R. P B R \<and> is_last B x)) (W E)"
    by (rule triple_conseq [OF last_rule [of P]]) (auto elim: W_conseq intro: PE)
  show ?thesis
    unfolding syncStart_def Let_def st
    by (intro triple_bnd_lift triple_bnd [OF last tail]) (auto elim: W_conseq intro: PE)
qed

lemma syncStart_rule:
  assumes st: "store m = ops"
  shows "triple (W (\<lambda>B R. index_ok B \<and> conf_sound c H R)) (syncStart m)
    (\<lambda>x w. case x of None \<Rightarrow> W (\<lambda>B R. index_ok B \<and> conf_sound c H R) w
      | Some (headNum, from) \<Rightarrow>
          W (\<lambda>B R. index_ok B \<and> conf_sound c H R \<and> frontier B from) w \<and>
          (\<exists>h. HeaderByNumber (backend m) None = Ok h \<and> headNum = word_of_int (h_Number h)))
    (W (\<lambda>B R. index_ok B \<and> conf_sound c H R))"
  (is "triple (W ?I) _ _ _")
proof -
  let ?G = "\<lambda>headNum f B R. (?I B R \<and> frontier B f) \<and> (\<exists>h. HeaderByNumber (backend m) None = Ok h \<and> headNum = word_of_int (h_Number h))"
  have "triple (W ?I) (syncStart m) (\<lambda>x w. case x of None \<Rightarrow> W ?I w | Some (h, f) \<Rightarrow> W (?G h f) w) (W ?I)"
    by (rule syncStart_gen [OF st, where P = ?I and G = ?G and U = ?I and E = ?I]) (auto simp: is_last_def index_ok_below conf_sound_below intro: frontier_after_last)
  then show ?thesis by (rule triple_conseq) (auto simp: W_def split: option.splits)
qed

lemma syncFinish_rule:
  assumes st: "store m = ops" and cf: "Confirmations (cfg m) = c" and H: "unat headNum \<le> H"
  shows "triple (W (\<lambda>B R. index_ok B \<and> conf_sound c H R)) (syncFinish m headNum)
    (\<lambda>_. W (\<lambda>B R. index_ok B \<and> conf_sound c H R)) (W (\<lambda>B R. index_ok B \<and> conf_sound c H R))"
  unfolding syncFinish_def st cf
  by (intro triple_if confirm_rule triple_ret) (auto intro: conf_sound_confirm H)

text \<open>
  \<^verbatim>\<open>Sync\<close> returns whenever the reported head is not the largest 64-bit number, and on every
  path (success, rollback, any error) it leaves the store with the index invariant.
\<close>

lemma Sync_preserves:
  assumes st: "store m = ops"
    and head: "\<And>h. HeaderByNumber (backend m) None = Ok h \<Longrightarrow>
        word_of_int (h_Number h) \<noteq> (- 1 :: u64) \<and> unat (word_of_int (h_Number h) :: u64) \<le> H"
    and inv: "W (\<lambda>B R. index_ok B \<and> conf_sound (Confirmations (cfg m)) H R) w"
  shows "\<exists>r w'. Sync eth m ctx w = Some (r, w') \<and>
    W (\<lambda>B R. index_ok B \<and> conf_sound (Confirmations (cfg m)) H R) w'"
  (is "\<exists>r w'. _ \<and> W ?I w'")
proof -
  let ?J = "\<lambda>h f w. W (\<lambda>B R. ?I B R \<and> frontier B f) w \<and> h \<noteq> - 1 \<and> unat h \<le> H"
  have start: "triple (W ?I) (syncStart m)
      (\<lambda>x w. case x of None \<Rightarrow> W ?I w | Some (h, f) \<Rightarrow> ?J h f w) (W ?I)"
    by (rule triple_conseq [OF syncStart_rule [OF st]]) (use head in \<open>auto split: option.splits\<close>)
  have loop: "\<exists>r w'. syncLoop eth m ctx h f w = Some (r, w') \<and>
      (case r of Ok Continue \<Rightarrow> unat h \<le> H \<and> W ?I w' | Ok Return \<Rightarrow> W ?I w' | _ \<Rightarrow> W ?I w')"
    if "?J h f w" for h f w
  proof -
    have J: "W (\<lambda>B R. index_ok B \<and> conf_sound (Confirmations (cfg m)) H R \<and> frontier B f) w"
      and h: "h \<noteq> - 1" "unat h \<le> H"
      using that by simp_all
    obtain r w' where eq: "syncLoop eth m ctx h f w = Some (r, w')"
      and "case r of Ok Continue \<Rightarrow> (\<exists>k. h < k \<and> (f \<le> h \<longrightarrow> k = h + 1) \<and>
             W (\<lambda>B R. index_ok B \<and> conf_sound (Confirmations (cfg m)) H R \<and> frontier B k) w')
           | Ok Return \<Rightarrow> W ?I w' | _ \<Rightarrow> W ?I w'"
      using syncLoop_rule [OF h(1) syncStep_rule [OF st refl _ h] J] by blast
    then have "W ?I w'"
      by (auto split: result.splits flow.splits elim: W_conseq)
    with eq h(2) show ?thesis
      by (intro exI [of _ r] exI [of _ w']) (auto split: result.splits flow.splits)
  qed
  have finish: "triple (\<lambda>w. unat h \<le> H \<and> W ?I w) (syncFinish m h) (\<lambda>_. W ?I) (W ?I)" for h
  proof (cases "unat h \<le> H")
    case True
    then show ?thesis using syncFinish_rule [OF st refl True] by simp
  qed (simp add: triple_def)
  obtain r w' where "Sync eth m ctx w = Some (r, w')" "case r of Ok u \<Rightarrow> W ?I w' | _ \<Rightarrow> W ?I w'"
    using Sync_rule [where Q = "W ?I" and R = "W ?I", OF start loop finish inv] by blast
  then show ?thesis by (cases r) auto
qed

text \<open>
  Any finite run of polls, whatever the nodes answer and whichever calls fail: \<^verbatim>\<open>Run\<close> keeps the
  index invariant as long as no head is the largest word, and no transfer is confirmed less than
  \<^verbatim>\<open>Confirmations\<close> below the highest head \<open>H\<close> the nodes reported.
\<close>

lemma Run_preserves:
  assumes st: "store m = ops"
    and heads: "\<forall>p \<in> set ps. heads_below H (p_backend p)"
    and inv: "W (\<lambda>B R. index_ok B \<and> conf_sound (Confirmations (cfg m)) H R) w"
  shows "\<exists>r w'. Run eth m ps w = Some (r, w') \<and>
    W (\<lambda>B R. index_ok B \<and> conf_sound (Confirmations (cfg m)) H R) w'"
  using heads inv
proof (induction ps arbitrary: w)
  case (Cons p ps)
  let ?m = "m\<lparr>backend := p_backend p\<rparr>"
  have m: "store ?m = ops" "Confirmations (cfg ?m) = Confirmations (cfg m)" using st by simp_all
  obtain r w' where S: "Sync eth ?m (p_ctx p) w = Some (r, w')"
    and I: "W (\<lambda>B R. index_ok B \<and> conf_sound (Confirmations (cfg m)) H R) w'"
    using Sync_preserves [OF m(1), of H w eth "p_ctx p"] Cons.prems unfolding m(2)
    by (auto simp: heads_below_def)
  obtain r2 w2 where R: "Run eth m ps w' = Some (r2, w2)"
    "W (\<lambda>B R. index_ok B \<and> conf_sound (Confirmations (cfg m)) H R) w2"
    using Cons.IH [OF _ I] Cons.prems(1) by auto
  obtain s1 b1 where w': "w' = (s1, b1)" by (cases w')
  show ?case
    using S I R w' by (cases r; cases "p_done p") auto
qed simp

text \<open>
  A \<^verbatim>\<open>Sync\<close> that succeeds with the head in the index leaves no transfer unconfirmed that is
  \<^verbatim>\<open>Confirmations\<close> deep.
\<close>

lemma Sync_confirms:
  assumes st: "store m = ops" and hd: "HeaderByNumber (backend m) None = Ok hdr"
    and h: "h = word_of_int (h_Number hdr)" "h \<noteq> - 1"
    and pre: "W (\<lambda>B R. \<forall>n \<in> dom B. n \<le> h) w"
  shows "\<exists>r w'. Sync eth m ctx w = Some (r, w') \<and>
    (case r of Ok u \<Rightarrow> W (\<lambda>B R. h \<in> dom B \<longrightarrow> conf_complete (Confirmations (cfg m)) h R) w'
     | _ \<Rightarrow> W (\<lambda>B R. True) w')"
proof -
  let ?c = "Confirmations (cfg m)"
  let ?T = "\<lambda>(B :: u64 \<rightharpoonup> Block) (R :: storedTransfer list). True"
  let ?Q = "\<lambda>B R. h \<in> dom B \<longrightarrow> conf_complete ?c h R"
  let ?P = "\<lambda>B (R :: storedTransfer list). \<forall>n \<in> dom B. n \<le> h"
  have "triple (W ?P) (syncStart m) (\<lambda>x w. case x of None \<Rightarrow> W (\<lambda>B R. h \<notin> dom B) w | Some (hn, f) \<Rightarrow> W (\<lambda>B R. hn = h) w) (W ?T)"
  proof (rule syncStart_gen [OF st])
    fix B and b :: Block assume B: "\<forall>n \<in> dom B. n \<le> h" "is_last B (Some b)"
    then have "Number b \<in> dom B" by (auto simp: is_last_def)
    then have "Number b \<le> h" using B by blast
    then show "h \<notin> dom (blocks_below (Number b) B)" by (simp add: leD)
  qed (use hd h in simp_all)
  then have start: "triple (W ?P) (syncStart m)
      (\<lambda>x w. case x of None \<Rightarrow> W ?Q w | Some (hn, f) \<Rightarrow> hn = h \<and> W ?T w) (W ?T)"
    by (rule triple_conseq) (auto simp: W_def split: option.splits)
  have step: "triple (W ?T) (syncStep eth m ctx h n)
      (\<lambda>f w. case f of Continue \<Rightarrow> W ?T w | Return \<Rightarrow> W ?Q w) (W ?T)" if "n \<le> h" for n
  proof -
    have "\<not> h < n - 1" if "0 < n" using that \<open>n \<le> h\<close> by (metis leD less_imp_le less_le_trans order_refl word_le_dec)
    then show ?thesis
      by (intro triple_conseq [OF syncStep_gen [OF st, where U = "\<lambda>B R. h \<notin> dom B" and J = ?T and N = ?T and E = ?T]])
         (auto split: flow.splits elim!: W_conseq)
  qed
  have loop: "\<exists>r w'. syncLoop eth m ctx hn f w = Some (r, w') \<and>
      (case r of Ok Continue \<Rightarrow> hn = h \<and> W ?T w' | Ok Return \<Rightarrow> W ?Q w' | _ \<Rightarrow> W ?T w')"
    if "hn = h \<and> W ?T w" for hn f w
  proof -
    have Ww: "W ?T w" using that by simp
    obtain r w' where "syncLoop eth m ctx h f w = Some (r, w')"
      "case r of Ok Continue \<Rightarrow> (\<exists>k. h < k \<and> (f \<le> h \<longrightarrow> k = h + 1) \<and> W ?T w')
         | Ok Return \<Rightarrow> W ?Q w' | _ \<Rightarrow> W ?T w'"
      using syncLoop_rule [where I = "\<lambda>_. W ?T", OF h(2) step Ww] by blast
    then show ?thesis
      using that by (intro exI [of _ r] exI [of _ w']) (auto split: result.splits flow.splits)
  qed
  have finish: "triple (\<lambda>w. hn = h \<and> W ?T w) (syncFinish m hn) (\<lambda>_. W ?Q) (W ?T)" for hn
  proof (cases "hn = h")
    case True
    have "triple (W ?T) (syncFinish m h) (\<lambda>_. W ?Q) (W ?T)"
      unfolding syncFinish_def st
      by (intro triple_if confirm_rule triple_ret)
         (auto intro: conf_complete_confirm conf_complete_shallow elim!: W_conseq)
    then show ?thesis using True by simp
  qed (simp add: triple_def)
  show ?thesis by (rule Sync_rule [OF start loop finish pre])
qed

end

end
