(* ===== verification/Chain_Bus.thy ===== *)
theory Chain_Bus
  imports Chain_Invariant
begin

text \<open>
  What the monitor does with its event bus. Publication errors are dropped, so what ends up in
  the store, and what \<^verbatim>\<open>Run\<close> returns, does not depend on the bus (\<open>blind\<close>: two calls on the same
  store with different buses agree on the result and on the store). With the recording bus
  of the tests, the events of one \<^verbatim>\<open>Sync\<close> are those of consecutive blocks, each block before
  its transfers, followed by at most one reorg event.
\<close>

section \<open>The store does not depend on the bus\<close>

text \<open>A bus whose publications may fail but do not panic.\<close>

definition bus_total :: "'b Bus \<Rightarrow> bool" where
  "bus_total bs \<longleftrightarrow> (\<forall>subject data b p. fst (Publish bs subject data b) \<noteq> Panic p)"

definition obs :: "'a result \<times> ('s \<times> 'b) \<Rightarrow> 'a result \<times> 's" where
  "obs rw = (fst rw, fst (snd rw))"

definition blind :: "('s \<times> 'b, 'a) eff \<Rightarrow> ('s \<times> 'c, 'a) eff \<Rightarrow> bool" where
  "blind m m' \<longleftrightarrow> (\<forall>s b c. obs (m (s, b)) = obs (m' (s, c)))"

lemma obs_pair [simp]: "obs (r, (s, b)) = (r, s)"
  by (simp add: obs_def)

lemma blindD:
  assumes "blind m m'" and "m (s, b) = (r, (s', b'))"
  shows "\<exists>c'. m' (s, c) = (r, (s', c'))"
proof -
  have "obs (m (s, b)) = obs (m' (s, c))" using assms(1) unfolding blind_def by blast
  then show ?thesis using assms(2) by (cases "m' (s, c)") (auto simp: obs_def)
qed

lemma blind_bnd:
  assumes "blind m m'" and "\<And>x. blind (f x) (f' x)"
  shows "blind (bnd m f) (bnd m' f')"
  unfolding blind_def
proof (intro allI)
  fix s b c
  obtain r s1 b1 where m: "m (s, b) = (r, (s1, b1))" by (cases "m (s, b)") auto
  obtain c1 where m': "m' (s, c) = (r, (s1, c1))" using blindD [OF assms(1) m] by blast
  show "obs (bnd m f (s, b)) = obs (bnd m' f' (s, c))"
    using m m' assms(2) by (cases r) (auto simp: obs_def blind_def)
qed

lemma blind_lift: "blind (lift r) (lift r)" and blind_ret: "blind (ret x) (ret x)"
  and blind_raise: "blind (raise e) (raise e)" and blind_on_fst: "blind (on_fst m) (on_fst m)"
  by (auto simp: blind_def obs_def eff_simps split: prod.splits)

lemma blind_if: "blind m m' \<Longrightarrow> blind n n' \<Longrightarrow> blind (if c then m else n) (if c then m' else n')"
  by simp

lemma blind_for_each: "(\<And>x. blind (f x) (f' x)) \<Longrightarrow> blind (for_each xs f) (for_each xs f')"
  by (induction xs) (auto intro: blind_bnd blind_ret)

lemma blind_publish:
  assumes "bus_total b" "bus_total b'"
  shows "blind (ignore_err (on_snd (Publish b u d))) (ignore_err (on_snd (Publish b' u d)))"
  unfolding blind_def
proof (intro allI)
  fix s x y
  obtain r x' where p: "Publish b u d x = (r, x')" by (cases "Publish b u d x")
  obtain r' y' where p': "Publish b' u d y = (r', y')" by (cases "Publish b' u d y")
  have "r \<noteq> Panic q" "r' \<noteq> Panic q" for q
    using assms p p' unfolding bus_total_def by (metis fst_conv)+
  then show "obs (ignore_err (on_snd (Publish b u d)) (s, x)) =
      obs (ignore_err (on_snd (Publish b' u d)) (s, y))"
    using p p' by (cases r; cases r') (auto simp: obs_def ignore_err_def on_snd_def)
qed

lemmas blind_rules = blind_bnd blind_lift blind_ret blind_raise blind_on_fst blind_if blind_for_each

text \<open>Two monitors that differ in the bus only.\<close>

definition same_but_bus :: "('abi, 's, 'b) Monitor \<Rightarrow> ('abi, 's, 'c) Monitor \<Rightarrow> bool" where
  "same_but_bus m m' \<longleftrightarrow> backend m = backend m' \<and> store m = store m' \<and>
     decoder m = decoder m' \<and> cfg m = cfg m' \<and> bus_total (bus m) \<and> bus_total (bus m')"

lemma blind_sync_parts:
  assumes "same_but_bus m m'"
  shows "blind (syncStart m) (syncStart m')"
    and "blind (syncStep eth m ctx h n) (syncStep eth m' ctx h n)"
    and "blind (syncFinish m h) (syncFinish m' h)"
proof -
  have eq: "backend m = backend m'" "store m = store m'" "decoder m = decoder m'" "cfg m = cfg m'"
    and tot: "bus_total (bus m)" "bus_total (bus m')"
    using assms by (auto simp: same_but_bus_def)
  have rb: "blind (rollback m k) (rollback m' k)" for k
    unfolding rollback_def eq by (intro blind_rules blind_publish tot)
  have pubs: "blind (publishBlock eth m b k c) (publishBlock eth m' b k c)"
    "blind (publishTransfer eth m t n c) (publishTransfer eth m' t n c)" for b k c t
    unfolding publishBlock_def publishTransfer_def by (intro blind_publish tot)+
  have fetch: "fetchTransfers eth m n = fetchTransfers eth m' n"
    by (simp add: fetchTransfers_def eq)
  show "blind (syncStart m) (syncStart m')"
    unfolding syncStart_def eq Let_def
    by (intro blind_bnd blind_lift blind_on_fst) (auto split: option.splits intro!: blind_rules rb)
  show "blind (syncStep eth m ctx h n) (syncStep eth m' ctx h n)"
    unfolding syncStep_def eq fetch Let_def
    by (cases "ctx n") (auto intro!: blind_rules rb pubs)
  show "blind (syncFinish m h) (syncFinish m' h)"
    unfolding syncFinish_def eq by (intro blind_rules)
qed

lemma syncLoop_blind:
  assumes "same_but_bus m m'" and "h \<noteq> - 1"
  shows "map_option obs (syncLoop eth m ctx h n (s, b)) = map_option obs (syncLoop eth m' ctx h n (s, c))"
proof (induction "unat h + 1 - unat n" arbitrary: n s b c rule: less_induct)
  case less
  show ?case
  proof (cases "n \<le> h")
    case False
    then show ?thesis by (simp add: syncLoop.simps obs_def)
  next
    case True
    obtain r s1 b1 where st: "syncStep eth m ctx h n (s, b) = (r, (s1, b1))"
      by (cases "syncStep eth m ctx h n (s, b)") auto
    obtain c1 where st': "syncStep eth m' ctx h n (s, c) = (r, (s1, c1))"
      using blindD [OF blind_sync_parts(2) [OF assms(1)] st] by blast
    have "n \<noteq> - 1" using True assms(2) by (rule word_le_not_max)
    then have "unat h + 1 - unat (n + 1) < unat h + 1 - unat n"
      using True by (simp add: unat_inc word_le_nat_alt)
    note IH = less.hyps [OF this]
    show ?thesis
      unfolding syncLoop.simps [of eth m ctx h n] syncLoop.simps [of eth m' ctx h n] st st'
      using IH by (auto simp: obs_def split: result.splits flow.splits)
  qed
qed

lemma Sync_blind:
  assumes eq: "same_but_bus m m'" and "heads_below H (backend m)"
  shows "map_option obs (Sync eth m ctx (s, b)) = map_option obs (Sync eth m' ctx (s, c))"
proof -
  obtain r s1 b1 where st: "syncStart m (s, b) = (r, (s1, b1))" by (cases "syncStart m (s, b)") auto
  obtain c1 where st': "syncStart m' (s, c) = (r, (s1, c1))"
    using blindD [OF blind_sync_parts(1) [OF eq] st] by blast
  show ?thesis
  proof (cases "\<exists>h f. r = Ok (Some (h, f))")
    case False
    then show ?thesis
      using st st' by (cases r) (auto simp: Sync_def obs_def split: option.splits)
  next
    case True
    then obtain h f where r: "r = Ok (Some (h, f))" by blast
    then have "h \<noteq> - 1"
      using st assms(2)
      by (auto simp: syncStart_def bnd_eq_Ok Let_def heads_below_def eff_simps
          split: prod.splits option.splits if_splits)
    from syncLoop_blind [OF eq this, of eth ctx f s1 b1 c1]
    obtain x s2 b2 c2 where loops: "syncLoop eth m ctx h f (s1, b1) = None \<and> syncLoop eth m' ctx h f (s1, c1) = None \<or>
        syncLoop eth m ctx h f (s1, b1) = Some (x, (s2, b2)) \<and> syncLoop eth m' ctx h f (s1, c1) = Some (x, (s2, c2))"
      by (cases "syncLoop eth m ctx h f (s1, b1)"; cases "syncLoop eth m' ctx h f (s1, c1)")
         (auto simp: obs_def)
    have fin: "obs (syncFinish m h (s2, b2)) = obs (syncFinish m' h (s2, c2))"
      using blind_sync_parts(3) [OF eq] unfolding blind_def by blast
    show ?thesis
      using st st' r loops fin by (auto simp: Sync_def obs_def split: result.splits flow.splits)
  qed
qed

lemma Run_blind:
  assumes "same_but_bus m m'" and "\<forall>p \<in> set ps. heads_below H (p_backend p)"
  shows "map_option obs (Run eth m ps (s, b)) = map_option obs (Run eth m' ps (s, c))"
  using assms(2)
proof (induction ps arbitrary: s b c)
  case (Cons p ps)
  let ?m = "m\<lparr>backend := p_backend p\<rparr>" and ?m' = "m'\<lparr>backend := p_backend p\<rparr>"
  have "same_but_bus ?m ?m'" using assms(1) by (simp add: same_but_bus_def)
  moreover have "heads_below H (backend ?m)" using Cons.prems by simp
  ultimately have S: "map_option obs (Sync eth ?m (p_ctx p) (s, b)) =
      map_option obs (Sync eth ?m' (p_ctx p) (s, c))"
    by (rule Sync_blind)
  show ?case
  proof (cases "Sync eth ?m (p_ctx p) (s, b)")
    case None
    then show ?thesis using S by simp
  next
    case (Some rw)
    obtain r s1 b1 where rw: "rw = (r, (s1, b1))" by (cases rw) auto
    obtain c1 where S': "Sync eth ?m' (p_ctx p) (s, c) = Some (r, (s1, c1))"
      using S Some rw by (cases "Sync eth ?m' (p_ctx p) (s, c)") (auto simp: obs_def)
    have "map_option obs (Run eth m ps (s1, b1)) = map_option obs (Run eth m' ps (s1, c1))"
      using Cons by simp
    then show ?thesis using Some S' rw by (cases r) simp_all
  qed
qed (simp add: obs_def)


section \<open>The events of a Sync\<close>

definition blockEvent :: "'abi Eth \<Rightarrow> Block \<Rightarrow> nat \<Rightarrow> bool \<Rightarrow> string \<times> any" where
  "blockEvent eth b k c = (SubjectChainBlock,
     AMap [(''number'', AInt (uint (Number b))), (''hash'', AString (Hash_Hex eth (Hash b))),
           (''transfers'', AInt (int k)), (''confirmed'', ABool c)])"

definition transferEvent :: "'abi Eth \<Rightarrow> u64 \<Rightarrow> bool \<Rightarrow> Transfer \<Rightarrow> string \<times> any" where
  "transferEvent eth n c t = (SubjectChainTransfer,
     AMap [(''block'', AInt (uint n)), (''token'', AString (Address_Hex eth (Token t))),
           (''from'', AString (Address_Hex eth (From t))), (''to'', AString (Address_Hex eth (To t))),
           (''value'', AString (itoa (Value t))), (''tx_hash'', AString (Hash_Hex eth (TxHash t))),
           (''confirmed'', ABool c)])"

definition reorgEvent :: "u64 \<Rightarrow> string \<times> any" where
  "reorgEvent n = (SubjectChainReorg, AMap [(''from_block'', AInt (uint n))])"

text \<open>What indexing block \<open>n\<close> under head \<open>h\<close> announces.\<close>

definition blockEvents :: "'abi Eth \<Rightarrow> ('abi, 's, 'b) Monitor \<Rightarrow> u64 \<Rightarrow> u64 \<Rightarrow> capture" where
  "blockEvents eth m h n =
     (case (HeaderByNumber (backend m) (Some (uint n)), fetchTransfers eth m n) of
        (Ok hdr, Ok ts) \<Rightarrow>
          (let c = (h - n \<ge> Confirmations (cfg m)) in
           blockEvent eth (headerBlock n hdr) (length ts) c # map (transferEvent eth n c) ts)
      | _ \<Rightarrow> [])"

definition rangeEvents ::
  "'abi Eth \<Rightarrow> ('abi, 's, 'b) Monitor \<Rightarrow> u64 \<Rightarrow> nat \<Rightarrow> nat \<Rightarrow> capture" where
  "rangeEvents eth m h i j = concat (map (\<lambda>k. blockEvents eth m h (word_of_nat k)) [i..<j])"

abbreviation logged :: "capture \<Rightarrow> 's \<times> capture \<Rightarrow> bool" where
  "logged l w \<equiv> snd w = l"

lemma logged_on_fst: "triple (logged l) (on_fst m) (\<lambda>_. logged l) (logged l)"
  by (auto simp: triple_def on_fst_def split: prod.splits result.splits)

lemma logged_publish:
  "triple (logged l) (ignore_err (on_snd (Publish captureBus u d))) (\<lambda>_. logged (l @ [(u, d)])) R"
  by (auto simp: triple_def ignore_err_def on_snd_def captureBus_def)

lemma logged_rollback:
  assumes "bus m = captureBus"
  shows "triple (logged l) (rollback m n) (\<lambda>_. logged (l @ [reorgEvent n])) (logged l)"
  unfolding rollback_def assms reorgEvent_def by (rule triple_bnd [OF logged_on_fst logged_publish])

lemma logged_transfers:
  assumes "bus m = captureBus"
  shows "triple (logged l) (for_each ts (\<lambda>t. publishTransfer eth m t n c))
    (\<lambda>_. logged (l @ map (transferEvent eth n c) ts)) R"
proof (induction ts arbitrary: l)
  case (Cons t ts)
  have "triple (logged l) (publishTransfer eth m t n c) (\<lambda>_. logged (l @ [transferEvent eth n c t])) R"
    unfolding publishTransfer_def transferEvent_def assms by (rule logged_publish)
  from triple_bnd [OF this Cons] show ?case by simp
qed (simp add: triple_ret)

lemma syncStep_logged:
  assumes b: "bus m = captureBus"
  shows "triple (logged l) (syncStep eth m ctx h n)
    (\<lambda>f. logged (l @ (case f of Continue \<Rightarrow> blockEvents eth m h n | Return \<Rightarrow> [reorgEvent (n - 1)]))) (logged l)"
  (is "triple _ _ ?Q _")
proof (cases "ctx n")
  case None
  let ?c = "h - n \<ge> Confirmations (cfg m)"
  have get: "triple (logged l) (if 0 < n then on_fst (BlockByNumber (store m) (n - 1)) else ret None)
      (\<lambda>_. logged l) (logged l)"
    by (intro triple_if logged_on_fst triple_ret)
  have undo: "triple (logged l) (bnd (rollback m (n - 1)) (\<lambda>_. ret Return)) ?Q (logged l)"
    by (rule triple_bnd [OF logged_rollback [OF b]]) (auto intro: triple_ret)
  have announce: "triple (logged l)
      (bnd (on_fst (SaveBlock (store m) (headerBlock n hdr) ts ?c)) (\<lambda>_.
       bnd (publishBlock eth m (headerBlock n hdr) (length ts) ?c) (\<lambda>_.
       bnd (for_each ts (\<lambda>t. publishTransfer eth m t n ?c)) (\<lambda>_. ret Continue)))) ?Q (logged l)"
    if "HeaderByNumber (backend m) (Some (uint n)) = Ok hdr" "fetchTransfers eth m n = Ok ts" for hdr ts
  proof -
    let ?e = "blockEvent eth (headerBlock n hdr) (length ts) ?c"
    have "triple (logged l) (publishBlock eth m (headerBlock n hdr) (length ts) ?c) (\<lambda>_. logged (l @ [?e])) (logged l)"
      unfolding publishBlock_def blockEvent_def b by (rule logged_publish)
    then show ?thesis
      by (intro triple_bnd [OF logged_on_fst triple_bnd [OF _ triple_bnd [OF logged_transfers [OF b]]]]
          triple_ret) (auto simp: blockEvents_def Let_def that)
  qed
  show ?thesis
    unfolding syncStep_def Let_def None option.case
    by (intro triple_bnd_lift triple_bnd [OF get] triple_if undo announce) simp_all
qed (simp add: syncStep_def triple_raise)

text \<open>A run of block events, and then at most one reorg event.\<close>

definition headNum :: "('abi, 's, 'b) Monitor \<Rightarrow> u64" where
  "headNum m = (case HeaderByNumber (backend m) None of Ok hdr \<Rightarrow> word_of_int (h_Number hdr) | _ \<Rightarrow> 0)"

definition sync_trace ::
  "'abi Eth \<Rightarrow> ('abi, 's, 'b) Monitor \<Rightarrow> capture \<Rightarrow> capture \<Rightarrow> bool" where
  "sync_trace eth m l l' \<longleftrightarrow>
     (\<exists>i j rest. l' = l @ rangeEvents eth m (headNum m) i j @ rest \<and> (rest = [] \<or> (\<exists>n. rest = [reorgEvent n])))"

lemma sync_traceI:
  "h = headNum m \<Longrightarrow> l' = l @ rangeEvents eth m h i j \<Longrightarrow> sync_trace eth m l l'"
  "h = headNum m \<Longrightarrow> l' = l @ rangeEvents eth m h i j @ [reorgEvent n] \<Longrightarrow> sync_trace eth m l l'"
  unfolding sync_trace_def by blast+

lemma sync_trace_short: "sync_trace eth m l l" "sync_trace eth m l (l @ [reorgEvent n])"
  by (rule sync_traceI(1) [OF refl, where i = 0 and j = 0], simp add: rangeEvents_def)
     (rule sync_traceI(2) [OF refl, where i = 0 and j = 0], simp add: rangeEvents_def)

lemma rangeEvents_empty [simp]: "rangeEvents eth m h i i = []"
  by (simp add: rangeEvents_def)

lemma rangeEvents_snoc:
  "i \<le> unat n \<Longrightarrow> n \<noteq> - 1 \<Longrightarrow>
   rangeEvents eth m h i (unat (n + 1)) = rangeEvents eth m h i (unat n) @ blockEvents eth m h n"
  by (simp add: rangeEvents_def unat_inc)

lemma syncLoop_logged:
  assumes b: "bus m = captureBus" and h: "h \<noteq> - 1" "h = headNum m" and w: "logged l w"
  shows "\<exists>r w'. syncLoop eth m ctx h f w = Some (r, w') \<and>
    (case r of Ok Continue \<Rightarrow> snd w' = l @ rangeEvents eth m h (unat f) (unat h + 1) | _ \<Rightarrow> sync_trace eth m l (snd w'))"
proof (cases "f \<le> h")
  case False
  then have "syncLoop eth m ctx h f w = Some (Ok Continue, w)" by (simp add: syncLoop.simps)
  then show ?thesis using False w by (simp add: rangeEvents_def word_le_nat_alt)
next
  case le: True
  let ?I = "\<lambda>n w. logged (l @ rangeEvents eth m h (unat f) (unat n)) w \<and> f \<le> n"
  let ?T = "\<lambda>w. sync_trace eth m l (snd w)"
  have step: "triple (?I n) (syncStep eth m ctx h n)
      (\<lambda>x w. case x of Continue \<Rightarrow> ?I (n + 1) w | Return \<Rightarrow> ?T w) ?T"
    if "n \<le> h" for n
  proof (cases "f \<le> n")
    case True
    have n1: "n \<noteq> - 1" using that h(1) by (rule word_le_not_max)
    then have "f \<le> n + 1" using True by (simp add: word_le_nat_alt unat_inc)
    then show ?thesis
      using True n1 h(2)
      by (intro triple_conseq [OF syncStep_logged [OF b, where l = "l @ rangeEvents eth m h (unat f) (unat n)"]])
         (auto split: flow.splits simp: rangeEvents_snoc word_le_nat_alt intro: sync_traceI)
  qed (simp add: triple_pre_false)
  have start: "?I f w" using w by simp
  obtain r w' where eq: "syncLoop eth m ctx h f w = Some (r, w')"
    and post: "case r of Ok Continue \<Rightarrow> (\<exists>k. h < k \<and> (f \<le> h \<longrightarrow> k = h + 1) \<and> ?I k w')
       | Ok Return \<Rightarrow> ?T w' | _ \<Rightarrow> ?T w'"
    using syncLoop_rule [where I = ?I, OF h(1) step start] by blast
  then show ?thesis
    using le h by (intro exI [of _ r] exI [of _ w']) (auto split: result.splits flow.splits simp: unat_inc)
qed

lemma Sync_logged:
  assumes b: "bus m = captureBus" and heads: "heads_below H (backend m)"
  shows "\<exists>r s' l'. Sync eth m ctx (s, l) = Some (r, (s', l')) \<and> sync_trace eth m l l'"
proof -
  let ?T = "\<lambda>w. sync_trace eth m l (snd w)"
  have undo: "triple (logged l) (bnd (rollback m n) (\<lambda>_. ret None))
      (\<lambda>x w. case x of None \<Rightarrow> ?T w | Some (h, f) \<Rightarrow> (h \<noteq> - 1 \<and> h = headNum m) \<and> logged l w) ?T" for n
    by (rule triple_conseq [OF triple_bnd [OF logged_rollback [OF b], where Q = "\<lambda>x w. x = None \<and> ?T w"]])
       (auto intro!: triple_ret intro: sync_trace_short)
  have tail: "triple (logged l)
      (case last of
           None \<Rightarrow> ret (Some (word_of_int (h_Number hdr) :: u64, StartBlock (cfg m)))
         | Some b \<Rightarrow>
             bnd (lift (HeaderByNumber (backend m) (Some (uint (Number b))))) (\<lambda>canon.
               if h_Hash canon \<noteq> Hash b
               then bnd (rollback m (Number b)) (\<lambda>_. ret None)
               else ret (Some (word_of_int (h_Number hdr), Number b + 1))))
      (\<lambda>x w. case x of None \<Rightarrow> ?T w | Some (h, f) \<Rightarrow> (h \<noteq> - 1 \<and> h = headNum m) \<and> logged l w) ?T"
    if "HeaderByNumber (backend m) None = Ok hdr" for last hdr
    using that heads
    by (cases last) (auto simp: heads_below_def headNum_def intro!: triple_bnd_lift triple_if triple_ret undo
        intro: sync_trace_short)
  have start: "triple (logged l) (syncStart m)
      (\<lambda>x w. case x of None \<Rightarrow> ?T w | Some (h, f) \<Rightarrow> (h \<noteq> - 1 \<and> h = headNum m) \<and> logged l w) ?T"
    unfolding syncStart_def Let_def
    by (intro triple_bnd_lift triple_bnd [OF triple_conseq [OF logged_on_fst [of l]] tail])
       (auto intro: sync_trace_short)
  have loop: "\<exists>r w'. syncLoop eth m ctx h f w = Some (r, w') \<and>
      (case r of Ok Continue \<Rightarrow> ?T w' | Ok Return \<Rightarrow> ?T w' | _ \<Rightarrow> ?T w')"
    if "(h \<noteq> - 1 \<and> h = headNum m) \<and> logged l w" for h f w
  proof -
    have h: "h \<noteq> - 1" "h = headNum m" and w: "logged l w" using that by blast+
    obtain r w' where eq: "syncLoop eth m ctx h f w = Some (r, w')"
      and "case r of Ok Continue \<Rightarrow> snd w' = l @ rangeEvents eth m h (unat f) (unat h + 1)
        | _ \<Rightarrow> sync_trace eth m l (snd w')"
      using syncLoop_logged [OF b h w] by blast
    then have "?T w'" using h(2) by (auto split: result.splits flow.splits intro: sync_traceI)
    then show ?thesis using eq by (intro exI [of _ r] exI [of _ w']) (auto split: result.splits flow.splits)
  qed
  have finish: "triple ?T (syncFinish m h) (\<lambda>_. ?T) ?T" for h
    unfolding syncFinish_def
    by (intro triple_if triple_ret) (auto simp: triple_def on_fst_def split: prod.splits result.splits)
  obtain r w' where "Sync eth m ctx (s, l) = Some (r, w')" "case r of Ok u \<Rightarrow> ?T w' | _ \<Rightarrow> ?T w'"
    using Sync_rule [where w = "(s, l)", OF start loop finish] by auto
  then show ?thesis by (cases r; cases w') auto
qed

end
