(* ===== verification/Chain_Converge.thy ===== *)
theory Chain_Converge
  imports Chain_Bus
begin

text \<open>
  Reorg handling converges. A node that serves one canonical chain \<open>C\<close> up to head \<open>h\<close> is
  followed by a store that may hold blocks of another fork. Each \<^verbatim>\<open>Sync\<close> removes the highest
  block that is not canonical, and once none is left the next \<^verbatim>\<open>Sync\<close> indexes up to the head.

  The tip check compares one hash only. It is enough because a block hash commits to the
  parent hash (\<open>commits\<close>: the parent hash is a function \<open>par\<close> of the block hash) and the index
  is linked: an index whose tip is canonical is canonical throughout (\<open>tip_match\<close>).
\<close>

definition canonical :: "(u64 \<Rightarrow> Header) \<Rightarrow> u64 \<Rightarrow> (hash \<Rightarrow> hash) \<Rightarrow> bool" where
  "canonical C h par \<longleftrightarrow>
     (\<forall>n < h. h_ParentHash (C (n + 1)) = h_Hash (C n)) \<and>
     (\<forall>n \<le> h. h_Number (C n) = uint n \<and> h_ParentHash (C n) = par (h_Hash (C n)))"

definition serves :: "ChainBackend \<Rightarrow> (u64 \<Rightarrow> Header) \<Rightarrow> u64 \<Rightarrow> bool" where
  "serves be C h \<longleftrightarrow>
     HeaderByNumber be None = Ok (C h) \<and>
     (\<forall>n \<le> h. HeaderByNumber be (Some (uint n)) = Ok (C n)) \<and>
     (\<forall>q. is_Ok (FilterLogs be q))"

definition commits :: "(hash \<Rightarrow> hash) \<Rightarrow> (u64 \<rightharpoonup> Block) \<Rightarrow> bool" where
  "commits par B \<longleftrightarrow> (\<forall>n b. B n = Some b \<longrightarrow> ParentHash b = par (Hash b))"

definition agrees :: "(u64 \<Rightarrow> Header) \<Rightarrow> (u64 \<rightharpoonup> Block) \<Rightarrow> bool" where
  "agrees C B \<longleftrightarrow> (\<forall>n b. B n = Some b \<longrightarrow> Hash b = h_Hash (C n))"

text \<open>The indexed heights whose block is not the canonical one.\<close>

definition stale :: "(u64 \<Rightarrow> Header) \<Rightarrow> (u64 \<rightharpoonup> Block) \<Rightarrow> u64 set" where
  "stale C B = {n. \<exists>b. B n = Some b \<and> Hash b \<noteq> h_Hash (C n)}"

definition following :: "(hash \<Rightarrow> hash) \<Rightarrow> u64 \<Rightarrow> (u64 \<rightharpoonup> Block) \<Rightarrow> bool" where
  "following par h B \<longleftrightarrow> index_ok B \<and> commits par B \<and> (\<forall>n \<in> dom B. n \<le> h)"

text \<open>The index is the canonical chain, gap-free up to the head.\<close>

definition synced :: "(u64 \<Rightarrow> Header) \<Rightarrow> u64 \<Rightarrow> (u64 \<rightharpoonup> Block) \<Rightarrow> bool" where
  "synced C h B \<longleftrightarrow> agrees C B \<and> gap_free B \<and> h \<in> dom B \<and> (\<forall>n \<in> dom B. n \<le> h)"

lemma agrees_iff_stale: "agrees C B \<longleftrightarrow> stale C B = {}"
  by (auto simp: agrees_def stale_def)

lemma tip_match:
  assumes can: "canonical C h par" and fol: "following par h B" and last: "is_last B (Some b)"
    and tip: "Hash b = h_Hash (C (Number b))"
  shows "agrees C B"
proof -
  have Bb: "B (Number b) = Some b" and top: "\<And>n. n \<in> dom B \<Longrightarrow> n \<le> Number b"
    using last by (auto simp: is_last_def)
  have "Hash x = h_Hash (C n)" if "B n = Some x" for n x
    using that
  proof (induction "unat (Number b) - unat n" arbitrary: n x rule: less_induct)
    case less
    show ?case
    proof (cases "n = Number b")
      case True
      then show ?thesis using less.prems Bb tip by simp
    next
      case False
      have "n \<le> Number b" using top less.prems by auto
      then have lt: "n < Number b" using False by simp
      have n1: "n \<noteq> - 1" using lt by (rule unat_less_max)
      have "n + 1 \<le> Number b" using lt by (rule inc_le)
      moreover have "n \<le> n + 1" using n1 by (simp add: less_imp_le word_less_inc)
      ultimately have "n + 1 \<in> dom B"
        using fol less.prems Bb unfolding following_def index_ok_def gap_free_def by blast
      then obtain y where y: "B (n + 1) = Some y" by auto
      have "unat (Number b) - unat (n + 1) < unat (Number b) - unat n"
        using lt n1 by (simp add: unat_inc word_less_nat_alt)
      from less.hyps [OF this y] have hy: "Hash y = h_Hash (C (n + 1))" .
      have "Number b \<le> h" using fol Bb by (auto simp: following_def)
      then have nh: "n < h" "n + 1 \<le> h" using lt \<open>n + 1 \<le> Number b\<close> by auto
      have "ParentHash y = Hash x"
        using fol less.prems y n1 unfolding following_def index_ok_def linked_def by blast
      moreover have "ParentHash y = par (Hash y)"
        using fol y unfolding following_def commits_def by blast
      moreover have "h_ParentHash (C (n + 1)) = par (h_Hash (C (n + 1)))"
        and "h_ParentHash (C (n + 1)) = h_Hash (C n)"
        using can nh unfolding canonical_def by blast+
      ultimately show ?thesis using hy by simp
    qed
  qed
  then show ?thesis unfolding agrees_def by blast
qed

lemma stale_rollback:
  assumes "is_last B (Some b)" "Hash b \<noteq> h_Hash (C (Number b))"
  shows "card (stale C (blocks_below (Number b) B)) < card (stale C B)"
proof (rule psubset_card_mono)
  show "finite (stale C B)" by simp
  show "stale C (blocks_below (Number b) B) \<subset> stale C B"
    using assms(1,2) by (auto simp: stale_def is_last_def)
qed

lemma following_below: "following par h B \<Longrightarrow> following par h (blocks_below n B)"
  by (auto simp: following_def index_ok_below commits_def)

lemma following_save:
  assumes can: "canonical C h par" and "following par h B" "agrees C B" "frontier B n" "n \<le> h" "h \<noteq> - 1"
  shows "following par h (B(n \<mapsto> headerBlock n (C n)))" "agrees C (B(n \<mapsto> headerBlock n (C n)))"
    "frontier (B(n \<mapsto> headerBlock n (C n))) (n + 1)"
proof -
  have n1: "n \<noteq> - 1" using assms(5,6) by (rule word_le_not_max)
  have parent: "Hash p = ParentHash (headerBlock n (C n))" if "0 < n" "B (n - 1) = Some p" for p
  proof -
    have "n - 1 < h" using that(1) assms(5) by (metis less_le_trans order_refl word_le_dec)
    then have "h_ParentHash (C (n - 1 + 1)) = h_Hash (C (n - 1))"
      using can unfolding canonical_def by blast
    then show ?thesis using that(2) assms(3) by (simp add: headerBlock_def agrees_def)
  qed
  have idx: "index_ok B" using assms(2) by (simp add: following_def)
  note s = index_ok_save [OF idx assms(4) n1 parent]
  show "frontier (B(n \<mapsto> headerBlock n (C n))) (n + 1)" by (rule s(2))
  show "agrees C (B(n \<mapsto> headerBlock n (C n)))"
    using assms(3) by (auto simp: agrees_def headerBlock_def)
  have "commits par (B(n \<mapsto> headerBlock n (C n)))"
    using assms(2,5) can by (auto simp: following_def commits_def headerBlock_def canonical_def)
  then show "following par h (B(n \<mapsto> headerBlock n (C n)))"
    using s(1) assms(2,5) by (auto simp: following_def)
qed


section \<open>Sync against a reliable store\<close>

lemma triple_no_fail:
  assumes "triple P m Q R" and "\<And>s. P s \<Longrightarrow> is_Ok (fst (m s))"
  shows "triple P m Q (\<lambda>_. False)"
proof (rule tripleI)
  fix s x s' assume "P s" "m s = (Ok x, s')"
  then show "Q x s'" using assms(1) by (rule triple_okD [rotated])
next
  fix s e s' assume "P s" "m s = (Err e, s')"
  then show False using assms(2) [of s] by simp
next
  fix s e s' assume "P s" "m s = (Panic e, s')"
  then show False using assms(2) [of s] by simp
qed

lemma is_Ok_on_fst: "is_Ok (fst (on_fst m w)) = is_Ok (fst (m (fst w)))"
  by (simp add: on_fst_def split: prod.splits)

lemma is_Ok_ignore_err:
  "(\<And>b p. fst (m b) \<noteq> Panic p) \<Longrightarrow> is_Ok (fst (ignore_err (on_snd m) w))"
proof -
  assume np: "\<And>b p. fst (m b) \<noteq> Panic p"
  obtain s b where w: "w = (s, b)" by (cases w)
  obtain r b' where m: "m b = (r, b')" by (cases "m b")
  show ?thesis using np [of b] w m by (cases r) (auto simp: ignore_err_def on_snd_def)
qed

lemma fetchTransfers_total:
  assumes "serves (backend m) C h"
  shows "\<exists>ts. fetchTransfers eth m n = Ok ts"
proof -
  have "is_Ok (FilterLogs (backend m) \<lparr>FromBlock = uint n, ToBlock = uint n,
      Addresses = Tokens (cfg m), Topics = [[TopicID (decoder m)]]\<rparr>)"
    using assms unfolding serves_def by blast
  then show ?thesis by (auto simp: fetchTransfers_def is_Ok_iff)
qed

context reliable_store
begin

lemma bus_ok:
  assumes "bus_total (bus m)"
  shows "triple (W p) (publishBlock eth m b k c) (\<lambda>_. W p) (\<lambda>_. False)"
    and "triple (W p) (publishTransfer eth m t n c) (\<lambda>_. W p) (\<lambda>_. False)"
    and "triple (W p) (ignore_err (on_snd (Publish (bus m) sub d))) (\<lambda>_. W p) (\<lambda>_. False)"
  using assms
  by (auto simp: publishBlock_def publishTransfer_def bus_total_def
        intro!: triple_no_fail [OF bus_rule] is_Ok_ignore_err)

lemma rollback_ok:
  assumes st: "store m = ops" and "bus_total (bus m)" and ix: "indexable n"
    and pq: "\<And>B R. p B R \<Longrightarrow> q (blocks_below n B) (rows_below n R)"
  shows "triple (W p) (rollback m n) (\<lambda>_. W q) (\<lambda>_. False)"
proof -
  let ?r = "\<lambda>B R. p B R \<or> q B R"
  have "triple (W p) (on_fst (DeleteFrom ops n)) (\<lambda>_. W q) (\<lambda>_. False)"
    by (rule triple_no_fail [OF delete_rule [where r = ?r]])
       (auto simp: pq is_Ok_on_fst W_def intro: delete_succeeds ix)
  then show ?thesis
    unfolding rollback_def st by (rule triple_bnd) (rule bus_ok(3) [OF assms(2)])
qed

text \<open>The block below the frontier can be read, and on the canonical chain it is the parent.\<close>

lemma get_below_ok:
  assumes ixs: "\<And>n. n \<le> h \<Longrightarrow> indexable n" and n: "n \<le> h"
  shows "triple (W J) (if n > 0 then on_fst (BlockByNumber ops (n - 1)) else ret None)
    (\<lambda>prev. W (\<lambda>B R. J B R \<and> (\<forall>p. prev = Some p \<longrightarrow> 0 < n \<and> B (n - 1) = Some p))) (\<lambda>_. False)"
proof (rule triple_if)
  assume "0 < n"
  then have "n - 1 \<le> h" using n by (metis less_imp_le less_le_trans order_refl word_le_dec)
  then have ix: "indexable (n - 1)" by (rule ixs)
  have "triple (W J) (on_fst (BlockByNumber ops (n - 1)))
      (\<lambda>x. W (\<lambda>B R. J B R \<and> x = B (n - 1))) (\<lambda>_. False)"
    by (rule triple_no_fail [OF get_rule]) (auto simp: is_Ok_on_fst W_def intro: get_succeeds ix)
  then show "triple (W J) (on_fst (BlockByNumber ops (n - 1)))
      (\<lambda>prev. W (\<lambda>B R. J B R \<and> (\<forall>p. prev = Some p \<longrightarrow> 0 < n \<and> B (n - 1) = Some p))) (\<lambda>_. False)"
    by (rule triple_conseq) (use \<open>0 < n\<close> in \<open>auto elim!: W_conseq\<close>)
next
  show "triple (W J) (ret None)
      (\<lambda>prev. W (\<lambda>B R. J B R \<and> (\<forall>p. prev = Some p \<longrightarrow> 0 < n \<and> B (n - 1) = Some p))) (\<lambda>_. False)"
    by (intro triple_ret) (auto elim!: W_conseq)
qed

lemma canonical_parent:
  assumes "canonical C h par" "agrees C B" "0 < n" "n \<le> h" "B (n - 1) = Some p"
  shows "Hash p = h_ParentHash (C n)"
proof -
  have "n - 1 < h" using assms(3,4) by (metis less_le_trans order_refl word_le_dec)
  then have "h_ParentHash (C (n - 1 + 1)) = h_Hash (C (n - 1))"
    using assms(1) unfolding canonical_def by blast
  then show ?thesis using assms(2,5) by (simp add: agrees_def)
qed

text \<open>One iteration on the canonical chain: no rollback, no failure.\<close>

lemma syncStep_canonical:
  assumes st: "store m = ops" and bs: "bus_total (bus m)"
    and can: "canonical C h par" and srv: "serves (backend m) C h"
    and ixs: "\<And>n. n \<le> h \<Longrightarrow> indexable n"
    and okb: "\<And>n ts. n \<le> h \<Longrightarrow> fetchTransfers eth m n = Ok ts \<Longrightarrow> storable (headerBlock n (C n)) ts"
    and n: "n \<le> h" "h \<noteq> - 1"
  shows "triple (W (\<lambda>B R. following par h B \<and> agrees C B \<and> frontier B n))
    (syncStep eth m (\<lambda>_. None) h n)
    (\<lambda>f w. f = Continue \<and> W (\<lambda>B R. following par h B \<and> agrees C B \<and> frontier B (n + 1) \<and> n \<in> dom B) w)
    (\<lambda>_. False)"
  (is "triple (W ?J) _ ?Q _")
proof -
  let ?K = "\<lambda>prev B R. ?J B R \<and> (\<forall>p. prev = Some p \<longrightarrow> 0 < n \<and> B (n - 1) = Some p)"
  let ?N = "\<lambda>B R. following par h B \<and> agrees C B \<and> frontier B (n + 1) \<and> n \<in> dom B"
  let ?b = "headerBlock n (C n)"
  have hdr: "HeaderByNumber (backend m) (Some (uint n)) = Ok (C n)"
    using srv n unfolding serves_def by blast
  obtain ts where ts: "fetchTransfers eth m n = Ok ts"
    using fetchTransfers_total [OF srv] by blast
  have get: "triple (W ?J) (if n > 0 then on_fst (BlockByNumber ops (n - 1)) else ret None)
      (\<lambda>prev. W (?K prev)) (\<lambda>_. False)"
    by (rule get_below_ok [OF ixs n(1)])
  have fits: "Hash p = h_ParentHash (C n)" if "?K (Some p) B R" for p B R
    using that by (intro canonical_parent [OF can _ _ n(1), of B]) auto
  have save: "triple (W ?J) (on_fst (SaveBlock ops ?b ts c)) (\<lambda>_. W ?N) (\<lambda>_. False)" for c
  proof (rule triple_no_fail [OF save_rule [where r = "\<lambda>_ _. True"]])
    fix B R R' assume J: "?J B R"
    have "Number ?b = n" by (simp add: headerBlock_def)
    then show "?N (B(Number ?b \<mapsto> ?b)) R'"
      using following_save [OF can, of B n] J n by simp
  qed (simp_all add: is_Ok_on_fst W_def save_succeeds okb n ts)
  have publish: "triple (W ?N) (bnd (publishBlock eth m ?b k c) (\<lambda>_.
      bnd (for_each ts (\<lambda>t. publishTransfer eth m t n c)) (\<lambda>_. ret Continue))) ?Q (\<lambda>_. False)" for k c
    by (intro triple_bnd [where M = "\<lambda>_. W ?N"] bus_ok [OF bs] triple_for_each triple_ret) simp_all
  have rest: "triple (W (?K prev))
      (if (case prev of Some p \<Rightarrow> Hash p \<noteq> h_ParentHash (C n) | None \<Rightarrow> False)
       then bnd (rollback m (n - 1)) (\<lambda>_. ret Return)
       else bnd (on_fst (SaveBlock ops ?b ts c)) (\<lambda>_.
         bnd (publishBlock eth m ?b k c) (\<lambda>_.
         bnd (for_each ts (\<lambda>t. publishTransfer eth m t n c)) (\<lambda>_. ret Continue)))) ?Q (\<lambda>_. False)"
    for prev k c
  proof (cases "\<exists>p. prev = Some p \<and> Hash p \<noteq> h_ParentHash (C n)")
    case True
    then have "\<not> ?K prev B R" for B R using fits by blast
    then show ?thesis by (intro triple_pre_false) (simp only: W_def, blast)
  next
    case False
    have "triple (W (?K prev)) (bnd (on_fst (SaveBlock ops ?b ts c)) (\<lambda>_.
         bnd (publishBlock eth m ?b k c) (\<lambda>_.
         bnd (for_each ts (\<lambda>t. publishTransfer eth m t n c)) (\<lambda>_. ret Continue)))) ?Q (\<lambda>_. False)"
      by (rule triple_conseq [OF triple_bnd [OF save publish]]) (auto elim: W_conseq)
    then show ?thesis using False by (auto split: option.splits)
  qed
  show ?thesis
    unfolding syncStep_def Let_def option.case hdr ts st lift_Ok ret_bnd
    by (rule triple_bnd [OF get rest])
qed

text \<open>A canonical tip: the loop may begin above it.\<close>

lemma tip_advance:
  assumes "canonical C h par" "following par h B0" "is_last B0 (Some b)" "h_Hash (C (Number b)) = Hash b" "h \<noteq> - 1"
  shows "agrees C B0" "frontier B0 (Number b + 1)" "Number b + 1 \<le> h + 1" "B0 \<noteq> Map.empty"
proof -
  have bh: "Number b \<le> h" using assms(2,3) by (auto simp: following_def is_last_def)
  then have "Number b \<noteq> - 1" using assms(5) by (rule word_le_not_max)
  then show "Number b + 1 \<le> h + 1" using bh assms(5) by (simp add: word_le_nat_alt unat_inc)
  show "agrees C B0" using tip_match [OF assms(1) _ assms(3)] assms(2,4) by simp
  show "frontier B0 (Number b + 1)" using frontier_after_last [OF assms(3)] assms(2) by (simp add: following_def)
  show "B0 \<noteq> Map.empty" using assms(3) by (auto simp: is_last_def)
qed

text \<open>The start of \<^verbatim>\<open>Sync\<close>: either the tip is stale and goes, or the index is canonical.\<close>

lemma syncStart_canonical:
  assumes st: "store m = ops" and bs: "bus_total (bus m)"
    and can: "canonical C h par" and srv: "serves (backend m) C h"
    and ixs: "\<And>n. n \<le> h \<Longrightarrow> indexable n"
    and start: "StartBlock (cfg m) \<le> h" and h1: "h \<noteq> - 1"
  shows "triple (W (\<lambda>B R. B = B0 \<and> following par h B0)) (syncStart m)
    (\<lambda>x w. case x of
        None \<Rightarrow> stale C B0 \<noteq> {} \<and>
          W (\<lambda>B R. following par h B \<and> card (stale C B) < card (stale C B0)) w
      | Some (hn, f) \<Rightarrow> hn = h \<and> f \<le> h + 1 \<and> stale C B0 = {} \<and>
          W (\<lambda>B R. following par h B \<and> agrees C B \<and> frontier B f \<and> (B = Map.empty \<longrightarrow> f \<le> h)) w)
    (\<lambda>_. False)"
  (is "triple (W ?P) _ ?Q _")
proof -
  have hdr: "HeaderByNumber (backend m) None = Ok (C h)" and num: "h_Number (C h) = uint h"
    using srv can unfolding serves_def canonical_def by auto
  have last: "triple (W ?P) (on_fst (LastBlock ops))
      (\<lambda>x. W (\<lambda>B R. ?P B R \<and> is_last B x)) (\<lambda>_. False)"
    by (rule triple_no_fail [OF last_rule]) (auto simp: is_Ok_on_fst W_def intro: last_succeeds)
  have tail: "triple (W (\<lambda>B R. ?P B R \<and> is_last B last))
      (case last of
           None \<Rightarrow> ret (Some (h, StartBlock (cfg m)))
         | Some b \<Rightarrow>
             bnd (lift (HeaderByNumber (backend m) (Some (uint (Number b))))) (\<lambda>canon.
               if h_Hash canon \<noteq> Hash b
               then bnd (rollback m (Number b)) (\<lambda>_. ret None)
               else ret (Some (h, Number b + 1)))) ?Q (\<lambda>_. False)" for last
  proof (cases "is_last B0 last \<and> following par h B0")
    case False
    then show ?thesis by (auto simp: triple_def W_def)
  next
    case True
    show ?thesis
    proof (cases last)
      case None
      then have "B0 = Map.empty" using True by (simp add: is_last_def)
      then show ?thesis
        using None start h1
        by (auto intro!: triple_ret elim!: W_conseq simp: stale_def agrees_def word_less_inc [symmetric] less_imp_le)
    next
      case (Some b)
      have lb: "is_last B0 (Some b)" using True Some by simp
      then have bh: "Number b \<le> h" and b1: "Number b \<in> dom B0"
        using True by (auto simp: following_def is_last_def)
      then have hb: "HeaderByNumber (backend m) (Some (uint (Number b))) = Ok (C (Number b))"
        using srv unfolding serves_def by blast
      show ?thesis
      proof (cases "h_Hash (C (Number b)) = Hash b")
        case False
        have "Number b \<in> stale C B0" using False lb by (auto simp: stale_def is_last_def)
        moreover have "card (stale C (blocks_below (Number b) B0)) < card (stale C B0)"
          using stale_rollback [OF lb, of C] False True by auto
        ultimately have "triple (W (\<lambda>B R. ?P B R \<and> is_last B last))
            (bnd (rollback m (Number b)) (\<lambda>_. ret None)) ?Q (\<lambda>_. False)"
          by (intro triple_bnd [OF rollback_ok [OF st bs ixs [OF bh], where
                q = "\<lambda>B R. following par h B \<and> card (stale C B) < card (stale C B0)"]])
             (auto intro!: triple_ret following_below)
        then show ?thesis unfolding Some option.case hb lift_Ok ret_bnd using False by simp
      next
        case match: True
        note tip = tip_advance [OF can _ lb match h1]
        have "triple (W (\<lambda>B R. ?P B R \<and> is_last B last)) (ret (Some (h, Number b + 1))) ?Q (\<lambda>_. False)"
          using tip True by (auto intro!: triple_ret elim!: W_conseq simp: agrees_iff_stale)
        then show ?thesis unfolding Some option.case hb lift_Ok ret_bnd using match by simp
      qed
    qed
  qed
  show ?thesis
    unfolding syncStart_def Let_def st hdr lift_Ok ret_bnd num
    unfolding word_of_int_uint by (rule triple_bnd [OF last tail])
qed

text \<open>The loop from the frontier of a canonical index: it ends with the head indexed.\<close>

lemma syncLoop_canonical:
  assumes st: "store m = ops" and bs: "bus_total (bus m)"
    and can: "canonical C h par" and srv: "serves (backend m) C h"
    and ixs: "\<And>n. n \<le> h \<Longrightarrow> indexable n"
    and okb: "\<And>n ts. n \<le> h \<Longrightarrow> fetchTransfers eth m n = Ok ts \<Longrightarrow> storable (headerBlock n (C n)) ts"
    and h1: "h \<noteq> - 1" and f: "f \<le> h + 1"
    and pre: "W (\<lambda>B R. following par h B \<and> agrees C B \<and> frontier B f \<and> (B = Map.empty \<longrightarrow> f \<le> h)) w"
  shows "\<exists>w'. syncLoop eth m (\<lambda>_. None) h f w = Some (Ok Continue, w') \<and>
    W (\<lambda>B R. following par h B \<and> synced C h B \<and> stale C B = {}) w'"
proof -
  let ?L = "\<lambda>n w. n \<le> h + 1 \<and> W (\<lambda>B R. following par h B \<and> agrees C B \<and> frontier B n \<and>
    (B = Map.empty \<longrightarrow> n \<le> h)) w"
  have step: "triple (?L n) (syncStep eth m (\<lambda>_. None) h n)
      (\<lambda>f w. case f of Continue \<Rightarrow> ?L (n + 1) w | Return \<Rightarrow> False) (\<lambda>_. False)" if "n \<le> h" for n
  proof -
    have "n \<noteq> - 1" using that h1 by (rule word_le_not_max)
    then have "n + 1 \<le> h + 1" using that h1 by (simp add: word_le_nat_alt unat_inc)
    then show ?thesis
      by (intro triple_conseq [OF syncStep_canonical [OF st bs can srv ixs okb that h1]])
         (auto elim!: W_conseq)
  qed
  have L: "?L f w" using f pre by simp
  obtain r w' where eq: "syncLoop eth m (\<lambda>_. None) h f w = Some (r, w')"
    and "case r of Ok Continue \<Rightarrow> (\<exists>k. h < k \<and> (f \<le> h \<longrightarrow> k = h + 1) \<and> ?L k w')
         | Ok Return \<Rightarrow> False | _ \<Rightarrow> False"
    using syncLoop_rule [where I = ?L and Q = "\<lambda>_. False" and R = "\<lambda>_. False", OF h1 step L] by blast
  then obtain k where r: "r = Ok Continue" and k: "h < k" "?L k w'"
    by (auto split: result.splits flow.splits)
  have h2: "\<not> k < h + 1" "\<not> h + 1 \<le> h" using k(1) h1 by (simp_all add: word_less_inc not_le)
  then have "k = h + 1" using k(2) by auto
  then have W: "W (\<lambda>B R. following par h B \<and> agrees C B \<and> frontier B (h + 1) \<and> (B = Map.empty \<longrightarrow> h + 1 \<le> h)) w'"
    using k(2) by blast
  have "W (\<lambda>B R. following par h B \<and> synced C h B \<and> stale C B = {}) w'"
    by (rule W_conseq [OF W]) (use h2 in \<open>auto simp: frontier_def synced_def following_def index_ok_def agrees_iff_stale\<close>)
  then show ?thesis using eq r by blast
qed

text \<open>
  One \<^verbatim>\<open>Sync\<close> while the node serves the canonical chain: it returns without error; if the index
  holds a stale block, it holds fewer afterwards; otherwise the index is synced.
\<close>

lemma Sync_canonical:
  assumes st: "store m = ops" and bs: "bus_total (bus m)"
    and can: "canonical C h par" and srv: "serves (backend m) C h"
    and ixs: "\<And>n. n \<le> h \<Longrightarrow> indexable n"
    and okb: "\<And>n ts. n \<le> h \<Longrightarrow> fetchTransfers eth m n = Ok ts \<Longrightarrow> storable (headerBlock n (C n)) ts"
    and start: "StartBlock (cfg m) \<le> h" and h1: "h \<noteq> - 1"
    and pre: "W (\<lambda>B R. B = B0 \<and> following par h B0) w"
  shows "\<exists>w'. Sync eth m (\<lambda>_. None) w = Some (Ok (), w') \<and>
    W (\<lambda>B R. following par h B \<and>
         (if stale C B0 = {} then synced C h B \<and> stale C B = {}
          else card (stale C B) < card (stale C B0))) w'"
  (is "\<exists>w'. _ \<and> W ?post w'")
proof -
  let ?J = "\<lambda>hn f w. hn = h \<and> stale C B0 = {} \<and> f \<le> h + 1 \<and>
    W (\<lambda>B R. following par h B \<and> agrees C B \<and> frontier B f \<and> (B = Map.empty \<longrightarrow> f \<le> h)) w"
  let ?K = "\<lambda>hn w. hn = h \<and> W ?post w"
  have start': "triple (W (\<lambda>B R. B = B0 \<and> following par h B0)) (syncStart m)
      (\<lambda>x w. case x of None \<Rightarrow> W ?post w | Some (hn, f) \<Rightarrow> ?J hn f w) (\<lambda>_. False)"
    by (rule triple_conseq [OF syncStart_canonical [OF st bs can srv ixs start h1]])
       (auto split: option.splits elim!: W_conseq)
  have loop: "\<exists>r w'. syncLoop eth m (\<lambda>_. None) hn f w = Some (r, w') \<and>
      (case r of Ok Continue \<Rightarrow> ?K hn w' | Ok Return \<Rightarrow> W ?post w' | _ \<Rightarrow> False)"
    if J: "?J hn f w" for hn f w
  proof -
    have f: "f \<le> h + 1" and W: "W (\<lambda>B R. following par h B \<and> agrees C B \<and> frontier B f \<and> (B = Map.empty \<longrightarrow> f \<le> h)) w"
      using J by simp_all
    obtain w' where "syncLoop eth m (\<lambda>_. None) h f w = Some (Ok Continue, w')"
      "W (\<lambda>B R. following par h B \<and> synced C h B \<and> stale C B = {}) w'"
      using syncLoop_canonical [OF st bs can srv ixs okb h1 f W] by blast
    then show ?thesis using J by (intro exI [of _ "Ok Continue"] exI [of _ w']) (auto elim: W_conseq)
  qed
  have fin: "triple (?K hn) (syncFinish m hn) (\<lambda>_. W ?post) (\<lambda>_. False)" for hn
  proof -
    have conf: "triple (W ?post) (on_fst (ConfirmThrough ops j)) (\<lambda>_. W ?post) (\<lambda>_. False)"
      if "j \<le> h" for j
      by (rule triple_no_fail [OF confirm_rule [where r = ?post]])
         (simp_all add: is_Ok_on_fst W_def confirm_succeeds ixs that)
    have "triple (W ?post) (syncFinish m h) (\<lambda>_. W ?post) (\<lambda>_. False)"
      unfolding syncFinish_def st
      by (rule triple_if) (rule conf, erule word_sub_le, rule triple_ret)
    then show ?thesis
      by (cases "hn = h") (simp_all add: triple_pre_false)
  qed
  obtain r w' where eq: "Sync eth m (\<lambda>_. None) w = Some (r, w')"
    and "case r of Ok u \<Rightarrow> W ?post w' | _ \<Rightarrow> False"
    using Sync_rule [where Q = "W ?post" and R = "\<lambda>_. False", OF start' loop fin pre] by blast
  then show ?thesis by (cases r) auto
qed

text \<open>
  Convergence: with \<open>d\<close> stale blocks in the index, any number of polls above \<open>d\<close> ends with the
  index equal to the canonical chain up to the head.
\<close>

lemma Run_converges:
  assumes st: "store m = ops" and bs: "bus_total (bus m)"
    and can: "canonical C h par" and srv: "serves be C h"
    and ixs: "\<And>n. n \<le> h \<Longrightarrow> indexable n"
    and okb: "\<And>n ts. n \<le> h \<Longrightarrow> fetchTransfers eth (m\<lparr>backend := be\<rparr>) n = Ok ts \<Longrightarrow>
        storable (headerBlock n (C n)) ts"
    and start: "StartBlock (cfg m) \<le> h" and h1: "h \<noteq> - 1"
    and pre: "W (\<lambda>B R. following par h B \<and> card (stale C B) < k) w"
  shows "\<exists>w'. Run eth m (replicate k \<lparr>p_backend = be, p_ctx = (\<lambda>_. None), p_done = False\<rparr>) w
      = Some (Ok (), w') \<and> W (\<lambda>B R. synced C h B) w'"
  using pre
proof (induction k arbitrary: w)
  case 0
  then show ?case by (simp add: W_def)
next
  case (Suc k)
  let ?m = "m\<lparr>backend := be\<rparr>"
  let ?B = "blocks (fst w)"
  have pre': "W (\<lambda>B R. B = ?B \<and> following par h ?B) w"
    and bad: "card (stale C ?B) < Suc k"
    using Suc.prems by (auto simp: W_def)
  have m: "store ?m = ops" "bus_total (bus ?m)" "serves (backend ?m) C h" "StartBlock (cfg ?m) \<le> h"
    using st bs srv start by simp_all
  obtain w1 where S: "Sync eth ?m (\<lambda>_. None) w = Some (Ok (), w1)"
    and post: "W (\<lambda>B R. following par h B \<and>
         (if stale C ?B = {} then synced C h B \<and> stale C B = {}
          else card (stale C B) < card (stale C ?B))) w1"
    using Sync_canonical [OF m(1,2) can m(3) ixs okb m(4) h1 pre'] by blast
  show ?case
  proof (cases k)
    case 0
    then have "stale C ?B = {}" using bad by simp
    then show ?thesis using S post 0 by (auto elim: W_conseq)
  next
    case (Suc k')
    have "W (\<lambda>B R. following par h B \<and> card (stale C B) < k) w1"
      using post bad Suc by (auto elim!: W_conseq split: if_splits)
    from Suc.IH [OF this] show ?thesis using S by simp
  qed
qed

end

end
