(* ===== verification/Go_Json.thy ===== *)
theory Go_Json
  imports Go_Text Events
begin

text \<open>
  The parts of \<^verbatim>\<open>encoding/json\<close> the platform uses, on byte strings: \<^verbatim>\<open>Marshal\<close> of the values in
  \<open>any\<close> (with HTML escaping, sorted map keys and RFC 3339 times), the grammar of JSON texts with the
  decoder's nesting limit, and the fold that matches object keys to struct fields.
\<close>

section \<open>Times\<close>

text \<open>Calendar date of a day number since 1970-01-01 (proleptic Gregorian calendar): the era of
  400 years, the day in the era, the year counted from March.\<close>

definition civil :: "int \<Rightarrow> int \<times> int \<times> int" where
  "civil days =
     (let z = days + 719468;
          era = z div 146097;
          doe = z - era * 146097;
          yoe = (doe - doe div 1460 + doe div 36524 - doe div 146096) div 365;
          doy = doe - (365 * yoe + yoe div 4 - yoe div 100);
          mp = (5 * doy + 2) div 153;
          d = doy - (153 * mp + 2) div 5 + 1;
          m = (if mp < 10 then mp + 3 else mp - 9);
          y = yoe + era * 400 + (if m \<le> 2 then 1 else 0)
      in (y, m, d))"

fun digits :: "nat \<Rightarrow> nat \<Rightarrow> string" where
  "digits 0 n = []"
| "digits (Suc k) n = digits k (n div 10) @ [digit_char (n mod 10)]"

text \<open>\<^verbatim>\<open>.999999999\<close>: the nanoseconds without trailing zeros, nothing when there are none.\<close>

definition fraction :: "nat \<Rightarrow> string" where
  "fraction ns = (if ns = 0 then [] else CHR ''.'' # rev (dropWhile (\<lambda>c. c = CHR ''0'') (rev (digits 9 ns))))"

text \<open>\<^verbatim>\<open>Time.MarshalJSON\<close> of a UTC time, given in nanoseconds since the epoch, without the quotes.\<close>

definition timeText :: "int \<Rightarrow> string option" where
  "timeText t =
     (let sec = t div 1000000000; ns = nat (t mod 1000000000);
          (y, m, d) = civil (sec div 86400);
          sod = nat (sec mod 86400)
      in if y < 0 \<or> 9999 < y then None
         else Some (digits 4 (nat y) @ ''-'' @ digits 2 (nat m) @ ''-'' @ digits 2 (nat d) @ ''T'' @
                digits 2 (sod div 3600) @ '':'' @ digits 2 (sod div 60 mod 60) @ '':'' @ digits 2 (sod mod 60) @
                fraction ns @ ''Z''))"


section \<open>UTF-8\<close>

definition byte :: "char \<Rightarrow> nat" where
  "byte c = of_char c"

definition isCont :: "nat \<Rightarrow> nat \<Rightarrow> char \<Rightarrow> bool" where
  "isCont lo hi c \<longleftrightarrow> lo \<le> byte c \<and> byte c \<le> hi"

text \<open>\<^verbatim>\<open>utf8.DecodeRune\<close>: the length of the first rune when it is well formed (\<open>0\<close> when it is not).\<close>

definition runeLen :: "string \<Rightarrow> nat" where
  "runeLen s =
     (case s of
        [] \<Rightarrow> 0
      | c # cs \<Rightarrow>
          let b = byte c in
          if b < 0x80 then 1
          else if 0xC2 \<le> b \<and> b \<le> 0xDF then
            (case cs of c1 # _ \<Rightarrow> if isCont 0x80 0xBF c1 then 2 else 0 | _ \<Rightarrow> 0)
          else if 0xE0 \<le> b \<and> b \<le> 0xEF then
            (case cs of c1 # c2 # _ \<Rightarrow>
               if isCont (if b = 0xE0 then 0xA0 else 0x80) (if b = 0xED then 0x9F else 0xBF) c1 \<and> isCont 0x80 0xBF c2
               then 3 else 0 | _ \<Rightarrow> 0)
          else if 0xF0 \<le> b \<and> b \<le> 0xF4 then
            (case cs of c1 # c2 # c3 # _ \<Rightarrow>
               if isCont (if b = 0xF0 then 0x90 else 0x80) (if b = 0xF4 then 0x8F else 0xBF) c1 \<and>
                  isCont 0x80 0xBF c2 \<and> isCont 0x80 0xBF c3
               then 4 else 0 | _ \<Rightarrow> 0)
          else 0)"

text \<open>\<^verbatim>\<open>utf8.AppendRune\<close>; code points that are not runes give U+FFFD.\<close>

definition encodeRune :: "nat \<Rightarrow> string" where
  "encodeRune r0 =
     (let r = (if (0xD800 \<le> r0 \<and> r0 \<le> 0xDFFF) \<or> 0x10FFFF < r0 then 0xFFFD else r0);
          tail = (\<lambda>k. char_of (0x80 + r div 64 ^ k mod 64))
      in if r < 0x80 then [char_of r]
         else if r < 0x800 then [char_of (0xC0 + r div 64), tail 0]
         else if r < 0x10000 then [char_of (0xE0 + r div 64 ^ 2), tail 1, tail 0]
         else [char_of (0xF0 + r div 64 ^ 3), tail 2, tail 1, tail 0])"


section \<open>Marshal\<close>

definition hexDigit :: "nat \<Rightarrow> char" where
  "hexDigit d = char_of (if d < 10 then 48 + d else 87 + d)"

definition escapeByte :: "char \<Rightarrow> string" where
  "escapeByte c =
     (let b = byte c in
      if b = 0x22 then [CHR 0x5C, CHR 0x22]
      else if b = 0x5C then [CHR 0x5C, CHR 0x5C]
      else if b = 8 then [CHR 0x5C, CHR ''b'']
      else if b = 12 then [CHR 0x5C, CHR ''f'']
      else if b = 10 then [CHR 0x5C, CHR ''n'']
      else if b = 13 then [CHR 0x5C, CHR ''r'']
      else if b = 9 then [CHR 0x5C, CHR ''t'']
      else if b < 0x20 \<or> b = 0x3C \<or> b = 0x3E \<or> b = 0x26
      then [CHR 0x5C, CHR ''u'', CHR ''0'', CHR ''0'', hexDigit (b div 16), hexDigit (b mod 16)]
      else [c])"

fun quoteBody :: "nat \<Rightarrow> string \<Rightarrow> string" where
  "quoteBody 0 s = []"
| "quoteBody (Suc k) [] = []"
| "quoteBody (Suc k) (c # cs) =
     (if byte c < 0x80 then escapeByte c @ quoteBody k cs
      else if runeLen (c # cs) = 0 then CHR 0x5C # ''ufffd'' @ quoteBody k cs
      else let n = runeLen (c # cs); r = take n (c # cs) in
        (if r = [CHR 0xE2, CHR 0x80, CHR 0xA8] then CHR 0x5C # ''u2028''
         else if r = [CHR 0xE2, CHR 0x80, CHR 0xA9] then CHR 0x5C # ''u2029''
         else r) @ quoteBody k (drop n (c # cs)))"

definition quote :: "string \<Rightarrow> string" where
  "quote s = CHR 0x22 # quoteBody (length s) s @ [CHR 0x22]"

fun sep_by :: "string \<Rightarrow> string list \<Rightarrow> string" where
  "sep_by sep [] = []"
| "sep_by sep [x] = x"
| "sep_by sep (x # y # ys) = x @ sep @ sep_by sep (y # ys)"

fun sequence_opt :: "'a option list \<Rightarrow> 'a list option" where
  "sequence_opt [] = Some []"
| "sequence_opt (None # xs) = None"
| "sequence_opt (Some x # xs) = map_option (Cons x) (sequence_opt xs)"

fun keyLess :: "string \<Rightarrow> string \<Rightarrow> bool" where
  "keyLess a [] = False"
| "keyLess [] (b # bs) = True"
| "keyLess (a # as) (b # bs) = (byte a < byte b \<or> a = b \<and> keyLess as bs)"

fun insertKey :: "(string \<times> 'a) \<Rightarrow> (string \<times> 'a) list \<Rightarrow> (string \<times> 'a) list" where
  "insertKey x [] = [x]"
| "insertKey x (y # ys) = (if keyLess (fst y) (fst x) then y # insertKey x ys else x # y # ys)"

definition sortKeys :: "(string \<times> 'a) list \<Rightarrow> (string \<times> 'a) list" where
  "sortKeys kvs = foldr insertKey kvs []"

definition objectText :: "(string \<times> string) list \<Rightarrow> string" where
  "objectText kvs = ''{'' @ sep_by '','' (map (\<lambda>(k, v). quote k @ '':'' @ v) kvs) @ ''}''"

text \<open>\<^verbatim>\<open>json.Marshal\<close>; \<open>None\<close> for a time outside the years 0 to 9999.\<close>

fun marshal :: "any \<Rightarrow> string option" where
  "marshal ANil = Some ''null''"
| "marshal (ABool b) = Some (if b then ''true'' else ''false'')"
| "marshal (AInt i) = Some (itoa i)"
| "marshal (AString s) = Some (quote s)"
| "marshal (ATime t) = map_option (\<lambda>s. CHR 0x22 # s @ [CHR 0x22]) (timeText t)"
| "marshal (ASlice vs) = map_option (\<lambda>ts. ''['' @ sep_by '','' ts @ '']'') (sequence_opt (map marshal vs))"
| "marshal (AMap kvs) = map_option objectText
     (sequence_opt (map (\<lambda>(k, t). map_option (Pair k) t) (sortKeys (map (\<lambda>(k, v). (k, marshal v)) kvs))))"
| "marshal (AStruct kvs) = map_option objectText
     (sequence_opt (map (\<lambda>(k, v). map_option (Pair k) (marshal v)) kvs))"


section \<open>Parsing\<close>

datatype json =
    JNull
  | JBool bool
  | JNum string
  | JStr string
  | JArr "json list"
  | JObj "(string \<times> json) list"

definition isSpace :: "char \<Rightarrow> bool" where
  "isSpace c \<longleftrightarrow> byte c \<in> {0x20, 9, 10, 13}"

definition skipSpace :: "string \<Rightarrow> string" where
  "skipSpace s = dropWhile isSpace s"

definition hexVal :: "char \<Rightarrow> nat option" where
  "hexVal c =
     (let b = byte c in
      if 48 \<le> b \<and> b \<le> 57 then Some (b - 48)
      else if 97 \<le> b \<and> b \<le> 102 then Some (b - 87)
      else if 65 \<le> b \<and> b \<le> 70 then Some (b - 55)
      else None)"

definition hex4 :: "string \<Rightarrow> (nat \<times> string) option" where
  "hex4 s =
     (case s of
        a # b # c # d # rest \<Rightarrow>
          (case (hexVal a, hexVal b, hexVal c, hexVal d) of
             (Some w, Some x, Some y, Some z) \<Rightarrow> Some (((w * 16 + x) * 16 + y) * 16 + z, rest)
           | _ \<Rightarrow> None)
      | _ \<Rightarrow> None)"

text \<open>A \<^verbatim>\<open>\u\<close> escape after its \<^verbatim>\<open>u\<close>: a high surrogate takes the low surrogate escape that follows;
  a surrogate on its own stands for U+FFFD.\<close>

definition unicodeEscape :: "string \<Rightarrow> (string \<times> string) option" where
  "unicodeEscape s =
     (case hex4 s of
        None \<Rightarrow> None
      | Some (r, rest) \<Rightarrow>
          if 0xD800 \<le> r \<and> r \<le> 0xDBFF then
            (case rest of
               b # u # rest' \<Rightarrow>
                 if b = CHR 0x5C \<and> u = CHR ''u'' then
                   (case hex4 rest' of
                      Some (r2, rest'') \<Rightarrow>
                        if 0xDC00 \<le> r2 \<and> r2 \<le> 0xDFFF
                        then Some (encodeRune ((r - 0xD800) * 0x400 + (r2 - 0xDC00) + 0x10000), rest'')
                        else Some (encodeRune 0xFFFD, rest)
                    | None \<Rightarrow> Some (encodeRune 0xFFFD, rest))
                 else Some (encodeRune 0xFFFD, rest)
             | _ \<Rightarrow> Some (encodeRune 0xFFFD, rest))
          else Some (encodeRune r, rest))"

definition simpleEscape :: "char \<Rightarrow> char option" where
  "simpleEscape c =
     (if c \<in> {CHR 0x22, CHR 0x5C, CHR ''/''} then Some c
      else if c = CHR ''b'' then Some (CHR 0x08)
      else if c = CHR ''f'' then Some (CHR 0x0C)
      else if c = CHR ''n'' then Some (CHR 0x0A)
      else if c = CHR ''r'' then Some (CHR 0x0D)
      else if c = CHR ''t'' then Some (CHR 0x09)
      else None)"

text \<open>The inside of a string literal up to its closing quote: the bytes it denotes and the rest.
  The first argument bounds the number of steps; the length of the text is enough.\<close>

fun parseString :: "nat \<Rightarrow> string \<Rightarrow> (string \<times> string) option" where
  "parseString 0 s = None"
| "parseString (Suc k) [] = None"
| "parseString (Suc k) (c # cs) =
     (if c = CHR 0x22 then Some ([], cs)
      else if c = CHR 0x5C then
        (case cs of
           [] \<Rightarrow> None
         | e # es \<Rightarrow>
             (if e = CHR ''u'' then
                (case unicodeEscape es of
                   None \<Rightarrow> None
                 | Some (r, rest) \<Rightarrow> map_option (\<lambda>(t, rest'). (r @ t, rest')) (parseString k rest))
              else case simpleEscape e of
                  None \<Rightarrow> None
                | Some x \<Rightarrow> map_option (\<lambda>(t, rest'). (x # t, rest')) (parseString k es)))
      else if byte c < 0x20 then None
      else if byte c < 0x80 then map_option (\<lambda>(t, rest'). (c # t, rest')) (parseString k cs)
      else if runeLen (c # cs) = 0
      then map_option (\<lambda>(t, rest'). (encodeRune 0xFFFD @ t, rest')) (parseString k cs)
      else let n = runeLen (c # cs) in
        map_option (\<lambda>(t, rest'). (take n (c # cs) @ t, rest')) (parseString k (drop n (c # cs))))"

text \<open>The longest number at the front of a text: sign, integer part without leading zeros, fraction,
  exponent.\<close>

definition spanDigits :: "string \<Rightarrow> string \<times> string" where
  "spanDigits s = (takeWhile is_digit s, dropWhile is_digit s)"

definition parseInteger :: "string \<Rightarrow> (string \<times> string) option" where
  "parseInteger s =
     (case s of
        [] \<Rightarrow> None
      | c # cs \<Rightarrow>
          if c = CHR ''0'' then Some ([c], cs)
          else if is_digit c then Some (spanDigits s)
          else None)"

definition parseFraction :: "string \<Rightarrow> (string \<times> string) option" where
  "parseFraction s =
     (case s of
        c # cs \<Rightarrow>
          if c = CHR ''.'' then
            (case spanDigits cs of (ds, rest) \<Rightarrow> if ds = [] then None else Some (c # ds, rest))
          else Some ([], s)
      | [] \<Rightarrow> Some ([], []))"

definition parseExponent :: "string \<Rightarrow> (string \<times> string) option" where
  "parseExponent s =
     (case s of
        c # cs \<Rightarrow>
          if c = CHR ''e'' \<or> c = CHR ''E'' then
            (let (sg, cs') = (case cs of
                    x # xs \<Rightarrow> if x = CHR ''+'' \<or> x = CHR ''-'' then ([x], xs) else ([], cs)
                  | [] \<Rightarrow> ([], cs))
             in case spanDigits cs' of (ds, rest) \<Rightarrow> if ds = [] then None else Some (c # sg @ ds, rest))
          else Some ([], s)
      | [] \<Rightarrow> Some ([], []))"

definition parseNumber :: "string \<Rightarrow> (string \<times> string) option" where
  "parseNumber s =
     (let (sg, s1) = (case s of c # cs \<Rightarrow> if c = CHR ''-'' then ([c], cs) else ([], s) | [] \<Rightarrow> ([], s)) in
      case parseInteger s1 of
        None \<Rightarrow> None
      | Some (i, s2) \<Rightarrow>
          (case parseFraction s2 of
             None \<Rightarrow> None
           | Some (f, s3) \<Rightarrow>
               (case parseExponent s3 of
                  None \<Rightarrow> None
                | Some (e, s4) \<Rightarrow> Some (sg @ i @ f @ e, s4))))"

definition maxNestingDepth :: nat where
  "maxNestingDepth = 10000"

definition literal :: "string \<Rightarrow> string \<Rightarrow> string option" where
  "literal w s = (if take (length w) s = w then Some (drop (length w) s) else None)"

text \<open>A value (after leading space), the remaining elements of an array, the remaining members of
  an object. The first argument bounds the number of steps, the second is the nesting depth.\<close>

fun parseValue :: "nat \<Rightarrow> nat \<Rightarrow> string \<Rightarrow> (json \<times> string) option"
  and parseElems :: "nat \<Rightarrow> nat \<Rightarrow> string \<Rightarrow> (json list \<times> string) option"
  and parseMembers :: "nat \<Rightarrow> nat \<Rightarrow> string \<Rightarrow> ((string \<times> json) list \<times> string) option" where
  "parseValue 0 d s = None"
| "parseValue (Suc k) d s =
     (case skipSpace s of
        [] \<Rightarrow> None
      | c # cs \<Rightarrow>
          if c = CHR 0x22 then map_option (\<lambda>(t, r). (JStr t, r)) (parseString (length cs) cs)
          else if c = CHR ''{'' then
            (if maxNestingDepth \<le> d then None
             else case skipSpace cs of
                 x # xs \<Rightarrow> if x = CHR ''}'' then Some (JObj [], xs)
                           else map_option (\<lambda>(ms, r). (JObj ms, r)) (parseMembers k (Suc d) cs)
               | [] \<Rightarrow> None)
          else if c = CHR ''['' then
            (if maxNestingDepth \<le> d then None
             else case skipSpace cs of
                 x # xs \<Rightarrow> if x = CHR '']'' then Some (JArr [], xs)
                           else map_option (\<lambda>(vs, r). (JArr vs, r)) (parseElems k (Suc d) cs)
               | [] \<Rightarrow> None)
          else if c = CHR ''t'' then map_option (Pair (JBool True)) (literal ''true'' (c # cs))
          else if c = CHR ''f'' then map_option (Pair (JBool False)) (literal ''false'' (c # cs))
          else if c = CHR ''n'' then map_option (Pair JNull) (literal ''null'' (c # cs))
          else map_option (\<lambda>(t, r). (JNum t, r)) (parseNumber (c # cs)))"
| "parseElems 0 d s = None"
| "parseElems (Suc k) d s =
     (case parseValue k d s of
        None \<Rightarrow> None
      | Some (v, rest) \<Rightarrow>
          (case skipSpace rest of
             c # cs \<Rightarrow>
               if c = CHR '','' then map_option (\<lambda>(vs, r). (v # vs, r)) (parseElems k d cs)
               else if c = CHR '']'' then Some ([v], cs)
               else None
           | [] \<Rightarrow> None))"
| "parseMembers 0 d s = None"
| "parseMembers (Suc k) d s =
     (case skipSpace s of
        q # cs \<Rightarrow>
          if q \<noteq> CHR 0x22 then None
          else (case parseString (length cs) cs of
             None \<Rightarrow> None
           | Some (key, rest) \<Rightarrow>
               (case skipSpace rest of
                  co # rest' \<Rightarrow>
                    if co \<noteq> CHR '':'' then None
                    else (case parseValue k d rest' of
                       None \<Rightarrow> None
                     | Some (v, rest'') \<Rightarrow>
                         (case skipSpace rest'' of
                            c # cs' \<Rightarrow>
                              if c = CHR '','' then map_option (\<lambda>(ms, r). ((key, v) # ms, r)) (parseMembers k d cs')
                              else if c = CHR ''}'' then Some ([(key, v)], cs')
                              else None
                          | [] \<Rightarrow> None))
                | [] \<Rightarrow> None))
      | [] \<Rightarrow> None)"

text \<open>The first value of a text and what follows it.\<close>

definition parsePrefix :: "string \<Rightarrow> (json \<times> string) option" where
  "parsePrefix s = parseValue (2 * length s + 2) 0 s"


section \<open>Struct fields\<close>

text \<open>\<^verbatim>\<open>foldName\<close>: ASCII letters fold to upper case; of the other runes only U+017F and U+212A fold to
  an ASCII letter.\<close>

definition foldLetter :: "char \<Rightarrow> char" where
  "foldLetter c = (if 97 \<le> byte c \<and> byte c \<le> 122 then char_of (byte c - 32) else c)"

fun foldBytes :: "nat \<Rightarrow> string \<Rightarrow> string" where
  "foldBytes k [] = []"
| "foldBytes (Suc k) (c # cs) = foldBytes k cs"
| "foldBytes 0 (c # cs) =
     (if take 2 (c # cs) = [CHR 0xC5, CHR 0xBF] then CHR ''S'' # foldBytes 1 cs
      else if take 3 (c # cs) = [CHR 0xE2, CHR 0x84, CHR 0xAA] then CHR ''K'' # foldBytes 2 cs
      else foldLetter c # foldBytes 0 cs)"

definition foldName :: "string \<Rightarrow> string" where
  "foldName s = foldBytes 0 s"

text \<open>The field a key selects: an exact match first, else the first match under the fold.\<close>

definition findField :: "string list \<Rightarrow> string \<Rightarrow> string option" where
  "findField names key =
     (if key \<in> set names then Some key
      else List.find (\<lambda>n. foldName n = foldName key) names)"

end
