(* ===== verification/Go_Pgx.thy ===== *)
theory Go_Pgx
  imports Go_Json
begin

text \<open>
  What the two Postgres stores share: a round trip to the database succeeds, fails without effect, or takes
  effect and then loses the connection (\<open>fault\<close>); the errors the driver reports; and the arguments a column
  type accepts.
\<close>

datatype fault = NoFault | FailBefore | FailAfter

definition connErr :: error where
  "connErr = Opaque ''connection failure''"

definition ErrNoRows :: error where
  "ErrNoRows = Sentinel ''no rows in result set''"

text \<open>The next entry of a fault script; a script that has run out stands for no more faults.\<close>

fun popFault :: "fault list \<Rightarrow> fault \<times> fault list" where
  "popFault [] = (NoFault, [])"
| "popFault (f # fs) = (f, fs)"

text \<open>A TEXT argument: the server refuses zero bytes and text that is not UTF-8.\<close>

fun validUTF8 :: "nat \<Rightarrow> string \<Rightarrow> bool" where
  "validUTF8 k [] = True"
| "validUTF8 0 (c # cs) = False"
| "validUTF8 (Suc k) (c # cs) = (runeLen (c # cs) \<noteq> 0 \<and> validUTF8 k (drop (runeLen (c # cs)) (c # cs)))"

definition textArg :: "string \<Rightarrow> string result" where
  "textArg s = (if CHR 0x00 \<in> set s \<or> \<not> validUTF8 (length s) s
     then Err (PgError ''22021'' ''invalid byte sequence for encoding'') else Ok s)"

text \<open>A TIMESTAMPTZ argument keeps microseconds.\<close>

definition timestamptzArg :: "int \<Rightarrow> int" where
  "timestamptzArg t = t div 1000 * 1000"

end
