(* ===== verification/Chain_Postgres.thy ===== *)
theory Chain_Postgres
  imports Chain_Converge Go_Pgx
begin

text \<open>
  \<^verbatim>\<open>internal/chainmonitor/store_postgres.go\<close>: the production store. The two tables of the schema
  are lists of rows; every SQL statement of the file is a function on the tables with the
  semantics the statement and the schema's constraints give it (primary key, unique key,
  cascading foreign key, BIGINT range). The serial \<^verbatim>\<open>id\<close> column, which no statement reads, and
  the two secondary indexes are left out.

  A database call can fail: \<open>pg_faults\<close> says for each coming round trip whether it succeeds,
  fails without effect, or takes effect and then loses the connection.
\<close>

record blockRow =
  br_number :: int
  br_hash :: string
  br_parent_hash :: string
  br_block_time :: int

record transferRow =
  tr_block_number :: int
  tr_token :: string
  tr_from :: string
  tr_to :: string
  tr_value :: int
  tr_tx_hash :: string
  tr_log_index :: int
  tr_confirmed :: bool

record PgTables =
  t_blocks :: "blockRow list"
  t_transfers :: "transferRow list"

record PgDB =
  pg_tables :: PgTables
  pg_faults :: "fault list"

text \<open>A \<^verbatim>\<open>uint64\<close> argument for a BIGINT column or comparison: values above the signed range are
  refused when the argument is encoded.\<close>

definition bigintArg :: "u64 \<Rightarrow> int result" where
  "bigintArg n = (if uint n < 2 ^ 63 then Ok (uint n)
     else Err (Opaque ''value is greater than maximum value for int8''))"

subsection \<open>Statements\<close>

definition upsertBlock :: "'abi Eth \<Rightarrow> Block \<Rightarrow> PgTables \<Rightarrow> PgTables result" where
  "upsertBlock eth b tabs =
     bind_result (bigintArg (Number b)) (\<lambda>num.
     bind_result (bigintArg (Time b)) (\<lambda>tm.
       let row = \<lparr>br_number = num, br_hash = Hash_Hex eth (Hash b),
                  br_parent_hash = Hash_Hex eth (ParentHash b), br_block_time = tm\<rparr>
       in Ok (if num \<in> br_number ` set (t_blocks tabs)
              then tabs\<lparr>t_blocks := map (\<lambda>r. if br_number r = num then row else r) (t_blocks tabs)\<rparr>
              else tabs\<lparr>t_blocks := t_blocks tabs @ [row]\<rparr>)))"

definition insertTransfer ::
  "'abi Eth \<Rightarrow> u64 \<Rightarrow> Transfer \<Rightarrow> bool \<Rightarrow> PgTables \<Rightarrow> PgTables result" where
  "insertTransfer eth number t confirmed tabs =
     bind_result (bigintArg number) (\<lambda>num.
     bind_result (bigintArg (LogIndex t)) (\<lambda>li.
       let row = \<lparr>tr_block_number = num, tr_token = Address_Hex eth (Token t),
                  tr_from = Address_Hex eth (From t), tr_to = Address_Hex eth (To t),
                  tr_value = Value t, tr_tx_hash = Hash_Hex eth (TxHash t),
                  tr_log_index = li, tr_confirmed = confirmed\<rparr>
       in if \<exists>r \<in> set (t_transfers tabs). tr_tx_hash r = tr_tx_hash row \<and> tr_log_index r = li
          then Ok tabs
          else if num \<in> br_number ` set (t_blocks tabs)
          then Ok (tabs\<lparr>t_transfers := t_transfers tabs @ [row]\<rparr>)
          else Err (PgError ''23503'' ''violates foreign key constraint'')))"

text \<open>\<^verbatim>\<open>DELETE FROM blocks WHERE number >= $1\<close>, with ON DELETE CASCADE on the transfers.\<close>

definition deleteBlocks :: "u64 \<Rightarrow> PgTables \<Rightarrow> PgTables result" where
  "deleteBlocks number tabs =
     bind_result (bigintArg number) (\<lambda>num.
       let gone = br_number ` {r \<in> set (t_blocks tabs). br_number r \<ge> num}
       in Ok (tabs\<lparr>t_blocks := filter (\<lambda>r. \<not> br_number r \<ge> num) (t_blocks tabs),
                   t_transfers := filter (\<lambda>r. tr_block_number r \<notin> gone) (t_transfers tabs)\<rparr>))"

definition confirmTransfers :: "u64 \<Rightarrow> PgTables \<Rightarrow> PgTables result" where
  "confirmTransfers number tabs =
     bind_result (bigintArg number) (\<lambda>num.
       Ok (tabs\<lparr>t_transfers :=
         map (\<lambda>r. if tr_block_number r \<le> num \<and> \<not> tr_confirmed r
                  then r\<lparr>tr_confirmed := True\<rparr> else r) (t_transfers tabs)\<rparr>))"

definition scanBlock :: "'abi Eth \<Rightarrow> blockRow \<Rightarrow> Block result" where
  "scanBlock eth row =
     (if br_number row < 0 \<or> br_block_time row < 0
      then Err (Opaque ''can't scan into dest: value is less than zero for uint64'')
      else Ok \<lparr>Number = word_of_int (br_number row), Hash = HexToHash eth (br_hash row),
               ParentHash = HexToHash eth (br_parent_hash row),
               Time = word_of_int (br_block_time row)\<rparr>)"

text \<open>\<^verbatim>\<open>QueryRow(...).Scan\<close> through \<^verbatim>\<open>scanBlock\<close>: the first row of the answer, if any.\<close>

fun queryBlock :: "'abi Eth \<Rightarrow> blockRow list \<Rightarrow> Block result" where
  "queryBlock eth [] = Err ErrNoRows"
| "queryBlock eth (r # rs) = scanBlock eth r"

text \<open>\<^verbatim>\<open>if err == pgx.ErrNoRows { return Block{}, false, nil }\<close>\<close>

fun noRowsAsNone :: "Block result \<Rightarrow> Block option result" where
  "noRowsAsNone (Ok b) = Ok (Some b)"
| "noRowsAsNone (Err e) = (if e = ErrNoRows then Ok None else Err e)"
| "noRowsAsNone (Panic p) = Panic p"


subsection \<open>Round trips\<close>

text \<open>\<^verbatim>\<open>pool.Exec\<close> of one statement in its own transaction.\<close>

definition poolExec :: "(PgTables \<Rightarrow> PgTables result) \<Rightarrow> (PgDB, unit) eff" where
  "poolExec stmt db =
     (case popFault (pg_faults db) of (f, fs) \<Rightarrow>
        (let db' = db\<lparr>pg_faults := fs\<rparr> in
         case stmt (pg_tables db) of
           Err e \<Rightarrow> (Err e, db')
         | Panic p \<Rightarrow> (Panic p, db')
         | Ok tabs \<Rightarrow> (case f of
               NoFault \<Rightarrow> (Ok (), db'\<lparr>pg_tables := tabs\<rparr>)
             | FailBefore \<Rightarrow> (Err connErr, db')
             | FailAfter \<Rightarrow> (Err connErr, db'\<lparr>pg_tables := tabs\<rparr>))))"

text \<open>\<^verbatim>\<open>pool.QueryRow\<close>.\<close>

definition poolQuery :: "(PgTables \<Rightarrow> Block result) \<Rightarrow> (PgDB, Block option) eff" where
  "poolQuery q db =
     (case popFault (pg_faults db) of (f, fs) \<Rightarrow>
        (let db' = db\<lparr>pg_faults := fs\<rparr> in
         if f = NoFault then (noRowsAsNone (q (pg_tables db)), db') else (Err connErr, db')))"

text \<open>\<^verbatim>\<open>tx.Exec\<close>: a statement on the transaction's own view of the tables.\<close>

definition txExec :: "(PgTables \<Rightarrow> PgTables result) \<Rightarrow> (PgDB, unit) eff" where
  "txExec stmt view =
     (case popFault (pg_faults view) of (f, fs) \<Rightarrow>
        (let view' = view\<lparr>pg_faults := fs\<rparr> in
         case stmt (pg_tables view) of
           Err e \<Rightarrow> (Err e, view')
         | Panic p \<Rightarrow> (Panic p, view')
         | Ok tabs \<Rightarrow> if f = NoFault then (Ok (), view'\<lparr>pg_tables := tabs\<rparr>) else (Err connErr, view')))"

text \<open>The statements of \<^verbatim>\<open>SaveBlock\<close> between \<^verbatim>\<open>Begin\<close> and \<^verbatim>\<open>Commit\<close>.\<close>

definition saveStatements :: "'abi Eth \<Rightarrow> Block \<Rightarrow> Transfer list \<Rightarrow> bool \<Rightarrow> (PgDB, unit) eff" where
  "saveStatements eth b transfers confirmed =
     bnd (wrap_eff ''upsert block'' (txExec (upsertBlock eth b))) (\<lambda>_.
       for_each transfers (\<lambda>t.
         wrap_eff ''insert transfer'' (txExec (insertTransfer eth (Number b) t confirmed))))"

definition pg_SaveBlock ::
  "'abi Eth \<Rightarrow> Block \<Rightarrow> Transfer list \<Rightarrow> bool \<Rightarrow> (PgDB, unit) eff" where
  "pg_SaveBlock eth b transfers confirmed db =
     (case popFault (pg_faults db) of (f, fs) \<Rightarrow>
        if f \<noteq> NoFault then (Err connErr, db\<lparr>pg_faults := fs\<rparr>)
        else case saveStatements eth b transfers confirmed (db\<lparr>pg_faults := fs\<rparr>) of
            (Err e, view) \<Rightarrow> (Err e, db\<lparr>pg_faults := pg_faults view\<rparr>)
          | (Panic p, view) \<Rightarrow> (Panic p, db\<lparr>pg_faults := pg_faults view\<rparr>)
          | (Ok _, view) \<Rightarrow>
              (case popFault (pg_faults view) of
                 (NoFault, fs') \<Rightarrow> (Ok (), view\<lparr>pg_faults := fs'\<rparr>)
               | (FailBefore, fs') \<Rightarrow> (Err connErr, db\<lparr>pg_faults := fs'\<rparr>)
               | (FailAfter, fs') \<Rightarrow> (Err connErr, view\<lparr>pg_faults := fs'\<rparr>)))"

definition pg_LastBlock :: "'abi Eth \<Rightarrow> (PgDB, Block option) eff" where
  "pg_LastBlock eth =
     poolQuery (\<lambda>tabs. queryBlock eth (take 1 (rev (sort_key br_number (t_blocks tabs)))))"

definition pg_BlockByNumber :: "'abi Eth \<Rightarrow> u64 \<Rightarrow> (PgDB, Block option) eff" where
  "pg_BlockByNumber eth number =
     poolQuery (\<lambda>tabs. bind_result (bigintArg number) (\<lambda>num.
       queryBlock eth (filter (\<lambda>r. br_number r = num) (t_blocks tabs))))"

definition pg_DeleteFrom :: "u64 \<Rightarrow> (PgDB, unit) eff" where
  "pg_DeleteFrom number = poolExec (deleteBlocks number)"

definition pg_ConfirmThrough :: "u64 \<Rightarrow> (PgDB, unit) eff" where
  "pg_ConfirmThrough number = poolExec (confirmTransfers number)"

definition pgStore :: "'abi Eth \<Rightarrow> PgDB Store" where
  "pgStore eth =
     \<lparr>SaveBlock = pg_SaveBlock eth, LastBlock = pg_LastBlock eth,
      BlockByNumber = pg_BlockByNumber eth, DeleteFrom = pg_DeleteFrom,
      ConfirmThrough = pg_ConfirmThrough\<rparr>"


section \<open>The contract\<close>

subsection \<open>Observations and table invariant\<close>

definition tabs_ok :: "PgTables \<Rightarrow> bool" where
  "tabs_ok tabs \<longleftrightarrow>
     distinct (map br_number (t_blocks tabs)) \<and>
     (\<forall>r \<in> set (t_blocks tabs). 0 \<le> br_number r \<and> br_number r < 2 ^ 63 \<and> 0 \<le> br_block_time r) \<and>
     (\<forall>r \<in> set (t_transfers tabs). tr_block_number r \<in> br_number ` set (t_blocks tabs)) \<and>
     distinct (map (\<lambda>r. (tr_tx_hash r, tr_log_index r)) (t_transfers tabs))"

definition scanned :: "'abi Eth \<Rightarrow> blockRow \<Rightarrow> Block" where
  "scanned eth row =
     \<lparr>Number = word_of_int (br_number row), Hash = HexToHash eth (br_hash row),
      ParentHash = HexToHash eth (br_parent_hash row), Time = word_of_int (br_block_time row)\<rparr>"

definition row_transfer :: "'abi Eth \<Rightarrow> transferRow \<Rightarrow> storedTransfer" where
  "row_transfer eth r =
     \<lparr>st_block = word_of_int (tr_block_number r),
      st_transfer = \<lparr>Token = HexToAddress eth (tr_token r), From = HexToAddress eth (tr_from r),
        To = HexToAddress eth (tr_to r), Value = tr_value r,
        TxHash = HexToHash eth (tr_tx_hash r), LogIndex = word_of_int (tr_log_index r)\<rparr>,
      st_confirmed = tr_confirmed r\<rparr>"

definition tab_blocks :: "'abi Eth \<Rightarrow> PgTables \<Rightarrow> u64 \<rightharpoonup> Block" where
  "tab_blocks eth tabs = map_of (map (\<lambda>r. (word_of_int (br_number r), scanned eth r)) (t_blocks tabs))"

definition tab_rows :: "'abi Eth \<Rightarrow> PgTables \<Rightarrow> storedTransfer list" where
  "tab_rows eth tabs = map (row_transfer eth) (t_transfers tabs)"

definition pg_inv :: "'abi Eth \<Rightarrow> PgDB \<Rightarrow> bool" where
  "pg_inv eth db \<longleftrightarrow> hex_lawful eth \<and> tabs_ok (pg_tables db)"

definition pg_blocks :: "'abi Eth \<Rightarrow> PgDB \<Rightarrow> u64 \<rightharpoonup> Block" where
  "pg_blocks eth db = tab_blocks eth (pg_tables db)"

definition pg_rows :: "'abi Eth \<Rightarrow> PgDB \<Rightarrow> storedTransfer list" where
  "pg_rows eth db = tab_rows eth (pg_tables db)"

lemma uint_bigint: "0 \<le> a \<Longrightarrow> a < 2 ^ 63 \<Longrightarrow> uint (word_of_int a :: u64) = a"
  by (simp add: uint_word_of_int take_bit_int_eq_self)

lemma bigintArg_Ok [simp]: "bigintArg n = Ok k \<longleftrightarrow> k = uint n \<and> uint n < 2 ^ 63"
  by (auto simp: bigintArg_def)

lemma bigintArg_uint [simp]: "uint n < 2 ^ 63 \<Longrightarrow> bigintArg n = Ok (uint n)"
  by simp

lemma map_eqI: "(\<And>k v. m k = Some v \<longleftrightarrow> m' k = Some v) \<Longrightarrow> m = m'"
  by (metis (no_types, opaque_lifting) ext not_Some_eq)

lemma block_number_eq:
  assumes "tabs_ok tabs" "r \<in> set (t_blocks tabs)"
  shows "word_of_int (br_number r) = (n :: u64) \<longleftrightarrow> br_number r = uint n"
  using assms uint_bigint [of "br_number r"] by (auto simp: tabs_ok_def)

lemma tab_blocks_Some:
  assumes "tabs_ok tabs"
  shows "tab_blocks eth tabs k = Some b \<longleftrightarrow>
    (\<exists>r \<in> set (t_blocks tabs). br_number r = uint k \<and> scanned eth r = b)"
proof -
  have "inj_on (\<lambda>r. word_of_int (br_number r) :: u64) (set (t_blocks tabs))"
  proof (rule inj_onI)
    fix r r' assume "r \<in> set (t_blocks tabs)" "r' \<in> set (t_blocks tabs)"
      "word_of_int (br_number r) = (word_of_int (br_number r') :: u64)"
    then have "br_number r = br_number r'"
      using assms uint_bigint unfolding tabs_ok_def by metis
    then show "r = r'"
      using assms \<open>r \<in> _\<close> \<open>r' \<in> _\<close> by (auto simp: tabs_ok_def distinct_map inj_on_def)
  qed
  moreover have "distinct (t_blocks tabs)" using assms by (auto simp: tabs_ok_def distinct_map)
  ultimately have "distinct (map fst (map (\<lambda>r. (word_of_int (br_number r) :: u64, scanned eth r)) (t_blocks tabs)))"
    by (simp add: distinct_map comp_def)
  then show ?thesis
    unfolding tab_blocks_def using block_number_eq [OF assms, where n = k] by (auto simp: image_iff)
qed

lemma tab_blocks_dom:
  assumes "tabs_ok tabs"
  shows "k \<in> dom (tab_blocks eth tabs) \<longleftrightarrow> uint k \<in> br_number ` set (t_blocks tabs)"
proof -
  have "k \<in> dom (tab_blocks eth tabs) \<longleftrightarrow> (\<exists>b. tab_blocks eth tabs k = Some b)" by auto
  then show ?thesis unfolding tab_blocks_Some [OF assms] image_iff by metis
qed


subsection \<open>Statements\<close>

lemma upsertBlock_ok:
  assumes "tabs_ok tabs" "hex_lawful eth" "upsertBlock eth b tabs = Ok tabs'"
  shows "tabs_ok tabs'" and "tab_blocks eth tabs' = (tab_blocks eth tabs)(Number b \<mapsto> b)"
    and "t_transfers tabs' = t_transfers tabs"
proof -
  define row where "row = \<lparr>br_number = uint (Number b), br_hash = Hash_Hex eth (Hash b),
    br_parent_hash = Hash_Hex eth (ParentHash b), br_block_time = uint (Time b)\<rparr>"
  have small: "uint (Number b) < 2 ^ 63" "uint (Time b) < 2 ^ 63"
    using assms(3) by (auto simp: upsertBlock_def)
  have row: "scanned eth row = b"
    using hex_lawfulD(1) [OF assms(2)] by (simp add: scanned_def row_def)
  have tabs': "tabs' = (if uint (Number b) \<in> br_number ` set (t_blocks tabs)
      then tabs\<lparr>t_blocks := map (\<lambda>r. if br_number r = uint (Number b) then row else r) (t_blocks tabs)\<rparr>
      else tabs\<lparr>t_blocks := t_blocks tabs @ [row]\<rparr>)"
    using assms(3) small by (auto simp: upsertBlock_def Let_def row_def split: if_splits)
  show "t_transfers tabs' = t_transfers tabs" using tabs' by simp
  have nums: "map br_number (t_blocks tabs') = (if uint (Number b) \<in> br_number ` set (t_blocks tabs)
      then map br_number (t_blocks tabs) else map br_number (t_blocks tabs) @ [uint (Number b)])"
    using tabs' by (auto simp: row_def)
  have mem: "r \<in> set (t_blocks tabs') \<longleftrightarrow>
      r = row \<or> (r \<in> set (t_blocks tabs) \<and> br_number r \<noteq> uint (Number b))" for r
    using tabs' by (auto simp: row_def image_iff)
  have "set (map br_number (t_blocks tabs')) = insert (uint (Number b)) (br_number ` set (t_blocks tabs))"
    using nums by auto
  then have nset: "br_number ` set (t_blocks tabs') = insert (uint (Number b)) (br_number ` set (t_blocks tabs))"
    by simp
  have "distinct (map br_number (t_blocks tabs'))"
    using nums assms(1) by (auto simp: tabs_ok_def)
  then show ok': "tabs_ok tabs'"
    using assms(1) small nset mem \<open>t_transfers tabs' = t_transfers tabs\<close>
    unfolding tabs_ok_def by (auto simp: row_def)
  show "tab_blocks eth tabs' = (tab_blocks eth tabs)(Number b \<mapsto> b)"
  proof (rule map_eqI)
    fix k v
    show "tab_blocks eth tabs' k = Some v \<longleftrightarrow> ((tab_blocks eth tabs)(Number b \<mapsto> b)) k = Some v"
    proof (cases "k = Number b")
      case True
      have "br_number row = uint (Number b)" by (simp add: row_def)
      then show ?thesis unfolding tab_blocks_Some [OF ok'] using True row mem by auto
    next
      case False
      then have "uint k \<noteq> uint (Number b)" by (auto simp: word_uint_eq_iff)
      then have "r \<in> set (t_blocks tabs') \<longleftrightarrow> r \<in> set (t_blocks tabs)" if "br_number r = uint k" for r
        using mem [of r] that by (auto simp: row_def)
      then have "(\<exists>r \<in> set (t_blocks tabs'). br_number r = uint k \<and> scanned eth r = v) \<longleftrightarrow>
          (\<exists>r \<in> set (t_blocks tabs). br_number r = uint k \<and> scanned eth r = v)"
        by blast
      then show ?thesis using False by (simp add: tab_blocks_Some [OF ok'] tab_blocks_Some [OF assms(1)])
    qed
  qed
qed

lemma insertTransfer_ok:
  assumes "tabs_ok tabs" "hex_lawful eth" "insertTransfer eth n t c tabs = Ok tabs'"
  shows "tabs_ok tabs'" and "t_blocks tabs' = t_blocks tabs"
    and "tab_rows eth tabs' = tab_rows eth tabs \<or>
         tab_rows eth tabs' = tab_rows eth tabs @ [\<lparr>st_block = n, st_transfer = t, st_confirmed = c\<rparr>]"
proof -
  define row where "row = \<lparr>tr_block_number = uint n, tr_token = Address_Hex eth (Token t),
    tr_from = Address_Hex eth (From t), tr_to = Address_Hex eth (To t), tr_value = Value t,
    tr_tx_hash = Hash_Hex eth (TxHash t), tr_log_index = uint (LogIndex t), tr_confirmed = c\<rparr>"
  have cases: "tabs' = tabs \<or>
      (tabs' = tabs\<lparr>t_transfers := t_transfers tabs @ [row]\<rparr> \<and>
       uint n \<in> br_number ` set (t_blocks tabs) \<and>
       (tr_tx_hash row, tr_log_index row) \<notin> set (map (\<lambda>r. (tr_tx_hash r, tr_log_index r)) (t_transfers tabs)))"
    using assms(3) by (auto simp: insertTransfer_def Let_def row_def image_iff split: if_splits)
  have row: "row_transfer eth row = \<lparr>st_block = n, st_transfer = t, st_confirmed = c\<rparr>"
    using hex_lawfulD [OF assms(2)] by (simp add: row_transfer_def row_def)
  show "tabs_ok tabs'" using cases assms(1) by (auto simp: tabs_ok_def row_def)
  show "t_blocks tabs' = t_blocks tabs" using cases by auto
  show "tab_rows eth tabs' = tab_rows eth tabs \<or>
      tab_rows eth tabs' = tab_rows eth tabs @ [\<lparr>st_block = n, st_transfer = t, st_confirmed = c\<rparr>]"
    using cases row by (auto simp: tab_rows_def)
qed

lemma deleteBlocks_ok:
  assumes "tabs_ok tabs" "deleteBlocks n tabs = Ok tabs'"
  shows "tabs_ok tabs'" and "tab_blocks eth tabs' = blocks_below n (tab_blocks eth tabs)"
    and "tab_rows eth tabs' = rows_below n (tab_rows eth tabs)"
proof -
  have tb: "t_blocks tabs' = filter (\<lambda>r. \<not> br_number r \<ge> uint n) (t_blocks tabs)"
    and tt: "t_transfers tabs' = filter (\<lambda>r. tr_block_number r \<notin>
          br_number ` {r \<in> set (t_blocks tabs). br_number r \<ge> uint n}) (t_transfers tabs)"
    using assms(2) by (auto simp: deleteBlocks_def Let_def)
  have tt': "t_transfers tabs' = filter (\<lambda>r. tr_block_number r < uint n) (t_transfers tabs)"
    unfolding tt
  proof (rule filter_cong [OF refl])
    fix r assume "r \<in> set (t_transfers tabs)"
    then obtain x where x: "x \<in> set (t_blocks tabs)" "tr_block_number r = br_number x"
      using assms(1) by (auto simp: tabs_ok_def)
    show "(tr_block_number r \<notin> br_number ` {r \<in> set (t_blocks tabs). br_number r \<ge> uint n})
        = (tr_block_number r < uint n)"
    proof (cases "uint n \<le> br_number x")
      case True
      then show ?thesis using x by auto
    next
      case False
      then show ?thesis using x(2) by auto
    qed
  qed
  show ok': "tabs_ok tabs'"
    using assms(1) unfolding tabs_ok_def tb tt'
    by (fastforce simp: distinct_map_filter image_iff not_le)
  show "tab_blocks eth tabs' = blocks_below n (tab_blocks eth tabs)"
  proof (rule map_eqI)
    fix k v
    show "tab_blocks eth tabs' k = Some v \<longleftrightarrow> blocks_below n (tab_blocks eth tabs) k = Some v"
      unfolding tab_blocks_Some [OF ok'] blocks_below_def
      using tab_blocks_Some [OF assms(1), of eth k v] by (auto simp: tb word_less_def not_le)
  qed
  have "st_block (row_transfer eth r) < n \<longleftrightarrow> tr_block_number r < uint n"
    if "r \<in> set (t_transfers tabs)" for r
  proof -
    have "tr_block_number r \<in> br_number ` set (t_blocks tabs)"
      using assms(1) that by (simp add: tabs_ok_def)
    then have "0 \<le> tr_block_number r" "tr_block_number r < 2 ^ 63"
      using assms(1) by (auto simp: tabs_ok_def)
    then have "uint (word_of_int (tr_block_number r) :: u64) = tr_block_number r"
      by (rule uint_bigint)
    then show ?thesis by (simp add: row_transfer_def word_less_def)
  qed
  then show "tab_rows eth tabs' = rows_below n (tab_rows eth tabs)"
    unfolding tab_rows_def rows_below_def tt' filter_map comp_def by (auto cong: filter_cong)
qed

lemma confirmTransfers_ok:
  assumes "tabs_ok tabs" "confirmTransfers n tabs = Ok tabs'"
  shows "tabs_ok tabs'" and "t_blocks tabs' = t_blocks tabs"
    and "tab_rows eth tabs' = confirm_rows n (tab_rows eth tabs)"
proof -
  have tt: "t_transfers tabs' = map (\<lambda>r. if tr_block_number r \<le> uint n \<and> \<not> tr_confirmed r
      then r\<lparr>tr_confirmed := True\<rparr> else r) (t_transfers tabs)"
    and tb: "t_blocks tabs' = t_blocks tabs"
    using assms(2) by (auto simp: confirmTransfers_def)
  show "t_blocks tabs' = t_blocks tabs" by (rule tb)
  have keys: "map (\<lambda>r. (tr_tx_hash r, tr_log_index r)) (t_transfers tabs') =
      map (\<lambda>r. (tr_tx_hash r, tr_log_index r)) (t_transfers tabs)"
    unfolding tt by simp
  have "\<forall>r \<in> set (t_transfers tabs'). tr_block_number r \<in> br_number ` set (t_blocks tabs)"
    using assms(1) by (auto simp: tt tabs_ok_def)
  then show "tabs_ok tabs'"
    using assms(1) unfolding tabs_ok_def tb keys by blast
  have "row_transfer eth (if tr_block_number r \<le> uint n \<and> \<not> tr_confirmed r
        then r\<lparr>tr_confirmed := True\<rparr> else r) =
      (if st_block (row_transfer eth r) \<le> n then (row_transfer eth r)\<lparr>st_confirmed := True\<rparr>
       else row_transfer eth r)"
    if "r \<in> set (t_transfers tabs)" for r
  proof -
    have "tr_block_number r \<in> br_number ` set (t_blocks tabs)"
      using assms(1) that by (simp add: tabs_ok_def)
    then have "0 \<le> tr_block_number r" "tr_block_number r < 2 ^ 63"
      using assms(1) by (auto simp: tabs_ok_def)
    then have "uint (word_of_int (tr_block_number r) :: u64) = tr_block_number r"
      by (rule uint_bigint)
    then show ?thesis by (auto simp: row_transfer_def word_le_def)
  qed
  then show "tab_rows eth tabs' = confirm_rows n (tab_rows eth tabs)"
    unfolding tab_rows_def confirm_rows_def tt by simp
qed


subsection \<open>Round trips\<close>

lemma poolExec_rule:
  assumes "\<And>tabs tabs'. p tabs \<Longrightarrow> stmt tabs = Ok tabs' \<Longrightarrow> q tabs'"
  shows "triple (\<lambda>db. p (pg_tables db)) (poolExec stmt) (\<lambda>_ db. q (pg_tables db))
    (\<lambda>db. p (pg_tables db) \<or> q (pg_tables db))"
proof -
  have "case poolExec stmt db of (Ok x, db') \<Rightarrow> q (pg_tables db')
      | (Err e, db') \<Rightarrow> p (pg_tables db') \<or> q (pg_tables db')
      | (Panic e, db') \<Rightarrow> p (pg_tables db') \<or> q (pg_tables db')" if "p (pg_tables db)" for db
    using that assms
    by (auto simp: poolExec_def Let_def split: prod.splits result.splits fault.splits)
  then show ?thesis by (simp add: triple_def)
qed

lemma poolQuery_rule:
  "triple (\<lambda>db. p (pg_tables db)) (poolQuery qry)
     (\<lambda>x db. p (pg_tables db) \<and> noRowsAsNone (qry (pg_tables db)) = Ok x) (\<lambda>db. p (pg_tables db))"
  by (auto simp: triple_def poolQuery_def Let_def split: prod.splits result.splits)

lemma txExec_rule:
  assumes "\<And>tabs tabs'. p tabs \<Longrightarrow> stmt tabs = Ok tabs' \<Longrightarrow> q tabs'"
  shows "triple (\<lambda>db. p (pg_tables db)) (wrap_eff s (txExec stmt)) (\<lambda>_ db. q (pg_tables db)) (\<lambda>_. True)"
proof -
  have "case wrap_eff s (txExec stmt) db of (Ok x, db') \<Rightarrow> q (pg_tables db') | _ \<Rightarrow> True"
    if "p (pg_tables db)" for db
    using that assms
    by (auto simp: txExec_def wrap_eff_def Let_def split: prod.splits result.splits)
  then show ?thesis by (simp add: triple_def)
qed

text \<open>The transaction's statements, run to the end, save the block and some of its transfers.\<close>

lemma saveStatements_rule:
  assumes hex: "hex_lawful eth"
  shows "triple (\<lambda>db. tabs_ok (pg_tables db) \<and> tab_blocks eth (pg_tables db) = B \<and>
        tab_rows eth (pg_tables db) = R)
      (saveStatements eth b ts c)
      (\<lambda>_ db. tabs_ok (pg_tables db) \<and> tab_blocks eth (pg_tables db) = B(Number b \<mapsto> b) \<and>
        rows_extended R (Number b) ts c (tab_rows eth (pg_tables db)))
      (\<lambda>_. True)"
proof -
  let ?p = "\<lambda>tabs. tabs_ok tabs \<and> tab_blocks eth tabs = B \<and> tab_rows eth tabs = R"
  let ?q = "\<lambda>tabs. tabs_ok tabs \<and> tab_blocks eth tabs = B(Number b \<mapsto> b) \<and>
    rows_extended R (Number b) ts c (tab_rows eth tabs)"
  have "triple (\<lambda>db. ?p (pg_tables db)) (wrap_eff ''upsert block'' (txExec (upsertBlock eth b)))
      (\<lambda>_ db. ?q (pg_tables db)) (\<lambda>_. True)"
  proof (rule txExec_rule)
    fix tabs tabs' assume p: "?p tabs" and u: "upsertBlock eth b tabs = Ok tabs'"
    note ok = upsertBlock_ok [OF _ hex u]
    show "?q tabs'" using ok p by (auto simp: rows_extended_def tab_rows_def)
  qed
  moreover have "triple (\<lambda>db. ?q (pg_tables db))
      (wrap_eff ''insert transfer'' (txExec (insertTransfer eth (Number b) t c)))
      (\<lambda>_ db. ?q (pg_tables db)) (\<lambda>_. True)" if t: "t \<in> set ts" for t
  proof (rule txExec_rule)
    fix tabs tabs' assume q: "?q tabs" and u: "insertTransfer eth (Number b) t c tabs = Ok tabs'"
    then obtain new where new: "tab_rows eth tabs = R @ new" "set new \<subseteq> set (saved_rows (Number b) ts c)"
      by (auto simp: rows_extended_def)
    have "tabs_ok tabs" using q by blast
    note ok = insertTransfer_ok [OF this hex u]
    have "\<lparr>st_block = Number b, st_transfer = t, st_confirmed = c\<rparr> \<in> set (saved_rows (Number b) ts c)"
      using t by (auto simp: saved_rows_def)
    then have "rows_extended R (Number b) ts c (tab_rows eth tabs')"
      using ok(3) new unfolding rows_extended_def
      by (elim disjE) (simp, auto intro!: exI [of _ "new @ [\<lparr>st_block = Number b, st_transfer = t, st_confirmed = c\<rparr>]"])
    moreover have "tab_blocks eth tabs' = tab_blocks eth tabs" using ok(2) by (simp add: tab_blocks_def)
    ultimately show "?q tabs'" using ok(1) q by simp
  qed
  ultimately show ?thesis
    unfolding saveStatements_def by (intro triple_bnd [where M = "\<lambda>_ db. ?q (pg_tables db)"] triple_for_each)
qed


lemma pg_SaveBlock_rule:
  "triple (at_view (pg_inv eth) (pg_blocks eth) (pg_rows eth) B R) (pg_SaveBlock eth b ts c)
     (\<lambda>_ db. pg_inv eth db \<and> pg_blocks eth db = B(Number b \<mapsto> b) \<and>
        rows_extended R (Number b) ts c (pg_rows eth db))
     (\<lambda>db. pg_inv eth db \<and> (pg_blocks eth db = B \<and> pg_rows eth db = R \<or>
        pg_blocks eth db = B(Number b \<mapsto> b) \<and> rows_extended R (Number b) ts c (pg_rows eth db)))"
proof -
  have main: "case pg_SaveBlock eth b ts c db of
      (Ok x, db') \<Rightarrow> pg_inv eth db' \<and> pg_blocks eth db' = B(Number b \<mapsto> b) \<and>
        rows_extended R (Number b) ts c (pg_rows eth db')
    | (_, db') \<Rightarrow> pg_inv eth db' \<and> (pg_blocks eth db' = B \<and> pg_rows eth db' = R \<or>
        pg_blocks eth db' = B(Number b \<mapsto> b) \<and> rows_extended R (Number b) ts c (pg_rows eth db'))"
    if view: "at_view (pg_inv eth) (pg_blocks eth) (pg_rows eth) B R db" for db
  proof -
    have hex: "hex_lawful eth" using view by (simp add: at_view_def pg_inv_def)
    obtain f fs where f: "popFault (pg_faults db) = (f, fs)" by (cases "popFault (pg_faults db)")
    obtain r db1 where st: "saveStatements eth b ts c (db\<lparr>pg_faults := fs\<rparr>) = (r, db1)"
      by (cases "saveStatements eth b ts c (db\<lparr>pg_faults := fs\<rparr>)")
    have ok: "tabs_ok (pg_tables db1) \<and> tab_blocks eth (pg_tables db1) = B(Number b \<mapsto> b) \<and>
        rows_extended R (Number b) ts c (tab_rows eth (pg_tables db1))" if "r = Ok u" for u
      by (rule triple_okD [OF saveStatements_rule [OF hex, of B R] _ st [unfolded that]])
         (use view in \<open>simp add: at_view_def pg_inv_def pg_blocks_def pg_rows_def\<close>)
    have same: "pg_inv eth (db\<lparr>pg_faults := x\<rparr>) \<and> pg_blocks eth (db\<lparr>pg_faults := x\<rparr>) = B \<and>
        pg_rows eth (db\<lparr>pg_faults := x\<rparr>) = R" for x
      using view by (simp add: at_view_def pg_inv_def pg_blocks_def pg_rows_def)
    have new: "pg_inv eth (db1\<lparr>pg_faults := x\<rparr>) \<and> pg_blocks eth (db1\<lparr>pg_faults := x\<rparr>) = B(Number b \<mapsto> b) \<and>
        rows_extended R (Number b) ts c (pg_rows eth (db1\<lparr>pg_faults := x\<rparr>))" if "r = Ok u" for x u
      using ok [OF that] hex by (simp add: pg_inv_def pg_blocks_def pg_rows_def)
    show ?thesis
      unfolding pg_SaveBlock_def f prod.case st
      using same new by (cases r) (auto split: prod.splits fault.splits)
  qed
  show ?thesis
    by (rule tripleI; frule main; simp)
qed

lemma take_1_rev_sort_key:
  assumes "xs \<noteq> []"
  shows "\<exists>r. take 1 (rev (sort_key f xs)) = [r] \<and> r \<in> set xs \<and> (\<forall>x \<in> set xs. f x \<le> (f r :: 'a::linorder))"
proof -
  have ne: "sort_key f xs \<noteq> []" using assms by (metis length_0_conv length_sort)
  let ?r = "last (sort_key f xs)"
  have split: "sort_key f xs = butlast (sort_key f xs) @ [?r]" using ne by simp
  have "take 1 (rev (sort_key f xs)) = [?r]" by (subst split) simp
  moreover have "?r \<in> set xs" using last_in_set [OF ne] by simp
  moreover have "f x \<le> f ?r" if "x \<in> set xs" for x
  proof -
    have "sorted (map f (butlast (sort_key f xs)) @ [f ?r])"
      using sorted_sort_key [of f xs] by (subst (asm) split) simp
    moreover have "x \<in> set (butlast (sort_key f xs) @ [?r])" using that split by (metis set_sort)
    ultimately show ?thesis by (auto simp: sorted_append)
  qed
  ultimately show ?thesis by blast
qed

lemma scanBlock_ok:
  "tabs_ok tabs \<Longrightarrow> r \<in> set (t_blocks tabs) \<Longrightarrow> scanBlock eth r = Ok (scanned eth r)"
  by (auto simp: scanBlock_def scanned_def tabs_ok_def)

lemma pg_last_is_last:
  assumes "tabs_ok tabs"
    and q: "noRowsAsNone (queryBlock eth (take 1 (rev (sort_key br_number (t_blocks tabs))))) = Ok x"
  shows "is_last (tab_blocks eth tabs) x"
proof (cases "t_blocks tabs = []")
  case True
  then show ?thesis using q by (simp add: is_last_def tab_blocks_def)
next
  case False
  then obtain r where r: "take 1 (rev (sort_key br_number (t_blocks tabs))) = [r]" "r \<in> set (t_blocks tabs)"
    and top: "\<forall>y \<in> set (t_blocks tabs). br_number y \<le> br_number r"
    using take_1_rev_sort_key [of "t_blocks tabs" br_number] by blast
  have x: "x = Some (scanned eth r)" using q r scanBlock_ok [OF assms(1) r(2), of eth] by simp
  have num: "uint (Number (scanned eth r)) = br_number r"
    using assms(1) r(2) uint_bigint [of "br_number r"] by (simp add: scanned_def tabs_ok_def)
  have "tab_blocks eth tabs (Number (scanned eth r)) = Some (scanned eth r)"
    unfolding tab_blocks_Some [OF assms(1)] using r(2) num by auto
  moreover have "n \<le> Number (scanned eth r)" if "n \<in> dom (tab_blocks eth tabs)" for n
    using that top num unfolding tab_blocks_dom [OF assms(1)] by (auto simp: word_le_def)
  ultimately show ?thesis using x by (simp add: is_last_def)
qed

lemma pg_get_is_lookup:
  assumes "tabs_ok tabs"
    and q: "noRowsAsNone (bind_result (bigintArg n) (\<lambda>num.
        queryBlock eth (filter (\<lambda>r. br_number r = num) (t_blocks tabs)))) = Ok x"
  shows "x = tab_blocks eth tabs n"
proof -
  have small: "uint n < 2 ^ 63" using q by (auto simp: bigintArg_def ErrNoRows_def split: if_splits)
  show ?thesis
  proof (cases "filter (\<lambda>r. br_number r = uint n) (t_blocks tabs)")
    case Nil
    then have "x = None" using q small by simp
    moreover have "n \<notin> dom (tab_blocks eth tabs)"
      unfolding tab_blocks_dom [OF assms(1)] using Nil by (auto simp: filter_empty_conv)
    ultimately show ?thesis by (simp add: domIff)
  next
    case (Cons r rs)
    have "r \<in> set (filter (\<lambda>r. br_number r = uint n) (t_blocks tabs))"
      unfolding Cons by simp
    then have r: "r \<in> set (t_blocks tabs)" "br_number r = uint n" by auto
    then have "x = Some (scanned eth r)"
      using q small Cons scanBlock_ok [OF assms(1) r(1), of eth] by simp
    moreover have "tab_blocks eth tabs n = Some (scanned eth r)"
      unfolding tab_blocks_Some [OF assms(1)] using r by auto
    ultimately show ?thesis by simp
  qed
qed


section \<open>PostgresStore meets the contract\<close>

abbreviation pg_view :: "'abi Eth \<Rightarrow> (u64 \<rightharpoonup> Block) \<Rightarrow> storedTransfer list \<Rightarrow> PgDB \<Rightarrow> bool" where
  "pg_view eth \<equiv> at_view (pg_inv eth) (pg_blocks eth) (pg_rows eth)"

text \<open>The view of the database is a view of its tables.\<close>

definition tab_view :: "'abi Eth \<Rightarrow> (u64 \<rightharpoonup> Block) \<Rightarrow> storedTransfer list \<Rightarrow> PgTables \<Rightarrow> bool" where
  "tab_view eth B R tabs \<longleftrightarrow> hex_lawful eth \<and> tabs_ok tabs \<and> tab_blocks eth tabs = B \<and> tab_rows eth tabs = R"

lemma pg_view_tabs: "pg_view eth B R = (\<lambda>db. tab_view eth B R (pg_tables db))"
  by (auto simp: at_view_def pg_inv_def pg_blocks_def pg_rows_def tab_view_def fun_eq_iff)

lemma tab_view_delete:
  "tab_view eth B R tabs \<Longrightarrow> deleteBlocks n tabs = Ok tabs' \<Longrightarrow> tab_view eth (blocks_below n B) (rows_below n R) tabs'"
  using deleteBlocks_ok(1) [of tabs n tabs'] deleteBlocks_ok(2,3) [of tabs n tabs' eth] by (simp add: tab_view_def)

lemma tab_view_confirm:
  "tab_view eth B R tabs \<Longrightarrow> confirmTransfers n tabs = Ok tabs' \<Longrightarrow> tab_view eth B (confirm_rows n R) tabs'"
  using confirmTransfers_ok(1,2) [of tabs n tabs'] confirmTransfers_ok(3) [of tabs n tabs' eth] by (simp add: tab_view_def tab_blocks_def)

lemma pg_rows_indexed:
  assumes inv: "pg_inv eth s" and r: "r \<in> set (pg_rows eth s)"
  shows "st_block r \<in> dom (pg_blocks eth s)"
proof -
  obtain row where row: "row \<in> set (t_transfers (pg_tables s))" "r = row_transfer eth row"
    using r by (auto simp: pg_rows_def tab_rows_def)
  have ok: "tabs_ok (pg_tables s)" using inv by (simp add: pg_inv_def)
  then have "tr_block_number row \<in> br_number ` set (t_blocks (pg_tables s))"
    using row(1) by (simp add: tabs_ok_def)
  moreover from this have "uint (st_block r) = tr_block_number row"
    using ok uint_bigint [of "tr_block_number row"] row(2) by (auto simp: tabs_ok_def row_transfer_def)
  ultimately show ?thesis by (simp add: pg_blocks_def tab_blocks_dom [OF ok])
qed

interpretation pg: chain_store "pgStore eth" "pg_inv eth" "pg_blocks eth" "pg_rows eth" for eth
proof
  show "pg_inv eth s \<Longrightarrow> pg_blocks eth s n = Some b \<Longrightarrow> Number b = n" for s n b
    by (auto simp: pg_inv_def pg_blocks_def tab_blocks_Some scanned_def block_number_eq)
  show "pg_inv eth s \<Longrightarrow> r \<in> set (pg_rows eth s) \<Longrightarrow> st_block r \<in> dom (pg_blocks eth s)" for s r
    by (rule pg_rows_indexed)
  show "triple (pg_view eth B R) (SaveBlock (pgStore eth) b ts c)
     (\<lambda>_ s. pg_inv eth s \<and> pg_blocks eth s = B(Number b \<mapsto> b) \<and>
        rows_extended R (Number b) ts c (pg_rows eth s))
     (\<lambda>s. pg_inv eth s \<and> (pg_blocks eth s = B \<and> pg_rows eth s = R \<or>
        pg_blocks eth s = B(Number b \<mapsto> b) \<and> rows_extended R (Number b) ts c (pg_rows eth s)))" for B R b ts c
    using pg_SaveBlock_rule by (simp add: pgStore_def)
  show "triple (pg_view eth B R) (LastBlock (pgStore eth)) (\<lambda>r s. pg_view eth B R s \<and> is_last B r) (pg_view eth B R)" for B R
    unfolding pg_view_tabs
    by (simp add: pgStore_def pg_LastBlock_def)
       (rule triple_conseq [OF poolQuery_rule [of "tab_view eth B R"]], auto simp: tab_view_def dest: pg_last_is_last)
  show "triple (pg_view eth B R) (BlockByNumber (pgStore eth) n) (\<lambda>r s. pg_view eth B R s \<and> r = B n) (pg_view eth B R)" for B R n
    unfolding pg_view_tabs
    by (simp add: pgStore_def pg_BlockByNumber_def)
       (rule triple_conseq [OF poolQuery_rule [of "tab_view eth B R"]], auto simp: tab_view_def dest: pg_get_is_lookup)
  show "triple (pg_view eth B R) (DeleteFrom (pgStore eth) n) (\<lambda>_. pg_view eth (blocks_below n B) (rows_below n R))
     (\<lambda>s. pg_view eth B R s \<or> pg_view eth (blocks_below n B) (rows_below n R) s)" for B R n
    unfolding pg_view_tabs by (simp add: pgStore_def pg_DeleteFrom_def, rule poolExec_rule) (rule tab_view_delete)
  show "triple (pg_view eth B R) (ConfirmThrough (pgStore eth) n) (\<lambda>_. pg_view eth B (confirm_rows n R))
     (\<lambda>s. pg_view eth B R s \<or> pg_view eth B (confirm_rows n R) s)" for B R n
    unfolding pg_view_tabs by (simp add: pgStore_def pg_ConfirmThrough_def, rule poolExec_rule) (rule tab_view_confirm)
qed


section \<open>A database without faults\<close>

text \<open>While the connection holds, the store is reliable for block numbers, block times and log
  indexes in the BIGINT range.\<close>

definition pg_calm :: "'abi Eth \<Rightarrow> PgDB \<Rightarrow> bool" where
  "pg_calm eth db \<longleftrightarrow> pg_inv eth db \<and> pg_faults db = []"

definition pg_indexable :: "u64 \<Rightarrow> bool" where
  "pg_indexable n \<longleftrightarrow> uint n < 2 ^ 63"

definition pg_storable :: "Block \<Rightarrow> Transfer list \<Rightarrow> bool" where
  "pg_storable b ts \<longleftrightarrow> pg_indexable (Number b) \<and> pg_indexable (Time b) \<and>
     (\<forall>t \<in> set ts. pg_indexable (LogIndex t))"

abbreviation calm :: "PgDB \<Rightarrow> bool" where
  "calm db \<equiv> pg_faults db = []"

lemma calm_poolExec: "triple calm (poolExec stmt) (\<lambda>_. calm) calm"
  by (auto simp: triple_def poolExec_def Let_def split: prod.splits result.splits fault.splits)

lemma calm_poolQuery: "triple calm (poolQuery q) (\<lambda>_. calm) calm"
  by (auto simp: triple_def poolQuery_def Let_def split: prod.splits result.splits)

lemma calm_txExec: "triple calm (wrap_eff s (txExec stmt)) (\<lambda>_. calm) calm"
  by (auto simp: triple_def txExec_def wrap_eff_def Let_def split: prod.splits result.splits)

lemma calm_saveStatements: "triple calm (saveStatements eth b ts c) (\<lambda>_. calm) calm"
  unfolding saveStatements_def by (intro triple_bnd [OF calm_txExec] triple_for_each calm_txExec)

lemma calm_SaveBlock: "triple calm (pg_SaveBlock eth b ts c) (\<lambda>_. calm) calm"
proof -
  have "calm (snd (pg_SaveBlock eth b ts c db))" if c: "calm db" for db
  proof -
    obtain r view where st: "saveStatements eth b ts c (db\<lparr>pg_faults := []\<rparr>) = (r, view)"
      by (cases "saveStatements eth b ts c (db\<lparr>pg_faults := []\<rparr>)")
    then have "calm view" by (rule triple_invariantD [OF calm_saveStatements, rotated]) simp
    then show ?thesis using c st by (cases r) (simp_all add: pg_SaveBlock_def)
  qed
  then show ?thesis by (intro tripleI) (metis snd_conv)+
qed

lemma txExec_succeeds:
  assumes "\<And>tabs. p tabs \<Longrightarrow> \<exists>tabs'. stmt tabs = Ok tabs' \<and> q tabs'"
  shows "triple (\<lambda>db. p (pg_tables db) \<and> calm db) (wrap_eff s (txExec stmt))
    (\<lambda>_ db. q (pg_tables db) \<and> calm db) (\<lambda>_. False)"
proof -
  have "case wrap_eff s (txExec stmt) db of (Ok x, db') \<Rightarrow> q (pg_tables db') \<and> calm db' | _ \<Rightarrow> False"
    if "p (pg_tables db)" "calm db" for db
    using assms [OF that(1)] that(2) by (auto simp: txExec_def wrap_eff_def)
  then show ?thesis by (simp add: triple_def)
qed

lemma upsertBlock_succeeds:
  assumes "pg_indexable (Number b)" "pg_indexable (Time b)"
  shows "\<exists>tabs'. upsertBlock eth b tabs = Ok tabs' \<and> uint (Number b) \<in> br_number ` set (t_blocks tabs')"
proof -
  define row where "row = \<lparr>br_number = uint (Number b), br_hash = Hash_Hex eth (Hash b),
    br_parent_hash = Hash_Hex eth (ParentHash b), br_block_time = uint (Time b)\<rparr>"
  have eq: "upsertBlock eth b tabs = Ok (if uint (Number b) \<in> br_number ` set (t_blocks tabs)
      then tabs\<lparr>t_blocks := map (\<lambda>r. if br_number r = uint (Number b) then row else r) (t_blocks tabs)\<rparr>
      else tabs\<lparr>t_blocks := t_blocks tabs @ [row]\<rparr>)"
    using assms by (simp add: upsertBlock_def pg_indexable_def bigintArg_def Let_def row_def)
  have num: "br_number row = uint (Number b)" by (simp add: row_def)
  show ?thesis
  proof (cases "uint (Number b) \<in> br_number ` set (t_blocks tabs)")
    case True
    then obtain r where r: "r \<in> set (t_blocks tabs)" "br_number r = uint (Number b)" by auto
    then have "row \<in> set (map (\<lambda>r. if br_number r = uint (Number b) then row else r) (t_blocks tabs))"
      unfolding set_map by (intro rev_image_eqI [OF r(1)]) simp
    then show ?thesis
      using eq True num [symmetric] by (auto intro: rev_image_eqI simp del: set_map)
  next
    case False
    then show ?thesis using eq num by simp
  qed
qed

lemma insertTransfer_succeeds:
  assumes "pg_indexable n" "pg_indexable (LogIndex t)" "uint n \<in> br_number ` set (t_blocks tabs)"
  shows "\<exists>tabs'. insertTransfer eth n t c tabs = Ok tabs' \<and> uint n \<in> br_number ` set (t_blocks tabs')"
  using assms by (simp add: insertTransfer_def pg_indexable_def bigintArg_def Let_def)

lemma saveStatements_succeeds:
  assumes "pg_storable b ts"
  shows "triple calm (saveStatements eth b ts c) (\<lambda>_. calm) (\<lambda>_. False)"
proof -
  let ?q = "\<lambda>tabs. uint (Number b) \<in> br_number ` set (t_blocks tabs)"
  have b: "pg_indexable (Number b)" "pg_indexable (Time b)" and ts: "\<And>t. t \<in> set ts \<Longrightarrow> pg_indexable (LogIndex t)"
    using assms by (simp_all add: pg_storable_def)
  have up: "triple (\<lambda>db. True \<and> calm db) (wrap_eff ''upsert block'' (txExec (upsertBlock eth b)))
      (\<lambda>_ db. ?q (pg_tables db) \<and> calm db) (\<lambda>_. False)"
    by (rule txExec_succeeds [where p = "\<lambda>_. True"]) (rule upsertBlock_succeeds [OF b])
  have ins: "triple (\<lambda>db. ?q (pg_tables db) \<and> calm db)
      (wrap_eff ''insert transfer'' (txExec (insertTransfer eth (Number b) t c)))
      (\<lambda>_ db. ?q (pg_tables db) \<and> calm db) (\<lambda>_. False)" if "t \<in> set ts" for t
    by (rule txExec_succeeds) (rule insertTransfer_succeeds [OF b(1) ts [OF that]])
  have "triple (\<lambda>db. True \<and> calm db) (saveStatements eth b ts c)
      (\<lambda>_ db. ?q (pg_tables db) \<and> calm db) (\<lambda>_. False)"
    unfolding saveStatements_def by (rule triple_bnd [OF up]) (rule triple_for_each, rule ins)
  then show ?thesis by (rule triple_conseq) auto
qed

lemma pg_SaveBlock_succeeds:
  assumes "calm db" "pg_storable b ts"
  shows "is_Ok (fst (pg_SaveBlock eth b ts c db))"
proof -
  obtain r view where st: "saveStatements eth b ts c (db\<lparr>pg_faults := []\<rparr>) = (r, view)"
    by (cases "saveStatements eth b ts c (db\<lparr>pg_faults := []\<rparr>)")
  have "calm view" by (rule triple_invariantD [OF calm_saveStatements _ st]) simp
  moreover have "is_Ok r"
    using triple_succeeds [OF saveStatements_succeeds [OF assms(2)], of "db\<lparr>pg_faults := []\<rparr>" eth c] st by simp
  ultimately show ?thesis using assms(1) st by (cases r) (simp_all add: pg_SaveBlock_def)
qed

lemma pg_LastBlock_succeeds:
  assumes "pg_calm eth db"
  shows "is_Ok (fst (pg_LastBlock eth db))"
proof (cases "t_blocks (pg_tables db) = []")
  case True
  then show ?thesis using assms by (simp add: pg_LastBlock_def poolQuery_def pg_calm_def)
next
  case False
  then obtain r where r: "take 1 (rev (sort_key br_number (t_blocks (pg_tables db)))) = [r]"
      "r \<in> set (t_blocks (pg_tables db))"
    using take_1_rev_sort_key [of "t_blocks (pg_tables db)" br_number] by blast
  then show ?thesis
    using assms scanBlock_ok [OF _ r(2), of eth]
    by (simp add: pg_LastBlock_def poolQuery_def pg_calm_def pg_inv_def)
qed

lemma pg_BlockByNumber_succeeds:
  assumes "pg_calm eth db" "pg_indexable n"
  shows "is_Ok (fst (pg_BlockByNumber eth n db))"
proof (cases "filter (\<lambda>r. br_number r = uint n) (t_blocks (pg_tables db))")
  case Nil
  then show ?thesis
    using assms by (simp add: pg_BlockByNumber_def poolQuery_def pg_calm_def pg_indexable_def)
next
  case (Cons r rs)
  then have "r \<in> set (filter (\<lambda>r. br_number r = uint n) (t_blocks (pg_tables db)))" by simp
  then have "r \<in> set (t_blocks (pg_tables db))" by simp
  then show ?thesis
    using assms scanBlock_ok [of "pg_tables db" r eth] Cons
    by (simp add: pg_BlockByNumber_def poolQuery_def pg_calm_def pg_inv_def pg_indexable_def)
qed

text \<open>Saving a block again finds the same block row and the same transfer keys.\<close>

definition blockRow_of :: "'abi Eth \<Rightarrow> Block \<Rightarrow> blockRow" where
  "blockRow_of eth b = \<lparr>br_number = uint (Number b), br_hash = Hash_Hex eth (Hash b),
     br_parent_hash = Hash_Hex eth (ParentHash b), br_block_time = uint (Time b)\<rparr>"

definition holds_save :: "'abi Eth \<Rightarrow> Block \<Rightarrow> Transfer list \<Rightarrow> PgTables \<Rightarrow> bool" where
  "holds_save eth b ts tabs \<longleftrightarrow>
     uint (Number b) < 2 ^ 63 \<and> uint (Time b) < 2 ^ 63 \<and>
     uint (Number b) \<in> br_number ` set (t_blocks tabs) \<and>
     (\<forall>r \<in> set (t_blocks tabs). br_number r = uint (Number b) \<longrightarrow> r = blockRow_of eth b) \<and>
     (\<forall>t \<in> set ts. uint (LogIndex t) < 2 ^ 63 \<and> (\<exists>r \<in> set (t_transfers tabs).
        tr_tx_hash r = Hash_Hex eth (TxHash t) \<and> tr_log_index r = uint (LogIndex t)))"

lemma upsertBlock_holds:
  assumes "upsertBlock eth b tabs = Ok tabs'"
  shows "holds_save eth b [] tabs'"
proof -
  have fits: "uint (Number b) < 2 ^ 63" "uint (Time b) < 2 ^ 63"
    and tabs': "tabs' = (if uint (Number b) \<in> br_number ` set (t_blocks tabs)
       then tabs\<lparr>t_blocks := map (\<lambda>r. if br_number r = uint (Number b) then blockRow_of eth b else r) (t_blocks tabs)\<rparr>
       else tabs\<lparr>t_blocks := t_blocks tabs @ [blockRow_of eth b]\<rparr>)"
    using assms by (auto simp: upsertBlock_def bigintArg_def Let_def blockRow_of_def split: if_splits)
  have num: "br_number (blockRow_of eth b) = uint (Number b)" by (simp add: blockRow_of_def)
  have "uint (Number b) \<in> br_number ` set (t_blocks tabs')"
    using upsertBlock_succeeds [of b eth tabs] fits assms by (simp add: pg_indexable_def)
  moreover have "r = blockRow_of eth b" if "r \<in> set (t_blocks tabs')" "br_number r = uint (Number b)" for r
  proof (cases "uint (Number b) \<in> br_number ` set (t_blocks tabs)")
    case True
    then show ?thesis using that tabs' by (auto split: if_splits)
  next
    case False
    then have "r \<notin> set (t_blocks tabs)" using that(2) by (metis imageI)
    then show ?thesis using that(1) tabs' False by simp
  qed
  ultimately show ?thesis using fits by (simp add: holds_save_def)
qed

lemma insertTransfer_holds:
  assumes "insertTransfer eth (Number b) t c tabs = Ok tabs'" and "holds_save eth b ts tabs"
  shows "holds_save eth b (ts @ [t]) tabs'"
proof -
  have li: "uint (LogIndex t) < 2 ^ 63" and same: "t_blocks tabs' = t_blocks tabs"
    and sub: "set (t_transfers tabs) \<subseteq> set (t_transfers tabs')"
    and key: "\<exists>r \<in> set (t_transfers tabs'). tr_tx_hash r = Hash_Hex eth (TxHash t) \<and> tr_log_index r = uint (LogIndex t)"
    using assms(1) by (auto simp: insertTransfer_def bigintArg_def Let_def split: if_splits)
  have "\<exists>r \<in> set (t_transfers tabs'). tr_tx_hash r = Hash_Hex eth (TxHash u) \<and> tr_log_index r = uint (LogIndex u)"
    if "u \<in> set ts" for u
    using that assms(2) sub unfolding holds_save_def by blast
  then show ?thesis using assms(2) li key by (simp add: holds_save_def same)
qed

lemma saveStatements_holds:
  assumes "saveStatements eth b ts c view = (Ok (), view')"
  shows "holds_save eth b ts (pg_tables view')"
proof -
  have stmt: "stmt (pg_tables v) = Ok (pg_tables v')" if "wrap_eff p (txExec stmt) v = (Ok (), v')" for p stmt v v'
    using that by (auto simp: wrap_eff_def txExec_def Let_def split: prod.splits result.splits if_splits)
  have inserts: "holds_save eth b (pre @ ts) (pg_tables v')"
    if "for_each ts (\<lambda>t. wrap_eff p (txExec (insertTransfer eth (Number b) t c))) v = (Ok (), v')"
      "holds_save eth b pre (pg_tables v)" for p ts pre v v'
    using that
  proof (induction ts arbitrary: pre v)
    case (Cons t ts)
    then obtain v1 where v1: "wrap_eff p (txExec (insertTransfer eth (Number b) t c)) v = (Ok (), v1)"
      and rest: "for_each ts (\<lambda>t. wrap_eff p (txExec (insertTransfer eth (Number b) t c))) v1 = (Ok (), v')"
      by (auto simp: bnd_eq_Ok)
    from Cons.IH [OF rest insertTransfer_holds [OF stmt [OF v1] Cons.prems(2)]] show ?case by simp
  qed (simp add: ret_def)
  obtain v1 where "wrap_eff ''upsert block'' (txExec (upsertBlock eth b)) view = (Ok (), v1)"
    "for_each ts (\<lambda>t. wrap_eff ''insert transfer'' (txExec (insertTransfer eth (Number b) t c))) v1 = (Ok (), view')"
    using assms by (auto simp: saveStatements_def bnd_eq_Ok)
  then show ?thesis using inserts [where pre = "[]"] upsertBlock_holds stmt by fastforce
qed

lemma holds_save_stable:
  assumes "holds_save eth b ts tabs"
  shows "upsertBlock eth b tabs = Ok tabs"
    and "t \<in> set ts \<Longrightarrow> insertTransfer eth (Number b) t c tabs = Ok tabs"
proof -
  have "map (\<lambda>r. if br_number r = uint (Number b) then blockRow_of eth b else r) (t_blocks tabs) = t_blocks tabs"
    using assms by (intro map_idI) (auto simp: holds_save_def)
  note same = this [unfolded blockRow_of_def]
  show "upsertBlock eth b tabs = Ok tabs"
    using assms by (simp add: upsertBlock_def holds_save_def Let_def same)
  show "t \<in> set ts \<Longrightarrow> insertTransfer eth (Number b) t c tabs = Ok tabs"
    using assms by (auto simp: insertTransfer_def holds_save_def Let_def)
qed

lemma pg_SaveBlock_again:
  assumes "pg_SaveBlock eth b ts c db = (Ok (), db')" and calm': "calm db'"
  shows "pg_SaveBlock eth b ts c' db' = (Ok (), db')"
proof -
  obtain fs view where "saveStatements eth b ts c (db\<lparr>pg_faults := fs\<rparr>) = (Ok (), view)"
    and "pg_tables view = pg_tables db'"
    using assms(1) by (auto simp: pg_SaveBlock_def split: prod.splits if_splits result.splits fault.splits)
  then have holds: "holds_save eth b ts (pg_tables db')" using saveStatements_holds by metis
  have tx: "wrap_eff p (txExec stmt) db' = (Ok (), db')" if "stmt (pg_tables db') = Ok (pg_tables db')" for p stmt
    using that calm' by (simp add: wrap_eff_def txExec_def)
  have ins: "for_each us (\<lambda>t. wrap_eff p (txExec (insertTransfer eth (Number b) t c'))) db' = (Ok (), db')"
    if "set us \<subseteq> set ts" for us p
    using that by (induction us) (auto simp: ret_def tx holds_save_stable(2) [OF holds])
  have "saveStatements eth b ts c' db' = (Ok (), db')"
    unfolding saveStatements_def using ins [of ts] tx holds_save_stable(1) [OF holds] by simp
  moreover have "db'\<lparr>pg_faults := []\<rparr> = db'" using calm' by (cases db') simp
  ultimately have "saveStatements eth b ts c' (db'\<lparr>pg_faults := []\<rparr>) = (Ok (), db')" by (simp only:)
  then show ?thesis using calm' by (simp add: pg_SaveBlock_def)
qed

lemma calm_store:
  "triple calm (SaveBlock (pgStore eth) b ts c) (\<lambda>_. calm) calm"
  "triple calm (LastBlock (pgStore eth)) (\<lambda>_. calm) calm"
  "triple calm (BlockByNumber (pgStore eth) n) (\<lambda>_. calm) calm"
  "triple calm (DeleteFrom (pgStore eth) n) (\<lambda>_. calm) calm"
  "triple calm (ConfirmThrough (pgStore eth) n) (\<lambda>_. calm) calm"
  by (simp_all add: pgStore_def pg_LastBlock_def pg_BlockByNumber_def pg_DeleteFrom_def
    pg_ConfirmThrough_def calm_SaveBlock calm_poolExec calm_poolQuery)

lemma pg_calm_law:
  assumes "triple (at_view (pg_inv eth) bs rs B R) m Q E" and "triple calm m (\<lambda>_. calm) calm"
    and "\<And>x db. Q x db \<and> calm db \<Longrightarrow> Q' x db" and "\<And>db. E db \<and> calm db \<Longrightarrow> E' db"
  shows "triple (at_view (pg_calm eth) bs rs B R) m Q' E'"
  by (rule triple_conseq [OF triple_conj [OF assms(1,2)]])
     (simp_all add: at_view_def pg_calm_def assms(3,4))

lemmas pg_calm_view = at_view_def pg_calm_def

abbreviation calm_view :: "'abi Eth \<Rightarrow> (u64 \<rightharpoonup> Block) \<Rightarrow> storedTransfer list \<Rightarrow> PgDB \<Rightarrow> bool" where
  "calm_view eth \<equiv> at_view (pg_calm eth) (pg_blocks eth) (pg_rows eth)"

interpretation pgc: reliable_store "pgStore eth" "pg_calm eth" "pg_blocks eth" "pg_rows eth"
  pg_indexable pg_storable for eth
proof
  show "pg_calm eth s \<Longrightarrow> pg_blocks eth s n = Some b \<Longrightarrow> Number b = n" for s n b by (auto simp: pg_calm_def intro: pg.keyed)
  show "pg_calm eth s \<Longrightarrow> r \<in> set (pg_rows eth s) \<Longrightarrow> st_block r \<in> dom (pg_blocks eth s)" for s r
    by (simp add: pg_calm_def pg_rows_indexed)
  show "triple (calm_view eth B R) (SaveBlock (pgStore eth) b ts c)
     (\<lambda>_ s. pg_calm eth s \<and> pg_blocks eth s = B(Number b \<mapsto> b) \<and>
        rows_extended R (Number b) ts c (pg_rows eth s))
     (\<lambda>s. pg_calm eth s \<and> (pg_blocks eth s = B \<and> pg_rows eth s = R \<or>
        pg_blocks eth s = B(Number b \<mapsto> b) \<and> rows_extended R (Number b) ts c (pg_rows eth s)))" for B R b ts c
    by (rule pg_calm_law [OF pg.save_law calm_store(1)]) (auto simp: pg_calm_def)
  show "triple (calm_view eth B R) (LastBlock (pgStore eth)) (\<lambda>r s. calm_view eth B R s \<and> is_last B r) (calm_view eth B R)" for B R
    by (rule pg_calm_law [OF pg.last_law calm_store(2)]) (auto simp: pg_calm_view)
  show "triple (calm_view eth B R) (BlockByNumber (pgStore eth) n) (\<lambda>r s. calm_view eth B R s \<and> r = B n) (calm_view eth B R)" for B R n
    by (rule pg_calm_law [OF pg.get_law calm_store(3)]) (auto simp: pg_calm_view)
  show "triple (calm_view eth B R) (DeleteFrom (pgStore eth) n) (\<lambda>_. calm_view eth (blocks_below n B) (rows_below n R))
     (\<lambda>s. calm_view eth B R s \<or> calm_view eth (blocks_below n B) (rows_below n R) s)" for B R n
    by (rule pg_calm_law [OF pg.delete_law calm_store(4)]) (auto simp: pg_calm_view)
  show "triple (calm_view eth B R) (ConfirmThrough (pgStore eth) n) (\<lambda>_. calm_view eth B (confirm_rows n R))
     (\<lambda>s. calm_view eth B R s \<or> calm_view eth B (confirm_rows n R) s)" for B R n
    by (rule pg_calm_law [OF pg.confirm_law calm_store(5)]) (auto simp: pg_calm_view)
  show "pg_calm eth s \<Longrightarrow> pg_storable b ts \<Longrightarrow> is_Ok (fst (SaveBlock (pgStore eth) b ts c s))" for s b ts c
    by (simp add: pgStore_def pg_calm_def pg_SaveBlock_succeeds)
  show "pg_calm eth s \<Longrightarrow> is_Ok (fst (LastBlock (pgStore eth) s))" for s by (simp add: pgStore_def pg_LastBlock_succeeds)
  show "pg_calm eth s \<Longrightarrow> pg_indexable n \<Longrightarrow> is_Ok (fst (BlockByNumber (pgStore eth) n s))" for s n
    by (simp add: pgStore_def pg_BlockByNumber_succeeds)
  show "pg_calm eth s \<Longrightarrow> pg_indexable n \<Longrightarrow> is_Ok (fst (DeleteFrom (pgStore eth) n s))" for s n
    by (simp add: pgStore_def pg_DeleteFrom_def poolExec_def deleteBlocks_def pg_calm_def pg_indexable_def Let_def)
  show "pg_calm eth s \<Longrightarrow> pg_indexable n \<Longrightarrow> is_Ok (fst (ConfirmThrough (pgStore eth) n s))" for s n
    by (simp add: pgStore_def pg_ConfirmThrough_def poolExec_def confirmTransfers_def pg_calm_def pg_indexable_def Let_def)
qed

end
