(* ===== verification/Chain_Props.thy ===== *)
theory Chain_Props
  imports Chain_Postgres
begin

text \<open>
  The properties of the chain monitor, stated over its two stores. \<open>MemStore\<close> and
  \<open>PostgresStore\<close> instances come from the interpretations of the store contract; the witnesses
  run on a three-block chain (\<open>demoChain\<close>) whose blocks 1 and 2 a reorg replaces.
\<close>

section \<open>A small chain\<close>

definition demoEth :: "unit Eth" where
  "demoEth =
     \<lparr>abi_JSON = (\<lambda>_. Ok ()), event_ID = (\<lambda>_ _. 7),
      UnpackIntoInterface = (\<lambda>_ _ bs. if length bs < 32 then Inl (Opaque ''short data'')
                                      else Inr (be_value (take 32 bs))),
      Pack = (\<lambda>_ _ _. Ok []), Unpack = (\<lambda>_ _ bs. Ok [BigInt (be_value bs)]),
      Hash_Hex = (\<lambda>h. utoa (unat h)), Address_Hex = (\<lambda>a. utoa (unat a)),
      HexToHash = (\<lambda>s. word_of_nat (dec_value s)), HexToAddress = (\<lambda>s. word_of_nat (dec_value s)),
      IsHexAddress = (\<lambda>_. True)\<rparr>"

definition demoDecoder :: "unit transferDecoder" where
  "demoDecoder = \<lparr>td_abi = (), TopicID = 7\<rparr>"

text \<open>Hashes of the blocks from number 1 on carry the salt of their fork.\<close>

definition demoHash :: "hash \<Rightarrow> u64 \<Rightarrow> hash" where
  "demoHash salt n = (if n = 0 then 1 else ucast n + 1 + salt)"

definition demoChain :: "hash \<Rightarrow> u64 \<Rightarrow> Header" where
  "demoChain salt n =
     \<lparr>h_Number = uint n, h_ParentHash = (if n = 0 then 0 else demoHash salt (n - 1)),
      h_Time = n, h_Hash = demoHash salt n\<rparr>"

definition demoParent :: "hash \<Rightarrow> hash" where
  "demoParent x = (if x = 1002 then 1 else x - 1)"

definition demoLog :: "int \<Rightarrow> Log" where
  "demoLog n = \<lparr>l_Address = 5, l_Topics = [7, 8, 9], l_Data = replicate 31 0 @ [word_of_int n],
     l_TxHash = word_of_int n, l_Index = 0\<rparr>"

definition demoBackend :: "hash \<Rightarrow> ChainBackend" where
  "demoBackend salt =
     \<lparr>HeaderByNumber = (\<lambda>n. case n of
          None \<Rightarrow> Ok (demoChain salt 2)
        | Some i \<Rightarrow> if 0 \<le> i \<and> i \<le> 2 then Ok (demoChain salt (word_of_int i))
                    else Err (Opaque ''not found'')),
      FilterLogs = (\<lambda>q. Ok [demoLog (FromBlock q)])\<rparr>"

definition demoMonitor :: "hash \<Rightarrow> 's Store \<Rightarrow> 'b Bus \<Rightarrow> (unit, 's, 'b) Monitor" where
  "demoMonitor salt st bs =
     \<lparr>backend = demoBackend salt, store = st, bus = bs, decoder = demoDecoder,
      cfg = \<lparr>Confirmations = 1, PollInterval = 12000000000, StartBlock = 0, Tokens = []\<rparr>\<rparr>"

definition demoPoll :: "hash \<Rightarrow> poll" where
  "demoPoll salt = \<lparr>p_backend = demoBackend salt, p_ctx = (\<lambda>_. None), p_done = False\<rparr>"

text \<open>The store after the monitor has indexed the original fork (salt 0).\<close>

definition demoBlocks :: "(u64 \<times> Block) list" where
  "demoBlocks = map (\<lambda>n. (n, headerBlock n (demoChain 0 n))) [0, 1, 2]"

definition demoTransfer :: "u64 \<Rightarrow> bool \<Rightarrow> storedTransfer" where
  "demoTransfer n c =
     \<lparr>st_block = n,
      st_transfer = \<lparr>Token = 5, From = 8, To = 9, Value = uint n, TxHash = ucast n, LogIndex = 0\<rparr>,
      st_confirmed = c\<rparr>"

definition demoStore :: MemStore where
  "demoStore = \<lparr>m_blocks = demoBlocks,
     m_transfers = [demoTransfer 0 True, demoTransfer 1 True, demoTransfer 2 False]\<rparr>"

text \<open>A bus whose publications all fail.\<close>

definition brokenBus :: "unit Bus" where
  "brokenBus = \<lparr>Publish = (\<lambda>_ _ b. (Err (Opaque ''no connection''), b))\<rparr>"

definition emptyDB :: "fault list \<Rightarrow> PgDB" where
  "emptyDB fs = \<lparr>pg_tables = \<lparr>t_blocks = [], t_transfers = []\<rparr>, pg_faults = fs\<rparr>"

definition demoDB :: PgDB where
  "demoDB = \<lparr>pg_tables =
       \<lparr>t_blocks = map (\<lambda>n. \<lparr>br_number = n, br_hash = utoa (nat n + 1), br_parent_hash = utoa (nat n),
                        br_block_time = n\<rparr>) [0, 1, 2],
        t_transfers = map (\<lambda>n. \<lparr>tr_block_number = n, tr_token = ''5'', tr_from = ''8'', tr_to = ''9'',
                        tr_value = n, tr_tx_hash = utoa (nat n), tr_log_index = 0,
                        tr_confirmed = (n \<le> 1)\<rparr>) [0, 1, 2]\<rparr>,
     pg_faults = [FailAfter]\<rparr>"

lemma demo_hex_lawful: "hex_lawful demoEth"
proof -
  have "word_of_nat (unat (h :: hash)) = (ucast h :: address)" for h
    by (rule of_nat_unat)
  then show ?thesis by (simp add: hex_lawful_def demoEth_def dec_value_utoa)
qed

lemma demo_abi_lawful: "transfer_abi_lawful demoEth a"
  by (simp add: transfer_abi_lawful_def demoEth_def)

lemma demo_heads: "heads_below 2 (demoBackend salt)"
  by (simp add: heads_below_def demoBackend_def demoChain_def)

lemma demo_range: "n \<le> 2 \<longleftrightarrow> n = 0 \<or> n = 1 \<or> n = (2 :: u64)"
proof -
  have "unat n \<le> 2 \<longleftrightarrow> unat n = 0 \<or> unat n = 1 \<or> unat n = 2" by auto
  then show ?thesis by (simp add: word_le_nat_alt word_unat_eq_iff)
qed

lemma demo_order: "\<not> 2 \<le> (1 :: u64)"
  by (simp add: word_le_nat_alt)

lemma demo_buses: "bus_total captureBus" "bus_total brokenBus"
  by (simp_all add: bus_total_def captureBus_def brokenBus_def)

lemma demo_canonical: "canonical (demoChain 0) 2 demoParent" "canonical (demoChain 1000) 2 demoParent"
proof -
  have "unat n < 2 \<longleftrightarrow> unat n = 0 \<or> unat n = 1" for n :: u64 by auto
  then have "n < 2 \<longleftrightarrow> n = 0 \<or> n = (1 :: u64)" for n
    by (simp add: word_less_nat_alt word_unat_eq_iff)
  then show "canonical (demoChain 0) 2 demoParent" "canonical (demoChain 1000) 2 demoParent"
    by (auto simp: canonical_def demo_range demoChain_def demoHash_def demoParent_def)
qed

lemma demo_serves: "serves (demoBackend salt) (demoChain salt) 2"
  by (auto simp: serves_def demo_range demoBackend_def)

lemma demo_storable:
  assumes n: "n \<le> 2" and b: "backend m = demoBackend salt" and ts: "fetchTransfers eth m n = Ok ts"
  shows "pg_storable (headerBlock n (demoChain salt n)) ts"
proof -
  have "LogIndex t = 0" if "t \<in> set ts" for t
    by (rule fetchTransfers_provenance [OF ts that])
       (auto simp: b demoBackend_def demoLog_def dest: decode_provenance)
  then show ?thesis
    using n by (auto simp: demo_range pg_storable_def pg_indexable_def headerBlock_def demoChain_def)
qed

lemma demo_blocks_Some:
  "map_of demoBlocks n = Some b \<longleftrightarrow> n \<le> 2 \<and> b = headerBlock n (demoChain 0 n)"
  by (auto simp: demoBlocks_def demo_range)

lemma demo_mem_inv: "mem_inv demoStore"
  by (simp add: mem_inv_def demoStore_def demoBlocks_def demoTransfer_def headerBlock_def)

lemma demo_following: "following demoParent 2 (mem_blocks demoStore)"
proof -
  have B: "mem_blocks demoStore n = Some b \<longleftrightarrow> n \<le> 2 \<and> b = headerBlock n (demoChain 0 n)" for n b
    by (simp add: mem_blocks_def demoStore_def demo_blocks_Some)
  have dom: "dom (mem_blocks demoStore) = {n. n \<le> 2}" by (auto simp: dom_def B)
  have "linked (mem_blocks demoStore)"
    by (auto simp: linked_def B demo_range headerBlock_def demoChain_def demoHash_def)
  moreover have "gap_free (mem_blocks demoStore)"
    unfolding gap_free_def dom by (auto intro: order_trans)
  moreover have "commits demoParent (mem_blocks demoStore)"
    by (auto simp: commits_def B demo_range headerBlock_def demoChain_def demoHash_def demoParent_def)
  moreover have "- 1 \<notin> dom (mem_blocks demoStore)" unfolding dom by (simp add: demo_range)
  ultimately show ?thesis unfolding following_def index_ok_def by (simp add: dom)
qed

lemma demo_conf_sound: "conf_sound 1 2 (m_transfers demoStore)"
  by (simp add: conf_sound_def demoStore_def demoTransfer_def)

lemma demo_stale: "card (stale (demoChain 1000) (mem_blocks demoStore)) < 3"
proof -
  have "stale (demoChain 1000) (mem_blocks demoStore) \<subseteq> {1, 2}"
    by (auto simp: stale_def mem_blocks_def demoStore_def demo_blocks_Some demo_range headerBlock_def
        demoChain_def demoHash_def)
  then have "card (stale (demoChain 1000) (mem_blocks demoStore)) \<le> card {1, 2 :: u64}"
    by (intro card_mono) simp_all
  then show ?thesis by simp
qed

lemma demo_pg: "pg_inv demoEth (emptyDB fs)" "pg_blocks demoEth (emptyDB fs) = Map.empty"
    "pg_rows demoEth (emptyDB fs) = []" "pg_faults (emptyDB fs) = fs"
  by (simp_all add: pg_inv_def demo_hex_lawful emptyDB_def tabs_ok_def pg_blocks_def tab_blocks_def
      pg_rows_def tab_rows_def)


section \<open>The index invariant\<close>

text \<open>C1. Whatever the nodes answer and whichever calls to the database are lost, before or after
  they took effect, \<^verbatim>\<open>Run\<close> over a \<^verbatim>\<open>PostgresStore\<close> returns from every finite run of polls and leaves
  an index that is gap-free and hash-linked, tables whose keys are unique and whose transfers
  all belong to an indexed block, and no transfer confirmed less than \<^verbatim>\<open>Confirmations\<close> blocks
  below the highest head \<open>H\<close> any node reported.\<close>

theorem pg_Run_invariant:
  assumes "store m = pgStore eth" and "\<forall>p \<in> set ps. heads_below H (p_backend p)"
    and "pg_inv eth db" and "index_ok (pg_blocks eth db)"
    and "conf_sound (Confirmations (cfg m)) H (pg_rows eth db)"
  shows "\<exists>r db' b'. Run eth m ps (db, b) = Some (r, (db', b')) \<and> pg_inv eth db' \<and>
    index_ok (pg_blocks eth db') \<and> conf_sound (Confirmations (cfg m)) H (pg_rows eth db')"
  using pg.Run_preserves [OF assms(1,2), of "(db, b)" eth] assms(3-5) by (auto simp: pg.W_def)

theorem pg_Run_invariant_witness:
  "\<exists>r db' b'. Run demoEth (demoMonitor 0 (pgStore demoEth) captureBus)
      [demoPoll 0, demoPoll 1000, demoPoll 1000] (emptyDB [NoFault, NoFault, FailAfter, FailBefore], [])
      = Some (r, (db', b')) \<and> pg_inv demoEth db' \<and>
    index_ok (pg_blocks demoEth db') \<and> conf_sound 1 2 (pg_rows demoEth db')"
  using pg_Run_invariant [where m = "demoMonitor 0 (pgStore demoEth) captureBus" and eth = demoEth
      and ps = "[demoPoll 0, demoPoll 1000, demoPoll 1000]" and H = 2 and b = "[]"
      and db = "emptyDB [NoFault, NoFault, FailAfter, FailBefore]"]
  by (simp add: demoMonitor_def demoPoll_def demo_heads demo_pg conf_sound_def)

text \<open>The same invariant for the in-memory store: any finite run of polls keeps the index
  gap-free and hash-linked, every stored transfer in an indexed block, and every confirmed
  transfer at least \<^verbatim>\<open>Confirmations\<close> below the highest head.\<close>

theorem mem_Run_invariant:
  assumes "store m = memStore" and "\<forall>p \<in> set ps. heads_below H (p_backend p)"
    and "mem_inv s" and "index_ok (mem_blocks s)"
    and "conf_sound (Confirmations (cfg m)) H (m_transfers s)"
  shows "\<exists>r s' b'. Run eth m ps (s, b) = Some (r, (s', b')) \<and> mem_inv s' \<and>
    index_ok (mem_blocks s') \<and> conf_sound (Confirmations (cfg m)) H (m_transfers s')"
  using mem.Run_preserves [OF assms(1,2), of "(s, b)" eth] assms(3-5) by (auto simp: mem.W_def)

theorem mem_Run_invariant_witness:
  "\<exists>r s' b'. Run demoEth (demoMonitor 0 memStore captureBus) [demoPoll 1000, demoPoll 0] (demoStore, [])
      = Some (r, (s', b')) \<and> mem_inv s' \<and>
    index_ok (mem_blocks s') \<and> conf_sound 1 2 (m_transfers s')"
  using mem_Run_invariant [where m = "demoMonitor 0 memStore captureBus" and eth = demoEth
      and ps = "[demoPoll 1000, demoPoll 0]" and H = 2 and s = demoStore and b = "[]"]
    demo_following demo_conf_sound
  by (simp add: demoMonitor_def demoPoll_def demo_heads demo_mem_inv following_def)


section \<open>Convergence after a reorg\<close>






section \<open>Confirmation\<close>

text \<open>C5. Confirmation is exact. When the index already agrees with the canonical chain, one \<^verbatim>\<open>Sync\<close>
  succeeds, indexes up to the head, and afterwards a stored transfer is confirmed if and only if
  its block is at least \<^verbatim>\<open>Confirmations\<close> blocks below the head.\<close>

theorem pg_Sync_confirms_exactly:
  assumes "store m = pgStore eth" and "bus_total (bus m)" and "canonical C h par" and "serves (backend m) C h"
    and "uint h < 2 ^ 63"
    and "\<And>n ts. n \<le> h \<Longrightarrow> fetchTransfers eth m n = Ok ts \<Longrightarrow> pg_storable (headerBlock n (C n)) ts"
    and "StartBlock (cfg m) \<le> h"
    and "pg_calm eth db" and "following par h (pg_blocks eth db)" and "stale C (pg_blocks eth db) = {}"
    and "conf_sound (Confirmations (cfg m)) (unat h) (pg_rows eth db)"
  shows "\<exists>db' b'. Sync eth m (\<lambda>_. None) (db, b) = Some (Ok (), (db', b')) \<and> synced C h (pg_blocks eth db') \<and>
    (\<forall>r \<in> set (pg_rows eth db'). st_confirmed r \<longleftrightarrow>
        unat (st_block r) + unat (Confirmations (cfg m)) \<le> unat h)"
proof -
  have ix: "pg_indexable n" if "n \<le> h" for n
    using that assms(5) by (simp add: pg_indexable_def word_le_def)
  have h1: "h \<noteq> - 1"
    using assms(5) by (auto simp: unsigned_minus_1_eq_mask mask_eq_exp_minus_1)
  have hd: "HeaderByNumber (backend m) None = Ok (C h)" and num: "h_Number (C h) = uint h"
    using assms(3,4) unfolding serves_def canonical_def by blast+
  have wn: "h = word_of_int (h_Number (C h))" unfolding num by simp
  have heads: "word_of_int (h_Number x) \<noteq> (- 1 :: u64) \<and> unat (word_of_int (h_Number x) :: u64) \<le> unat h"
    if "HeaderByNumber (backend m) None = Ok x" for x
    using that hd num h1 by simp
  have start: "chain_store.W (pg_calm eth) (pg_blocks eth) (pg_rows eth) (\<lambda>B R. B = pg_blocks eth db \<and> following par h (pg_blocks eth db)) (db, b)"
    "chain_store.W (pg_calm eth) (pg_blocks eth) (pg_rows eth) (\<lambda>B R. \<forall>n \<in> dom B. n \<le> h) (db, b)"
    "chain_store.W (pg_calm eth) (pg_blocks eth) (pg_rows eth) (\<lambda>B R. index_ok B \<and> conf_sound (Confirmations (cfg m)) (unat h) R) (db, b)"
    unfolding pgc.W_def fst_conv using assms(8,9,11) unfolding following_def by blast+
  obtain w where S: "Sync eth m (\<lambda>_. None) (db, b) = Some (Ok (), w)"
    and "chain_store.W (pg_calm eth) (pg_blocks eth) (pg_rows eth) (\<lambda>B R. following par h B \<and>
         (if stale C (pg_blocks eth db) = {} then synced C h B \<and> stale C B = {}
          else card (stale C B) < card (stale C (pg_blocks eth db)))) w"
    using pgc.Sync_canonical [where eth = eth and etha = eth, OF assms(1-4) ix assms(6,7) h1 start(1)] by blast
  then have syn: "synced C h (pg_blocks eth (fst w))"
    using assms(10) by (simp add: pgc.W_def)
  have "conf_complete (Confirmations (cfg m)) h (pg_rows eth (fst w))"
    using pgc.Sync_confirms [where eth = eth and etha = eth and ctx = "\<lambda>_. None",
        OF assms(1) hd wn h1 start(2)] S syn
    by (simp add: pgc.W_def synced_def)
  moreover have "conf_sound (Confirmations (cfg m)) (unat h) (pg_rows eth (fst w))"
    using pgc.Sync_preserves [where eth = eth and etha = eth and ctx = "\<lambda>_. None",
        OF assms(1) heads start(3)] S
    by (simp add: pgc.W_def)
  ultimately show ?thesis
    using S syn by (intro exI [of _ "fst w"] exI [of _ "snd w"]) (auto simp: conf_complete_def conf_sound_def)
qed

theorem pg_Sync_confirms_exactly_witness:
  "\<exists>db' b'. Sync demoEth (demoMonitor 0 (pgStore demoEth) captureBus) (\<lambda>_. None) (emptyDB [], [])
      = Some (Ok (), (db', b')) \<and> synced (demoChain 0) 2 (pg_blocks demoEth db') \<and>
    (\<forall>r \<in> set (pg_rows demoEth db'). st_confirmed r \<longleftrightarrow>
        unat (st_block r) + unat (Confirmations (cfg (demoMonitor 0 (pgStore demoEth) captureBus))) \<le> unat (2 :: u64))"
  by (rule pg_Sync_confirms_exactly [where par = demoParent])
     (auto intro!: demo_storable simp: demo_buses demo_serves demo_canonical demo_pg pg_calm_def demoMonitor_def
       following_def commits_def stale_def conf_sound_def)


section \<open>The event bus\<close>

text \<open>C13. Events are best effort: two monitors that differ in nothing but the bus return the same
  result from \<^verbatim>\<open>Run\<close> and leave the same store, however publications fail on either bus.\<close>

theorem Run_ignores_bus:
  assumes "same_but_bus m m'" and "\<forall>p \<in> set ps. heads_below H (p_backend p)"
  shows "map_option obs (Run eth m ps (s, b)) = map_option obs (Run eth m' ps (s, c))"
  by (rule Run_blind [OF assms])

theorem Run_ignores_bus_witness:
  "map_option obs (Run demoEth (demoMonitor 0 memStore captureBus) [demoPoll 0, demoPoll 1000] (demoStore, [])) =
   map_option obs (Run demoEth (demoMonitor 0 memStore brokenBus) [demoPoll 0, demoPoll 1000] (demoStore, ()))"
  by (rule Run_ignores_bus [where H = 2])
     (simp_all add: same_but_bus_def demoMonitor_def demo_buses demoPoll_def demo_heads)




section \<open>Rollback and confirmed data\<close>

text \<open>C27. Within the confirmation window a rollback never loses confirmed data: if no transfer is
  confirmed less than \<open>c\<close> below the highest head \<open>H\<close> and the rolled back height is above \<open>H - c\<close>,
  the confirmed transfers before and after are the same, also when the deletion fails half way.\<close>

theorem pg_rollback_in_window:
  assumes "store m = pgStore eth" and "pg_inv eth db" and "conf_sound c H (pg_rows eth db)"
    and "H < unat n + unat c"
  shows "\<exists>r db' b'. rollback m n (db, b) = (r, (db', b')) \<and>
    filter st_confirmed (pg_rows eth db') = filter st_confirmed (pg_rows eth db)"
proof -
  let ?p = "\<lambda>B R. R = pg_rows eth db"
  let ?q = "\<lambda>B R. filter st_confirmed R = filter st_confirmed (pg_rows eth db)"
  have low: "st_block r < n" if "r \<in> set (pg_rows eth db)" "st_confirmed r" for r
    using that assms(3,4) by (fastforce simp: conf_sound_def word_less_nat_alt)
  have "filter st_confirmed (rows_below n (pg_rows eth db)) = filter st_confirmed (pg_rows eth db)"
    unfolding rows_below_def filter_filter by (rule filter_cong) (auto dest: low)
  then have "triple (chain_store.W (pg_inv eth) (pg_blocks eth) (pg_rows eth) ?p) (rollback m n)
      (\<lambda>_. chain_store.W (pg_inv eth) (pg_blocks eth) (pg_rows eth) ?q)
      (chain_store.W (pg_inv eth) (pg_blocks eth) (pg_rows eth) ?q)"
    by (intro pg.rollback_rule [OF assms(1)]) simp_all
  moreover have "chain_store.W (pg_inv eth) (pg_blocks eth) (pg_rows eth) ?p (db, b)"
    using assms(2) by (simp add: pg.W_def)
  ultimately have "chain_store.W (pg_inv eth) (pg_blocks eth) (pg_rows eth) ?q (snd (rollback m n (db, b)))"
    by (cases "rollback m n (db, b)"; cases "fst (rollback m n (db, b))")
       (auto dest: triple_okD triple_errD triple_panicD)
  then show ?thesis by (cases "rollback m n (db, b)") (auto simp: pg.W_def)
qed

theorem pg_rollback_in_window_witness:
  "\<exists>r db' b'. rollback (demoMonitor 0 (pgStore demoEth) captureBus) 2 (demoDB, []) = (r, (db', b')) \<and>
    filter st_confirmed (pg_rows demoEth db') = filter st_confirmed (pg_rows demoEth demoDB)"
  by (rule pg_rollback_in_window [where c = 1 and H = 2])
     (simp_all add: demoMonitor_def pg_inv_def demo_hex_lawful tabs_ok_def demoDB_def conf_sound_def
       pg_rows_def tab_rows_def row_transfer_def)



section \<open>Decoding and idempotence\<close>

text \<open>C29. \<^verbatim>\<open>decode\<close> inverts the ABI encoding of a \<^verbatim>\<open>Transfer\<close> event: from a log with the event's
  topic, the two addresses left-padded to 32 bytes and the value as 32 big-endian bytes it returns
  exactly the transfer.\<close>

theorem decode_encoded:
  assumes "hex_lawful eth" and "transfer_abi_lawful eth (td_abi d)" and "0 \<le> Value t" and "Value t < 2 ^ 256"
  shows "decode eth d \<lparr>l_Address = Token t, l_Topics = [TopicID d, ucast (From t), ucast (To t)],
      l_Data = be_bytes 32 (Value t), l_TxHash = TxHash t, l_Index = LogIndex t\<rparr> = Some t"
proof -
  have "ucast (ucast a :: hash) = a" for a :: address by (rule ucast_up_ucast_id) (simp add: is_up)
  moreover have "be_value (be_bytes 32 (Value t)) = Value t"
    using be_value_be_bytes [of "Value t" 32] assms(3,4) by simp
  ultimately show ?thesis
    using assms(1,2) by (simp add: decode_def hex_lawfulD transfer_abi_lawful_def)
qed

theorem decode_encoded_witness:
  "decode demoEth demoDecoder \<lparr>l_Address = 5, l_Topics = [7, 8, 9], l_Data = be_bytes 32 4242,
      l_TxHash = 1, l_Index = 3\<rparr> =
   Some \<lparr>Token = 5, From = 8, To = 9, Value = 4242, TxHash = 1, LogIndex = 3\<rparr>"
  using decode_encoded [of demoEth demoDecoder
      "\<lparr>Token = 5, From = 8, To = 9, Value = 4242, TxHash = 1, LogIndex = 3\<rparr>"]
  by (simp add: demo_hex_lawful demo_abi_lawful demoDecoder_def)

text \<open>C28. Saving is idempotent in Postgres: once \<^verbatim>\<open>SaveBlock\<close> has succeeded, saving the same block
  with the same transfers again, with any confirmation flag, succeeds and changes no row. (The
  monitor retries a block whose commit was reported lost.)\<close>

theorem pg_SaveBlock_idempotent:
  assumes "pg_SaveBlock eth b ts c db = (Ok (), db')" and "pg_faults db' = []"
  shows "pg_SaveBlock eth b ts c' db' = (Ok (), db')"
  by (rule pg_SaveBlock_again [OF assms])

theorem pg_SaveBlock_idempotent_witness:
  "\<exists>db'. pg_SaveBlock demoEth (headerBlock 1 (demoChain 0 1)) [st_transfer (demoTransfer 1 False)] False (emptyDB [])
      = (Ok (), db') \<and>
    pg_SaveBlock demoEth (headerBlock 1 (demoChain 0 1)) [st_transfer (demoTransfer 1 False)] True db' = (Ok (), db')"
proof -
  have "\<exists>db'. pg_SaveBlock demoEth (headerBlock 1 (demoChain 0 1)) [st_transfer (demoTransfer 1 False)] False
      (emptyDB []) = (Ok (), db') \<and> pg_faults db' = []"
    by (simp add: pg_SaveBlock_def saveStatements_def bnd_def wrap_eff_def txExec_def upsertBlock_def
        insertTransfer_def Let_def emptyDB_def headerBlock_def demoChain_def demoTransfer_def ret_def)
  then show ?thesis using pg_SaveBlock_idempotent by blast
qed

end
