(* ===== verification/Chain_Termination.thy ===== *)
theory Chain_Termination
  imports Chain_Props
begin

text \<open>
  When a poll of the monitor ends: \<^verbatim>\<open>for n := from; n <= headNum; n++\<close> in \<^verbatim>\<open>Monitor.Sync\<close> counts with 64 bits, so it
  ends for every head but the largest.
\<close>

lemma syncLoop_returns:
  assumes "h \<noteq> - 1"
  shows "\<exists>r w'. syncLoop eth m ctx h f w = Some (r, w')"
proof -
  have "triple (\<lambda>_. True) (syncStep eth m ctx h n) (\<lambda>x w. case x of Continue \<Rightarrow> True | Return \<Rightarrow> True) (\<lambda>_. True)" for n
    by (auto simp: triple_def split: prod.splits result.splits flow.splits)
  from syncLoop_rule [where I = "\<lambda>_ _. True" and Q = "\<lambda>_. True" and R = "\<lambda>_. True", OF assms this TrueI] show ?thesis by blast
qed

lemma syncStart_head:
  assumes "syncStart m w = (Ok (Some (h, f)), w')"
  obtains head where "HeaderByNumber (backend m) None = Ok head" and "h = word_of_int (h_Number head)"
proof (cases "HeaderByNumber (backend m) None")
  case (Ok head)
  obtain x w1 where x: "on_fst (LastBlock (store m)) w = (x, w1)" by (cases "on_fst (LastBlock (store m)) w")
  obtain l where l: "x = Ok l" using assms Ok x by (cases x) (simp_all add: syncStart_def Let_def lift_def)
  have "h = word_of_int (h_Number head)"
  proof (cases l)
    case None
    then show ?thesis using assms Ok x l by (simp add: syncStart_def Let_def lift_def ret_def)
  next
    case (Some b)
    have run: "bnd (lift (HeaderByNumber (backend m) (Some (uint (Number b))))) (\<lambda>canon.
        if h_Hash canon \<noteq> Hash b then bnd (rollback m (Number b)) (\<lambda>_. ret None)
        else ret (Some (word_of_int (h_Number head), Number b + 1))) w1 = (Ok (Some (h, f)), w')"
      using assms Ok x l Some by (simp add: syncStart_def Let_def lift_def)
    obtain canon where c: "HeaderByNumber (backend m) (Some (uint (Number b))) = Ok canon"
      using run by (cases "HeaderByNumber (backend m) (Some (uint (Number b)))") (simp_all add: lift_def)
    obtain y w2 where y: "rollback m (Number b) w1 = (y, w2)" by (cases "rollback m (Number b) w1")
    show ?thesis
      using run c y by (cases y; cases "h_Hash canon = Hash b") (simp_all add: lift_def ret_def)
  qed
  then show thesis using that Ok by blast
qed (use assms in \<open>simp_all add: syncStart_def lift_def\<close>)

lemma Sync_returns:
  assumes "\<And>head. HeaderByNumber (backend m) None = Ok head \<Longrightarrow> word_of_int (h_Number head) \<noteq> (- 1 :: u64)"
  shows "\<exists>r w'. Sync eth m ctx w = Some (r, w')"
proof -
  obtain x w1 where x: "syncStart m w = (x, w1)" by (cases "syncStart m w")
  consider e where "x = Err e" | e where "x = Panic e" | "x = Ok None" | h f where "x = Ok (Some (h, f))"
    by (cases x) (auto, metis option.exhaust surj_pair)
  then show ?thesis
  proof cases
    case (4 h f)
    then obtain head where "HeaderByNumber (backend m) None = Ok head" "h = word_of_int (h_Number head)"
      using syncStart_head x by metis
    then have "h \<noteq> - 1" using assms [of head] by simp
    then obtain r w2 where "syncLoop eth m ctx h f w1 = Some (r, w2)" using syncLoop_returns [of h eth m ctx f w1] by blast
    then have "Sync eth m ctx w = Some (case r of Ok Continue \<Rightarrow> syncFinish m h w2 | Ok Return \<Rightarrow> (Ok (), w2)
        | Err e \<Rightarrow> (Err e, w2) | Panic p \<Rightarrow> (Panic p, w2))"
      using x 4 by (cases r) (simp_all add: Sync_def split: flow.splits)
    then show ?thesis by (metis surj_pair)
  qed (use x in \<open>simp_all add: Sync_def\<close>)
qed


section \<open>Properties\<close>

text \<open>C23. Polling ends: over any store and bus, with any failures of node, store, bus and context, every run of polls returns,
  as long as no node reports the block number 2^64 - 1 as its head.\<close>

theorem Run_returns:
  assumes "\<forall>p \<in> set ps. \<forall>head. HeaderByNumber (p_backend p) None = Ok head \<longrightarrow> word_of_int (h_Number head) \<noteq> (- 1 :: u64)"
  shows "\<exists>r w'. Run eth m ps w = Some (r, w')"
  using assms
proof (induction ps arbitrary: w)
  case (Cons p ps)
  have "word_of_int (h_Number head) \<noteq> (- 1 :: u64)" if "HeaderByNumber (p_backend p) None = Ok head" for head
    using Cons.prems that by simp
  then obtain r w1 where S: "Sync eth (m\<lparr>backend := p_backend p\<rparr>) (p_ctx p) w = Some (r, w1)"
    using Sync_returns [where m = "m\<lparr>backend := p_backend p\<rparr>" and eth = eth and ctx = "p_ctx p" and w = w] by auto
  obtain r' w' where "Run eth m ps w1 = Some (r', w')" using Cons.IH [of w1] Cons.prems by auto
  then show ?case using S by (cases r) auto
qed simp

theorem Run_returns_witness:
  "\<exists>r w'. Run demoEth (demoMonitor 0 memStore captureBus) [demoPoll 0, demoPoll 1000] (demoStore, []) = Some (r, w')"
  by (rule Run_returns) (simp add: demoPoll_def demoBackend_def demoChain_def)


section \<open>The largest head\<close>

text \<open>A node whose headers all link to each other and whose head is 2^64 - 1.\<close>

definition endlessBackend :: ChainBackend where
  "endlessBackend =
     \<lparr>HeaderByNumber = (\<lambda>_. Ok \<lparr>h_Number = 2 ^ 64 - 1, h_ParentHash = 0, h_Time = 0, h_Hash = 0\<rparr>), FilterLogs = (\<lambda>_. Ok [])\<rparr>"

definition endlessMonitor :: "(unit, MemStore, capture) Monitor" where
  "endlessMonitor = (demoMonitor 0 memStore captureBus)\<lparr>backend := endlessBackend\<rparr>"

definition zeroHashes :: "MemStore \<times> capture \<Rightarrow> bool" where
  "zeroHashes w \<longleftrightarrow> (\<forall>n b. map_of (m_blocks (fst w)) n = Some b \<longrightarrow> Hash b = 0)"

lemma endless_step:
  assumes "zeroHashes w"
  shows "\<exists>w'. syncStep demoEth endlessMonitor (\<lambda>_. None) h n w = (Ok Continue, w') \<and> zeroHashes w'"
proof -
  obtain s b where w: "w = (s, b)" by (cases w)
  obtain x where prev: "(if n > 0 then on_fst (BlockByNumber (store endlessMonitor) (n - 1)) else ret None) (s, b) = (Ok x, (s, b))"
      "\<And>p. x = Some p \<Longrightarrow> Hash p = 0"
    using assms by (cases "n > 0") (auto simp: w zeroHashes_def endlessMonitor_def demoMonitor_def memStore_def mem_BlockByNumber_def on_fst_def ret_def)
  have no: "(case x of Some p \<Rightarrow> Hash p \<noteq> 0 | None \<Rightarrow> False) = False" using prev(2) by (cases x) auto
  have "fetchTransfers demoEth endlessMonitor n = Ok []"
    by (simp add: fetchTransfers_def endlessMonitor_def endlessBackend_def List.map_filter_def)
  then show ?thesis
    using prev(1) no assms
    by (cases x) (auto simp: w syncStep_def bnd_def lift_def endlessMonitor_def endlessBackend_def demoMonitor_def memStore_def mem_SaveBlock_def
        on_fst_def on_snd_def publishBlock_def captureBus_def ignore_err_def ret_def Let_def headerBlock_def zeroHashes_def update_conv
        split: if_splits)
qed

lemma syncLoop_endless:
  assumes "syncLoop demoEth endlessMonitor (\<lambda>_. None) (- 1) n w = Some y" and "zeroHashes w"
  shows False
proof -
  let ?P = "\<lambda>eth m (ctx :: u64 \<Rightarrow> error option) (h :: u64) (n :: u64) w (y :: flow result \<times> (MemStore \<times> capture)). \<not> (eth = demoEth \<and> m = endlessMonitor \<and> ctx = (\<lambda>_. None) \<and> h = - 1 \<and> zeroHashes w)"
  have "?P demoEth endlessMonitor (\<lambda>_. None) (- 1) n w y"
  proof (rule syncLoop.raw_induct [where P = ?P, OF _ assms(1)])
    fix loop :: "unit Eth \<Rightarrow> (unit, MemStore, capture) Monitor \<Rightarrow> (u64 \<Rightarrow> error option) \<Rightarrow> u64 \<Rightarrow> u64 \<Rightarrow> MemStore \<times> capture \<Rightarrow> (flow result \<times> (MemStore \<times> capture)) option"
    fix eth m ctx h n w y
    assume IH: "\<And>eth m ctx h n w y. loop eth m ctx h n w = Some y \<Longrightarrow> ?P eth m ctx h n w y"
      and run: "(if n \<le> h then
          (case syncStep eth m ctx h n w of
             (Ok Continue, w') \<Rightarrow> loop eth m ctx h (n + 1) w'
           | (Ok Return, w') \<Rightarrow> Some (Ok Return, w')
           | (Err e, w') \<Rightarrow> Some (Err e, w')
           | (Panic p, w') \<Rightarrow> Some (Panic p, w'))
        else Some (Ok Continue, w)) = Some y"
    show "?P eth m ctx h n w y"
    proof
      assume A: "eth = demoEth \<and> m = endlessMonitor \<and> ctx = (\<lambda>_. None) \<and> h = - 1 \<and> zeroHashes w"
      then obtain w' where "syncStep eth m ctx h n w = (Ok Continue, w')" "zeroHashes w'"
        using endless_step by blast
      moreover have "n \<le> h" using A by simp
      ultimately have "loop eth m ctx h (n + 1) w' = Some y" using run by simp
      from IH [OF this] A \<open>zeroHashes w'\<close> show False by blast
    qed
  qed
  then show False using assms(2) by blast
qed

text \<open>For such a node the counter wraps around below the head for ever and \<^verbatim>\<open>Sync\<close> does not return.\<close>

theorem Sync_endless: "Sync demoEth endlessMonitor (\<lambda>_. None) (NewMemStore, []) = None"
proof -
  have start: "syncStart endlessMonitor (NewMemStore, []) = (Ok (Some (- 1, 0)), (NewMemStore, []))"
    by (simp add: syncStart_def bnd_def lift_def endlessMonitor_def endlessBackend_def demoMonitor_def memStore_def mem_LastBlock_def
        NewMemStore_def on_fst_def ret_def Let_def)
  have "zeroHashes (NewMemStore, [])" by (simp add: zeroHashes_def NewMemStore_def)
  then have "syncLoop demoEth endlessMonitor (\<lambda>_. None) (- 1) 0 (NewMemStore, []) = None"
    using syncLoop_endless by (metis option.exhaust)
  then show ?thesis using start by (simp add: Sync_def)
qed

end
