(* ===== verification/Go_Rat.thy ===== *)
theory Go_Rat
  imports Go_Text Complex_Main
begin

text \<open>
  The parts of \<^verbatim>\<open>math/big\<close> the margin service uses on \<^verbatim>\<open>*big.Rat\<close>: \<^verbatim>\<open>FloatString\<close> (decimal text,
  rounded half away from zero) and \<^verbatim>\<open>SetString\<close> (fractions, prefixed integers, decimal and
  hexadecimal mantissas with exponents, digit separators), with the round trip between them.
  A \<^verbatim>\<open>*big.Rat\<close> is a \<^typ>\<open>rat\<close>; \<open>quotient_of\<close> gives its normalised numerator and denominator.
\<close>

section \<open>FloatString\<close>

definition floatParts :: "rat \<Rightarrow> nat \<Rightarrow> nat \<times> nat" where
  "floatParts x prec =
     (let (a, b) = quotient_of x;
          n = nat \<bar>a\<bar>; d = nat b;
          q = n div d; p = 10 ^ prec;
          r = (n mod d * p) div d;
          r2 = (n mod d * p) mod d
      in if d \<le> r2 + r2
         then (if p \<le> r + 1 then (q + 1, r + 1 - p) else (q, r + 1))
         else (q, r))"

definition FloatString :: "rat \<Rightarrow> nat \<Rightarrow> string" where
  "FloatString x prec =
     (let (a, b) = quotient_of x in
      if b = 1
      then itoa a @ (if prec > 0 then ''.'' @ replicate prec (CHR ''0'') else [])
      else let (q, r) = floatParts x prec; rs = utoa r in
        (if a < 0 then ''-'' else []) @ utoa q @
        (if prec > 0 then ''.'' @ replicate (prec - length rs) (CHR ''0'') @ rs else []))"

section \<open>Scanning numbers\<close>

text \<open>State of \<^verbatim>\<open>nat.scan\<close>: value and count of the digits so far, position of the radix point, the
  class of the previous character (a digit, a separator, anything else), misplaced separator.\<close>

record scan =
  sc_val :: nat
  sc_count :: nat
  sc_dp :: "nat option"
  sc_prev :: char
  sc_inval :: bool

definition digitVal :: "char \<Rightarrow> nat" where
  "digitVal ch =
     (let c = of_char ch :: nat in
      if 48 \<le> c \<and> c \<le> 57 then c - 48
      else if 97 \<le> c \<and> c \<le> 122 then c - 97 + 10
      else if 65 \<le> c \<and> c \<le> 90 then c - 65 + 10
      else 63)"

fun scanDigits :: "nat \<Rightarrow> bool \<Rightarrow> scan \<Rightarrow> string \<Rightarrow> scan \<times> string" where
  "scanDigits b fracOk st [] = (st, [])"
| "scanDigits b fracOk st (ch # cs) =
     (if ch = CHR ''.'' \<and> fracOk then
        scanDigits b False (st\<lparr>sc_inval := (sc_inval st \<or> sc_prev st = CHR ''_''),
                              sc_prev := CHR ''.'', sc_dp := Some (sc_count st)\<rparr>) cs
      else if ch = CHR ''_'' then
        scanDigits b fracOk (st\<lparr>sc_inval := (sc_inval st \<or> sc_prev st \<noteq> CHR ''0''),
                               sc_prev := CHR ''_''\<rparr>) cs
      else if b \<le> digitVal ch then (st, ch # cs)
      else scanDigits b fracOk (st\<lparr>sc_prev := CHR ''0'', sc_count := sc_count st + 1,
                                  sc_val := b * sc_val st + digitVal ch\<rparr>) cs)"

text \<open>\<^verbatim>\<open>nat.scan(r, 0, fracOk)\<close>: value, base, digit count (negative: number of fractional digits)
  and the unread rest, or an error.\<close>

definition scanPrefix :: "bool \<Rightarrow> string \<Rightarrow> nat \<times> bool \<times> nat \<times> char \<times> string" where
  "scanPrefix fracOk s =
     (case s of
        c # cs \<Rightarrow>
          if c = CHR ''0'' then
            (case cs of
               [] \<Rightarrow> (10, False, 1, CHR ''0'', [])
             | c' # cs' \<Rightarrow>
                 if c' = CHR ''b'' \<or> c' = CHR ''B'' then (2, False, 0, CHR ''0'', cs')
                 else if c' = CHR ''o'' \<or> c' = CHR ''O'' then (8, False, 0, CHR ''0'', cs')
                 else if c' = CHR ''x'' \<or> c' = CHR ''X'' then (16, False, 0, CHR ''0'', cs')
                 else if \<not> fracOk then (8, True, 0, CHR ''0'', cs)
                 else (10, False, 1, CHR ''0'', cs))
          else (10, False, 0, CHR ''.'', s)
      | [] \<Rightarrow> (10, False, 0, CHR ''.'', s))"

definition natScan :: "bool \<Rightarrow> string \<Rightarrow> (nat \<times> nat \<times> int \<times> string) option" where
  "natScan fracOk s =
     (let (b, octal, count, prev, s') = scanPrefix fracOk s;
          (st, rest) = scanDigits b fracOk
             \<lparr>sc_val = 0, sc_count = count, sc_dp = None, sc_prev = prev, sc_inval = False\<rparr> s'
      in if sc_inval st \<or> sc_prev st = CHR ''_'' then None
         else if sc_count st = 0 then (if octal then Some (0, 10, 1, rest) else None)
         else Some (sc_val st, b,
                    (case sc_dp st of None \<Rightarrow> int (sc_count st) | Some d \<Rightarrow> int d - int (sc_count st)),
                    rest))"

fun scanSign :: "string \<Rightarrow> (bool \<times> string) option" where
  "scanSign [] = None"
| "scanSign (c # cs) =
     (if c = CHR ''-'' then Some (True, cs) else if c = CHR ''+'' then Some (False, cs)
      else Some (False, c # cs))"

text \<open>The digits of an exponent: digits, previous character class, misplaced separator, rest.\<close>

fun expDigits :: "string \<Rightarrow> char \<Rightarrow> bool \<Rightarrow> string \<Rightarrow> string \<times> char \<times> bool \<times> string" where
  "expDigits ds prev inval [] = (ds, prev, inval, [])"
| "expDigits ds prev inval (c # cs) =
     (if is_digit c then expDigits (ds @ [c]) (CHR ''0'') inval cs
      else if c = CHR ''_'' then expDigits ds (CHR ''_'') (inval \<or> prev \<noteq> CHR ''0'') cs
      else (ds, prev, inval, c # cs))"

definition scanExponent :: "string \<Rightarrow> (int \<times> nat \<times> string) option" where
  "scanExponent s =
     (case s of
        [] \<Rightarrow> Some (0, 10, [])
      | c # cs \<Rightarrow>
          if c \<in> {CHR ''e'', CHR ''E'', CHR ''p'', CHR ''P''} then
            (let base = (if c \<in> {CHR ''e'', CHR ''E''} then 10 else 2);
                 (neg, cs') = (case cs of
                    [] \<Rightarrow> (False, [])
                  | c' # cs'' \<Rightarrow> if c' = CHR ''+'' then (False, cs'') else if c' = CHR ''-'' then (True, cs'')
                                else (False, cs));
                 (ds, prev, inval, rest) = expDigits [] (CHR ''.'') False cs'
             in if ds = [] then None
                else case ParseInt 64 ((if neg then ''-'' else []) @ ds) of
                    Ok e \<Rightarrow> if inval \<or> prev = CHR ''_'' then None else Some (e, base, rest)
                  | _ \<Rightarrow> None)
          else Some (0, 10, s))"

section \<open>SetString\<close>

text \<open>\<^verbatim>\<open>Int.SetString(s, 0)\<close>\<close>

definition intSetString :: "string \<Rightarrow> int option" where
  "intSetString s =
     (case scanSign s of
        None \<Rightarrow> None
      | Some (neg, s') \<Rightarrow>
          (case natScan False s' of
             Some (v, b, k, []) \<Rightarrow> Some (if neg then - int v else int v)
           | _ \<Rightarrow> None))"

definition wrap64 :: "int \<Rightarrow> int" where
  "wrap64 i = sint (word_of_int i :: u64)"

definition ratPow :: "rat \<Rightarrow> int \<Rightarrow> rat" where
  "ratPow x e = (if 0 \<le> e then x ^ nat e else inverse (x ^ nat (- e)))"

text \<open>The mantissa scaled by the radix point and the exponent; \<open>None\<close> for exponents that are
  refused as excessive.\<close>

definition scaleMantissa :: "nat \<Rightarrow> nat \<Rightarrow> int \<Rightarrow> nat \<Rightarrow> int \<Rightarrow> rat option" where
  "scaleMantissa v base fcount ebase e =
     (if v = 0 then Some 0
      else
        let d = (if fcount < 0 then fcount else 0);
            exp5 = wrap64 ((if base = 10 then d else 0) + (if ebase = 10 then e else 0));
            exp2 = wrap64 ((if base = 8 then 3 * d else if base = 16 then 4 * d else d) + e);
            n = (if exp5 < 0 then wrap64 (- exp5) else exp5)
        in if exp5 \<noteq> 0 \<and> (n < 0 \<or> n > 1000000) then None
           else if exp2 < - 10000000 \<or> exp2 > 10000000 then None
           else Some (of_nat v * ratPow 5 exp5 * ratPow 2 exp2))"

definition SetString :: "string \<Rightarrow> rat option" where
  "SetString s =
     (if s = [] then None
      else case Cut s (CHR ''/'') of
        (num, den, True) \<Rightarrow>
          (case (intSetString num, natScan False den) of
             (Some a, Some (v, b, k, [])) \<Rightarrow> if v = 0 then None else Some (of_int a / of_nat v)
           | _ \<Rightarrow> None)
      | _ \<Rightarrow>
          (case scanSign s of
             None \<Rightarrow> None
           | Some (neg, s') \<Rightarrow>
               (case natScan True s' of
                  None \<Rightarrow> None
                | Some (v, base, fcount, s'') \<Rightarrow>
                    (case scanExponent s'' of
                       Some (e, ebase, []) \<Rightarrow>
                         map_option (\<lambda>x. if neg then - x else x) (scaleMantissa v base fcount ebase e)
                     | _ \<Rightarrow> None))))"


section \<open>Rounding\<close>

definition scaledRound :: "rat \<Rightarrow> nat \<Rightarrow> nat" where
  "scaledRound x prec = nat \<lfloor>\<bar>x\<bar> * 10 ^ prec + 1 / 2\<rfloor>"

definition roundDec :: "rat \<Rightarrow> nat \<Rightarrow> rat" where
  "roundDec x prec = (if x < 0 then - 1 else 1) * of_nat (scaledRound x prec) / 10 ^ prec"

lemma quotient_of_abs:
  assumes "quotient_of x = (a, b)"
  shows "b > 0" and "\<bar>x\<bar> = of_nat (nat \<bar>a\<bar>) / of_nat (nat b)" and "x < 0 \<longleftrightarrow> a < 0"
proof -
  show b: "b > 0" using assms by (rule quotient_of_denom_pos)
  have x: "x = of_int a / of_int b" using assms by (rule quotient_of_div)
  then have "\<bar>x\<bar> = of_int \<bar>a\<bar> / of_int b" using b by (simp add: abs_divide)
  then show "\<bar>x\<bar> = of_nat (nat \<bar>a\<bar>) / of_nat (nat b)" using b by simp
  show "x < 0 \<longleftrightarrow> a < 0" using x b by (simp add: divide_less_0_iff)
qed

lemma floatParts_round:
  assumes "floatParts x prec = (q, r)"
  shows "q * 10 ^ prec + r = scaledRound x prec" and "r < 10 ^ prec"
proof -
  obtain a b where ab: "quotient_of x = (a, b)" by (cases "quotient_of x")
  define n d p where "n = nat \<bar>a\<bar>" and "d = nat b" and "p = (10 :: nat) ^ prec"
  define q0 m where "q0 = n div d" and "m = n mod d"
  define r0 r2 where "r0 = (m * p) div d" and "r2 = (m * p) mod d"
  have d: "d > 0" and ax: "\<bar>x\<bar> = of_nat n / of_nat d"
    using quotient_of_abs [OF ab] by (simp_all add: n_def d_def)
  have p: "p > 0" by (simp add: p_def)
  have n: "n = q0 * d + m" "m < d" using d by (simp_all add: q0_def m_def)
  have mp: "m * p = r0 * d + r2" "r2 < d" using d by (simp_all add: r0_def r2_def)
  have r0: "r0 < p"
  proof -
    have "m * p < d * p" using n(2) p by simp
    then show ?thesis by (simp add: r0_def mult.commute less_mult_imp_div_less)
  qed
  let ?up = "if d \<le> r2 + r2 then 1 else 0 :: nat"
  have "n * p = (q0 * p + r0) * d + r2" using n mp by (simp add: algebra_simps)
  then have "\<bar>x\<bar> * of_nat p = of_nat (q0 * p + r0) + of_nat r2 / of_nat d"
    using d unfolding ax by (simp add: field_simps flip: of_nat_mult of_nat_add)
  moreover have "\<lfloor>of_nat r2 / of_nat d + 1 / 2 :: rat\<rfloor> = int ?up"
    using mp(2) d by (intro floor_unique) (auto simp: field_simps simp flip: of_nat_add of_nat_mult)
  ultimately have "\<lfloor>\<bar>x\<bar> * of_nat p + 1 / 2\<rfloor> = int (q0 * p + r0 + ?up)"
    by (simp add: add.assoc floor_add_int flip: of_nat_add of_nat_mult)
  then have N: "scaledRound x prec = q0 * p + r0 + ?up"
    by (simp add: scaledRound_def p_def del: of_nat_add of_nat_mult)
  have parts: "(q, r) = (if d \<le> r2 + r2 then (if p \<le> r0 + 1 then (q0 + 1, r0 + 1 - p) else (q0, r0 + 1)) else (q0, r0))"
    using assms unfolding floatParts_def ab Let_def prod.case n_def d_def p_def q0_def m_def r0_def r2_def
    by (rule sym)
  show "q * 10 ^ prec + r = scaledRound x prec" "r < 10 ^ prec"
    using parts r0 unfolding N p_def [symmetric] by (auto split: if_splits)
qed

lemma roundDec_error: "\<bar>roundDec x prec - x\<bar> \<le> 1 / (2 * 10 ^ prec)"
proof -
  define p where "p = (10 :: rat) ^ prec"
  have p: "p > 0" by (simp add: p_def)
  define N where "N = \<lfloor>\<bar>x\<bar> * p + 1 / 2\<rfloor>"
  have "0 \<le> N" using p by (simp add: N_def)
  then have r: "roundDec x prec = (if x < 0 then - 1 else 1) * (of_int N / p)"
    by (simp add: roundDec_def scaledRound_def N_def p_def of_nat_nat)
  have "of_int N \<le> \<bar>x\<bar> * p + 1 / 2" "\<bar>x\<bar> * p + 1 / 2 < of_int N + 1"
    unfolding N_def by linarith+
  then have "\<bar>of_int N - \<bar>x\<bar> * p\<bar> \<le> 1 / 2" by linarith
  moreover have "of_int N / p - \<bar>x\<bar> = (of_int N - \<bar>x\<bar> * p) / p" using p by (simp add: field_simps)
  ultimately have "\<bar>of_int N / p - \<bar>x\<bar>\<bar> \<le> 1 / 2 / p"
    using p by (simp add: abs_divide field_simps)
  then show ?thesis unfolding r p_def [symmetric] by (cases "x < 0") (simp_all add: abs_minus_commute)
qed

lemma scaledRound_int: "quotient_of x = (a, 1) \<Longrightarrow> scaledRound x prec = nat \<bar>a\<bar> * 10 ^ prec"
  using floatParts_round(1) [of x prec "nat \<bar>a\<bar>" 0] by (simp add: floatParts_def Let_def)


section \<open>The text FloatString writes\<close>

definition padded :: "nat \<Rightarrow> nat \<Rightarrow> string" where
  "padded k r = replicate (k - length (utoa r)) (CHR ''0'') @ utoa r"

lemma length_utoa_le: "r < 10 ^ k \<Longrightarrow> 0 < k \<Longrightarrow> length (utoa r) \<le> k"
proof (induction r arbitrary: k rule: utoa.induct)
  case (1 n)
  show ?case
  proof (cases "n < 10")
    case True
    then show ?thesis using "1.prems" by (simp add: utoa.simps [of n])
  next
    case False
    obtain j where k: "k = Suc j" using "1.prems"(2) by (cases k) auto
    have "n div 10 < 10 ^ j" using "1.prems"(1) k by (simp add: less_mult_imp_div_less mult.commute)
    moreover have "0 < j" using "1.prems"(1) k False by (cases j) auto
    ultimately have "length (utoa (n div 10)) \<le> j" using "1.IH" False by blast
    then show ?thesis using False k by (simp add: utoa.simps [of n])
  qed
qed

lemma dec_value_zeros: "dec_value (replicate k (CHR ''0'') @ s) = dec_value s"
  by (induction k) (simp_all add: dec_value_def digit_val_def)

lemma padded_props:
  assumes "r < 10 ^ k" "0 < k"
  shows "length (padded k r) = k" "list_all is_digit (padded k r)" "dec_value (padded k r) = r"
proof -
  have "is_digit (CHR ''0'')" by (simp add: is_digit_def)
  then show "list_all is_digit (padded k r)"
    using utoa_digits [of r] by (auto simp: padded_def list_all_iff)
qed (use length_utoa_le [OF assms] in \<open>simp_all add: padded_def dec_value_zeros dec_value_utoa\<close>)

lemma digit_char_0: "digit_char 0 = CHR ''0''"
  by (simp add: digit_char_def) code_simp

lemma FloatString_form:
  "FloatString x prec =
     (if x < 0 then ''-'' else []) @ utoa (scaledRound x prec div 10 ^ prec) @
     (if prec > 0 then CHR ''.'' # padded prec (scaledRound x prec mod 10 ^ prec) else [])"
proof -
  obtain a b where ab: "quotient_of x = (a, b)" by (cases "quotient_of x")
  show ?thesis
  proof (cases "b = 1")
    case True
    have "replicate prec (CHR ''0'') = padded prec 0" if "prec > 0"
      using that by (cases prec) (simp_all add: padded_def utoa.simps digit_char_0 replicate_append_same [symmetric])
    then show ?thesis
      using ab True quotient_of_abs(3) [OF ab] scaledRound_int [of x a prec]
      by (simp add: FloatString_def itoa_def)
  next
    case False
    obtain q r where qr: "floatParts x prec = (q, r)" by (cases "floatParts x prec")
    have "scaledRound x prec div 10 ^ prec = q" "scaledRound x prec mod 10 ^ prec = r"
      using floatParts_round [OF qr] by (simp_all flip: floatParts_round(1) [OF qr])
    then show ?thesis
      using ab False qr quotient_of_abs(3) [OF ab] by (simp add: FloatString_def padded_def Let_def)
  qed
qed


section \<open>Round trip\<close>

lemma dec_value_Nil [simp]: "dec_value [] = 0"
  by (simp add: dec_value_def)

lemma dec_value_append: "dec_value (a @ b) = dec_value a * 10 ^ length b + dec_value b"
proof (induction b rule: rev_induct)
  case (snoc c b)
  then show ?case
    using dec_value_snoc [of "a @ b" c] by (simp add: dec_value_snoc algebra_simps)
qed (simp add: dec_value_def)

lemma digitVal_digit: "is_digit c \<Longrightarrow> digitVal c = digit_val c \<and> digitVal c < 10"
  by (auto simp: digitVal_def is_digit_def digit_val_def Let_def)

lemma is_digit_not: "is_digit c \<Longrightarrow> c \<noteq> CHR ''.'' \<and> c \<noteq> CHR ''_'' \<and> c \<noteq> CHR ''/'' \<and> c \<noteq> CHR ''-'' \<and> c \<noteq> CHR ''+''"
  by (auto simp: is_digit_def)

lemma scanDigits_digits:
  assumes "list_all is_digit ds"
  shows "scanDigits 10 f st (ds @ rest) =
    scanDigits 10 f (st\<lparr>sc_val := sc_val st * 10 ^ length ds + dec_value ds,
        sc_count := sc_count st + length ds,
        sc_prev := (if ds = [] then sc_prev st else CHR ''0'')\<rparr>) rest"
  using assms
proof (induction ds arbitrary: st)
  case (Cons d ds)
  have d: "is_digit d" using Cons.prems by simp
  have "dec_value (d # ds) = digit_val d * 10 ^ length ds + dec_value ds"
    using dec_value_append [of "[d]" ds] by (simp add: dec_value_def)
  then show ?case
    using digitVal_digit [OF d] is_digit_not [OF d] Cons by (simp add: algebra_simps)
qed (simp add: dec_value_def)

definition scan0 :: "nat \<Rightarrow> char \<Rightarrow> scan" where
  "scan0 k c = \<lparr>sc_val = 0, sc_count = k, sc_dp = None, sc_prev = c, sc_inval = False\<rparr>"

text \<open>A decimal integer part, optionally a radix point and a fraction: what \<^verbatim>\<open>FloatString\<close> writes
  after the sign.\<close>

lemma natScan_decimal:
  assumes ip: "ip \<noteq> []" "list_all is_digit ip" and fp: "list_all is_digit fp"
    and post: "post = (if dot then CHR ''.'' # fp else [])"
  shows "natScan True (ip @ post) =
    Some (dec_value (ip @ (if dot then fp else [])), 10,
          (if dot then - int (length fp) else int (length ip)), [])"
proof -
  obtain c cs where ip': "ip = c # cs" using ip(1) by (cases ip) auto
  have c: "is_digit c" and cs: "list_all is_digit cs" using ip(2) ip' by simp_all
  have tail: "scanDigits 10 True st (cs' @ post) =
      (if dot then (st\<lparr>sc_val := (sc_val st * 10 ^ length cs' + dec_value cs') * 10 ^ length fp + dec_value fp,
           sc_count := sc_count st + length cs' + length fp, sc_dp := Some (sc_count st + length cs'),
           sc_prev := (if fp = [] then CHR ''.'' else CHR ''0''), sc_inval := False\<rparr>, [])
       else (st\<lparr>sc_val := sc_val st * 10 ^ length cs' + dec_value cs', sc_count := sc_count st + length cs',
           sc_prev := (if cs' = [] then sc_prev st else CHR ''0'')\<rparr>, []))"
    if "list_all is_digit cs'" "sc_prev st \<noteq> CHR ''_''" "\<not> sc_inval st" for st cs'
    using that scanDigits_digits [OF that(1), of True st post]
      scanDigits_digits [OF fp, of False _ "[]"]
    by (auto simp: post Let_def)
  show ?thesis
  proof (cases "c = CHR ''0''")
    case True
    have no_prefix: "c' \<notin> {CHR ''b'', CHR ''B'', CHR ''o'', CHR ''O'', CHR ''x'', CHR ''X''}"
      if "cs @ post = c' # r" for c' r
      using that cs by (cases cs) (auto simp: post is_digit_def split: if_splits)
    have "scanPrefix True (ip @ post) = (10, False, 1, CHR ''0'', cs @ post)"
      using no_prefix by (auto simp: scanPrefix_def ip' True split: list.splits)
    moreover have "dec_value (c # x) = dec_value x" for x
      using dec_value_append [of "[c]" x] True by (simp add: dec_value_def digit_val_def)
    ultimately show ?thesis
      using tail [OF cs, of "scan0 1 (CHR ''0'')"]
      by (simp add: natScan_def scan0_def ip' dec_value_append)
  next
    case False
    have "scanPrefix True (ip @ post) = (10, False, 0, CHR ''.'', ip @ post)"
      using False by (simp add: scanPrefix_def ip')
    then show ?thesis
      using tail [OF ip(2), of "scan0 0 (CHR ''.'')"] ip(1)
      by (simp add: natScan_def scan0_def dec_value_append)
  qed
qed

lemma wrap64_small: "- (2 ^ 63) \<le> i \<Longrightarrow> i < 2 ^ 63 \<Longrightarrow> wrap64 i = i"
  by (simp add: wrap64_def sint_sbintrunc' signed_take_bit_int_eq_self)

lemma wrap64_0 [simp]: "wrap64 0 = 0"
  by (simp add: wrap64_small)

lemma ratPow_neg: "ratPow x (- int k) = inverse (x ^ k)"
  by (cases "k = 0") (simp_all add: ratPow_def)

lemma scaleMantissa_decimal:
  assumes "k \<le> 1000000"
  shows "scaleMantissa v 10 (- int k) 10 0 = Some (of_nat v / 10 ^ k)"
proof -
  have "wrap64 (- int k) = - int k" "wrap64 (int k) = int k"
    using assms by (simp_all add: wrap64_small)
  moreover have "(10 :: rat) ^ k = 5 ^ k * 2 ^ k" by (simp flip: power_mult_distrib)
  ultimately show ?thesis
    using assms by (simp add: scaleMantissa_def Let_def ratPow_neg ratPow_neg [of _ 0, simplified] field_simps)
qed

lemma scaleMantissa_int: "0 \<le> fc \<Longrightarrow> scaleMantissa v 10 fc 10 0 = Some (of_nat v)"
  by (simp add: scaleMantissa_def Let_def ratPow_def wrap64_small)

text \<open>Reading back what \<^verbatim>\<open>FloatString\<close> wrote gives the rounded value.\<close>

lemma SetString_decimal:
  assumes ip: "ip \<noteq> []" "list_all is_digit ip" and fp: "list_all is_digit fp" "length fp \<le> 1000000"
  shows "SetString ((if neg then ''-'' else []) @ ip @ (if dot then CHR ''.'' # fp else [])) =
    Some ((if neg then - 1 else 1) * of_nat (dec_value (ip @ (if dot then fp else []))) / 10 ^ (if dot then length fp else 0))"
proof -
  let ?post = "if dot then CHR ''.'' # fp else []"
  let ?s = "(if neg then ''-'' else []) @ ip @ ?post"
  obtain c cs where ip': "ip = c # cs" using ip(1) by (cases ip) auto
  have c: "is_digit c" using ip(2) ip' by simp
  have "CHR ''/'' \<notin> set ip" "CHR ''/'' \<notin> set fp"
    using ip(2) fp(1) is_digit_not by (auto simp: list_all_iff)
  then have "CHR ''/'' \<notin> set ?s" by auto
  then have cut: "Cut ?s (CHR ''/'') = (?s, [], False)" by (rule Cut_none)
  have sign: "scanSign ?s = Some (neg, ip @ ?post)"
    using is_digit_not [OF c] by (simp add: ip')
  note scan = natScan_decimal [OF ip fp(1) refl, of dot]
  show ?thesis
    using ip(1)
    by (simp add: SetString_def cut sign scan scanExponent_def scaleMantissa_int
        scaleMantissa_decimal [OF fp(2)])
qed

lemma SetString_FloatString:
  assumes "prec \<le> 1000000"
  shows "SetString (FloatString x prec) = Some (roundDec x prec)"
proof -
  let ?N = "scaledRound x prec"
  let ?fp = "padded prec (?N mod 10 ^ prec)"
  have q: "utoa (?N div 10 ^ prec) \<noteq> []" "list_all is_digit (utoa (?N div 10 ^ prec))"
    using utoa_digits by auto
  show ?thesis
  proof (cases "prec = 0")
    case True
    then show ?thesis
      using SetString_decimal [OF q, of "[]" "x < 0" False]
      by (simp add: FloatString_form dec_value_utoa roundDec_def)
  next
    case False
    have fp: "length ?fp = prec" "list_all is_digit ?fp" "dec_value ?fp = ?N mod 10 ^ prec"
      using padded_props [of "?N mod 10 ^ prec" prec] False by simp_all
    have "dec_value (utoa (?N div 10 ^ prec) @ ?fp) = ?N"
      by (simp add: dec_value_append dec_value_utoa fp div_mult_mod_eq)
    then show ?thesis
      using SetString_decimal [OF q fp(2), of "x < 0" True] False assms fp(1)
      by (simp add: FloatString_form roundDec_def)
  qed
qed

end
