(* ===== verification/Margin.thy ===== *)
theory Margin
  imports Go_Rat Eth_Lib
begin

text \<open>
  \<^verbatim>\<open>internal/margin\<close>: the portfolio margin engine. \<^verbatim>\<open>reader.go\<close> and \<^verbatim>\<open>oracle.go\<close> read balances and
  prices (over \<^verbatim>\<open>eth_call\<close>, or from fixed tables), \<^verbatim>\<open>engine.go\<close> values the holdings and grades the
  account. Reads are effects on a node of any type; \<^verbatim>\<open>*big.Rat\<close> is \<^typ>\<open>rat\<close>.
\<close>

section \<open>Prices and balances\<close>

definition pow10 :: "u8 \<Rightarrow> int" where
  "pow10 n = 10 ^ unat n"

record Price =
  pr_Value :: int
  pr_Decimals :: u8

definition price_Rat :: "Price \<Rightarrow> rat" where
  "price_Rat p = of_int (pr_Value p) / of_int (pow10 (pr_Decimals p))"

record 'n PriceOracle =
  oraclePrice :: "address \<Rightarrow> ('n, Price) eff"

record 'n BalanceReader =
  BalanceOf :: "address \<Rightarrow> address \<Rightarrow> ('n, int) eff"

record 'n ContractCaller =
  CallContract :: "address \<Rightarrow> u8 list \<Rightarrow> ('n, u8 list) eff"

definition aggregatorABI :: string where
  \<open>aggregatorABI =
     ''[{'' @ nl_tab @
     ''"name": "latestRoundData",'' @ nl_tab @
     ''"type": "function",'' @ nl_tab @
     ''"stateMutability": "view",'' @ nl_tab @
     ''"inputs": [],'' @ nl_tab @
     ''"outputs": ['' @ nl_tab @ [CHR 0x09] @
     ''{"name": "roundId",         "type": "uint80"},'' @ nl_tab @ [CHR 0x09] @
     ''{"name": "answer",          "type": "int256"},'' @ nl_tab @ [CHR 0x09] @
     ''{"name": "startedAt",       "type": "uint256"},'' @ nl_tab @ [CHR 0x09] @
     ''{"name": "updatedAt",       "type": "uint256"},'' @ nl_tab @ [CHR 0x09] @
     ''{"name": "answeredInRound", "type": "uint80"}'' @ nl_tab @
     '']'' @ [CHR 0x0A] @
     ''}]''\<close>

definition erc20BalanceOfABI :: string where
  \<open>erc20BalanceOfABI =
     ''[{'' @ nl_tab @
     ''"name": "balanceOf",'' @ nl_tab @
     ''"type": "function",'' @ nl_tab @
     ''"stateMutability": "view",'' @ nl_tab @
     ''"inputs":  [{"name": "account", "type": "address"}],'' @ nl_tab @
     ''"outputs": [{"name": "", "type": "uint256"}]'' @ [CHR 0x0A] @
     ''}]''\<close>

text \<open>\<^verbatim>\<open>vals[i].(*big.Int)\<close>: an index out of range panics, another type is refused.\<close>

definition bigIntAt :: "string \<Rightarrow> nat \<Rightarrow> abiVal list \<Rightarrow> int result" where
  "bigIntAt msg i vals =
     (if length vals \<le> i then Panic ''index out of range''
      else case vals ! i of BigInt v \<Rightarrow> Ok v | _ \<Rightarrow> Err (Opaque msg))"

record ('abi, 'n) ChainlinkOracle =
  co_caller :: "'n ContractCaller"
  co_abi :: 'abi
  co_decimals :: u8

definition NewChainlinkOracle ::
  "'abi Eth \<Rightarrow> 'n ContractCaller \<Rightarrow> u8 \<Rightarrow> ('abi, 'n) ChainlinkOracle result" where
  "NewChainlinkOracle eth caller feedDecimals =
     bind_result (wrap_err ''parse aggregator abi'' (abi_JSON eth aggregatorABI))
       (\<lambda>parsed. Ok \<lparr>co_caller = caller, co_abi = parsed, co_decimals = feedDecimals\<rparr>)"

definition chainlink_Price ::
  "'abi Eth \<Rightarrow> ('abi, 'n) ChainlinkOracle \<Rightarrow> address \<Rightarrow> ('n, Price) eff" where
  "chainlink_Price eth c feed =
     bnd (lift (Pack eth (co_abi c) ''latestRoundData'' [])) (\<lambda>data.
     bnd (wrap_eff ''call latestRoundData'' (CallContract (co_caller c) feed data)) (\<lambda>out.
     bnd (lift (wrap_err ''decode latestRoundData'' (Unpack eth (co_abi c) ''latestRoundData'' out))) (\<lambda>vals.
     bnd (lift (bigIntAt ''unexpected answer type'' 1 vals)) (\<lambda>answer.
     if answer \<le> 0 then raise (Opaque ''non-positive oracle price'')
     else ret \<lparr>pr_Value = answer, pr_Decimals = co_decimals c\<rparr>))))"

definition chainlinkOracle :: "'abi Eth \<Rightarrow> ('abi, 'n) ChainlinkOracle \<Rightarrow> 'n PriceOracle" where
  "chainlinkOracle eth c = \<lparr>oraclePrice = chainlink_Price eth c\<rparr>"

record ('abi, 'n) ChainBalanceReader =
  cb_caller :: "'n ContractCaller"
  cb_abi :: 'abi

definition NewChainBalanceReader ::
  "'abi Eth \<Rightarrow> 'n ContractCaller \<Rightarrow> ('abi, 'n) ChainBalanceReader result" where
  "NewChainBalanceReader eth caller =
     bind_result (wrap_err ''parse erc20 abi'' (abi_JSON eth erc20BalanceOfABI))
       (\<lambda>parsed. Ok \<lparr>cb_caller = caller, cb_abi = parsed\<rparr>)"

definition chain_BalanceOf ::
  "'abi Eth \<Rightarrow> ('abi, 'n) ChainBalanceReader \<Rightarrow> address \<Rightarrow> address \<Rightarrow> ('n, int) eff" where
  "chain_BalanceOf eth r token account =
     bnd (lift (Pack eth (cb_abi r) ''balanceOf'' [Addr account])) (\<lambda>data.
     bnd (wrap_eff ''call balanceOf'' (CallContract (cb_caller r) token data)) (\<lambda>out.
     bnd (lift (wrap_err ''decode balanceOf'' (Unpack eth (cb_abi r) ''balanceOf'' out))) (\<lambda>vals.
     lift (bigIntAt ''unexpected balanceOf return type'' 0 vals))))"

definition chainReader :: "'abi Eth \<Rightarrow> ('abi, 'n) ChainBalanceReader \<Rightarrow> 'n BalanceReader" where
  "chainReader eth r = \<lparr>BalanceOf = chain_BalanceOf eth r\<rparr>"

text \<open>The fixed tables of the tests.\<close>

definition staticOracle :: "'abi Eth \<Rightarrow> (address \<rightharpoonup> Price) \<Rightarrow> 'n PriceOracle" where
  "staticOracle eth m = \<lparr>oraclePrice = (\<lambda>feed. lift (case m feed of
       Some p \<Rightarrow> Ok p
     | None \<Rightarrow> Err (Opaque (''no price for feed '' @ Address_Hex eth feed))))\<rparr>"

definition staticBalances :: "(address \<rightharpoonup> int) \<Rightarrow> 'n BalanceReader" where
  "staticBalances m = \<lparr>BalanceOf = (\<lambda>token account. ret (case m token of Some b \<Rightarrow> b | None \<Rightarrow> 0))\<rparr>"


section \<open>The engine\<close>

definition StatusHealthy :: string where
  "StatusHealthy = ''healthy''"
definition StatusMarginCall :: string where
  "StatusMarginCall = ''margin_call''"
definition StatusLiquidatable :: string where
  "StatusLiquidatable = ''liquidatable''"

record Asset =
  as_Symbol :: string
  as_Token :: address
  as_Decimals :: u8
  as_CollateralFactor :: rat
  as_PriceFeed :: address

record MarginConfig =
  Assets :: "Asset list"
  MarginCallHF :: rat
  LiquidationHF :: rat

record 'n Engine =
  eng_reader :: "'n BalanceReader"
  eng_oracle :: "'n PriceOracle"
  eng_cfg :: MarginConfig

definition NewEngine :: "'n BalanceReader \<Rightarrow> 'n PriceOracle \<Rightarrow> MarginConfig \<Rightarrow> 'n Engine" where
  "NewEngine rd orc c = \<lparr>eng_reader = rd, eng_oracle = orc, eng_cfg = c\<rparr>"

record Position =
  po_Symbol :: string
  po_BalanceRaw :: string
  po_PriceUSD :: string
  po_ValueUSD :: string
  po_CollateralFactor :: string
  po_WeightedUSD :: string

record Report =
  re_Account :: string
  re_GrossCollateralUSD :: string
  re_WeightedCollateralUSD :: string
  re_DebtUSD :: string
  re_HealthFactor :: string
  re_Status :: string
  re_Positions :: "Position list"

definition status :: "'n Engine \<Rightarrow> rat \<Rightarrow> string" where
  "status e hf =
     (if hf < LiquidationHF (eng_cfg e) then StatusLiquidatable
      else if hf < MarginCallHF (eng_cfg e) then StatusMarginCall
      else StatusHealthy)"

text \<open>The loop over the assets carries the gross value, the weighted value and the positions.\<close>

type_synonym totals = "rat \<times> rat \<times> Position list"

definition valueAsset :: "'n Engine \<Rightarrow> address \<Rightarrow> Asset \<Rightarrow> totals \<Rightarrow> ('n, totals) eff" where
  "valueAsset e account a = (\<lambda>(gross, weighted, positions).
     bnd (wrap_eff (''balance '' @ as_Symbol a) (BalanceOf (eng_reader e) (as_Token a) account)) (\<lambda>bal.
     if bal = 0 then ret (gross, weighted, positions)
     else
       bnd (wrap_eff (''price '' @ as_Symbol a) (oraclePrice (eng_oracle e) (as_PriceFeed a))) (\<lambda>price.
       let balRat = of_int bal / of_int (pow10 (as_Decimals a));
           val = balRat * price_Rat price;
           w = val * as_CollateralFactor a
       in ret (gross + val, weighted + w,
            positions @ [\<lparr>po_Symbol = as_Symbol a, po_BalanceRaw = itoa bal,
              po_PriceUSD = FloatString (price_Rat price) 2, po_ValueUSD = FloatString val 2,
              po_CollateralFactor = FloatString (as_CollateralFactor a) 2,
              po_WeightedUSD = FloatString w 2\<rparr>]))))"

fun valueAssets :: "'n Engine \<Rightarrow> address \<Rightarrow> Asset list \<Rightarrow> totals \<Rightarrow> ('n, totals) eff" where
  "valueAssets e account [] t = ret t"
| "valueAssets e account (a # as) t =
     bnd (valueAsset e account a t) (valueAssets e account as)"

definition finishReport :: "'abi Eth \<Rightarrow> 'n Engine \<Rightarrow> address \<Rightarrow> rat \<Rightarrow> totals \<Rightarrow> Report" where
  "finishReport eth e account debtUSD = (\<lambda>(gross, weighted, positions).
     let report = \<lparr>re_Account = Address_Hex eth account,
           re_GrossCollateralUSD = FloatString gross 2,
           re_WeightedCollateralUSD = FloatString weighted 2,
           re_DebtUSD = FloatString debtUSD 2,
           re_HealthFactor = [], re_Status = [], re_Positions = positions\<rparr>
     in if debtUSD \<le> 0 then report\<lparr>re_HealthFactor := ''n/a'', re_Status := StatusHealthy\<rparr>
        else let hf = weighted / debtUSD in
          report\<lparr>re_HealthFactor := FloatString hf 4, re_Status := status e hf\<rparr>)"

definition Evaluate :: "'abi Eth \<Rightarrow> 'n Engine \<Rightarrow> address \<Rightarrow> rat \<Rightarrow> ('n, Report) eff" where
  "Evaluate eth e account debtUSD =
     bnd (valueAssets e account (Assets (eng_cfg e)) (0, 0, [])) (\<lambda>t.
     ret (finishReport eth e account debtUSD t))"

end
