(* ===== verification/Margin_Props.thy ===== *)
theory Margin_Props
  imports Margin
begin

text \<open>
  Properties of the margin engine: agreement with a reference valuation, the contract of the
  price and balance sources (\<open>valuation\<close>, interpreted on the on-chain sources), the grading
  thresholds, and the order of reads.
\<close>

section \<open>A reference valuation\<close>

definition assetValue :: "(address \<Rightarrow> int) \<Rightarrow> (address \<Rightarrow> Price) \<Rightarrow> Asset \<Rightarrow> rat" where
  "assetValue bal price a =
     of_int (bal (as_Token a)) / 10 ^ unat (as_Decimals a) *
     (of_int (pr_Value (price (as_PriceFeed a))) / 10 ^ unat (pr_Decimals (price (as_PriceFeed a))))"

definition grossValue :: "(address \<Rightarrow> int) \<Rightarrow> (address \<Rightarrow> Price) \<Rightarrow> Asset list \<Rightarrow> rat" where
  "grossValue bal price as = sum_list (map (assetValue bal price) as)"

definition weightedValue :: "(address \<Rightarrow> int) \<Rightarrow> (address \<Rightarrow> Price) \<Rightarrow> Asset list \<Rightarrow> rat" where
  "weightedValue bal price as = sum_list (map (\<lambda>a. assetValue bal price a * as_CollateralFactor a) as)"

definition assetPosition :: "(address \<Rightarrow> int) \<Rightarrow> (address \<Rightarrow> Price) \<Rightarrow> Asset \<Rightarrow> Position" where
  "assetPosition bal price a =
     \<lparr>po_Symbol = as_Symbol a, po_BalanceRaw = itoa (bal (as_Token a)),
      po_PriceUSD = FloatString (price_Rat (price (as_PriceFeed a))) 2,
      po_ValueUSD = FloatString (assetValue bal price a) 2,
      po_CollateralFactor = FloatString (as_CollateralFactor a) 2,
      po_WeightedUSD = FloatString (assetValue bal price a * as_CollateralFactor a) 2\<rparr>"

text \<open>Sources that answer from a fixed chain state and record every read.\<close>

datatype read = ReadBalance address | ReadPrice address

definition snapshotReader :: "(address \<Rightarrow> int) \<Rightarrow> read list BalanceReader" where
  "snapshotReader bal = \<lparr>BalanceOf = (\<lambda>token account l. (Ok (bal token), l @ [ReadBalance token]))\<rparr>"

definition snapshotOracle :: "(address \<Rightarrow> Price) \<Rightarrow> read list PriceOracle" where
  "snapshotOracle price = \<lparr>oraclePrice = (\<lambda>feed l. (Ok (price feed), l @ [ReadPrice feed]))\<rparr>"

definition assetReads :: "(address \<Rightarrow> int) \<Rightarrow> Asset \<Rightarrow> read list" where
  "assetReads bal a =
     ReadBalance (as_Token a) # (if bal (as_Token a) = 0 then [] else [ReadPrice (as_PriceFeed a)])"

lemma of_int_pow10: "(of_int (pow10 d) :: rat) = 10 ^ unat d"
  by (simp add: pow10_def)

lemma assetValue_alt:
  "assetValue bal price a =
     of_int (bal (as_Token a)) / of_int (pow10 (as_Decimals a)) * price_Rat (price (as_PriceFeed a))"
  by (simp add: assetValue_def price_Rat_def of_int_pow10)

lemma valueAssets_snapshot:
  assumes "eng_reader e = snapshotReader bal" "eng_oracle e = snapshotOracle price"
  shows "valueAssets e account as (g, w, ps) l =
    (Ok (g + grossValue bal price as, w + weightedValue bal price as,
         ps @ map (assetPosition bal price) (filter (\<lambda>a. bal (as_Token a) \<noteq> 0) as)),
     l @ concat (map (assetReads bal) as))"
proof (induction as arbitrary: g w ps l)
  case (Cons a as)
  show ?case
  proof (cases "bal (as_Token a) = 0")
    case True
    then have "valueAsset e account a (g, w, ps) l = (Ok (g, w, ps), l @ assetReads bal a)"
      by (simp add: valueAsset_def bnd_def wrap_eff_def assms snapshotReader_def ret_def assetReads_def)
    then show ?thesis
      using True Cons by (simp add: grossValue_def weightedValue_def assetValue_def)
  next
    case False
    then have "valueAsset e account a (g, w, ps) l =
        (Ok (g + assetValue bal price a, w + assetValue bal price a * as_CollateralFactor a,
             ps @ [assetPosition bal price a]), l @ assetReads bal a)"
      by (simp add: valueAsset_def bnd_def wrap_eff_def assms snapshotReader_def snapshotOracle_def ret_def
          assetReads_def Let_def assetPosition_def assetValue_alt)
    then show ?thesis
      using False Cons by (simp add: grossValue_def weightedValue_def)
  qed
qed (simp add: ret_def grossValue_def weightedValue_def)


section \<open>The contract of the sources\<close>

locale valuation =
  fixes rd :: "'n BalanceReader"
    and orc :: "'n PriceOracle"
    and invar :: "'n \<Rightarrow> bool"
  assumes balance_law: "triple invar (BalanceOf rd token account) (\<lambda>b s. invar s \<and> 0 \<le> b) invar"
    and price_law: "triple invar (oraclePrice orc feed) (\<lambda>p s. invar s \<and> 0 < pr_Value p) invar"
begin

text \<open>Totals that can come out of the loop: the weighted value never exceeds the gross value.\<close>

definition sane :: "totals \<Rightarrow> bool" where
  "sane t \<longleftrightarrow> (case t of (g, w, ps) \<Rightarrow> 0 \<le> w \<and> w \<le> g)"

lemma valueAsset_sane:
  assumes e: "eng_reader e = rd" "eng_oracle e = orc"
    and f: "0 \<le> as_CollateralFactor a" "as_CollateralFactor a \<le> 1" and t: "sane t"
  shows "triple invar (valueAsset e account a t) (\<lambda>t' s. invar s \<and> sane t') invar"
proof -
  obtain g w ps where gw: "t = (g, w, ps)" by (cases t) auto
  have read: "triple invar (wrap_eff m (BalanceOf (eng_reader e) token account)) (\<lambda>b s. invar s \<and> 0 \<le> b) invar"
    and quote: "triple invar (wrap_eff m (oraclePrice (eng_oracle e) feed)) (\<lambda>p s. invar s \<and> 0 < pr_Value p) invar"
    for m token feed
    unfolding e by (rule triple_wrap [OF balance_law], rule triple_wrap [OF price_law])
  have val: "sane (g + v, w + v * as_CollateralFactor a, ps')" if "0 \<le> v" for v ps'
    using t f that mult_left_le [OF f(2) that] by (simp add: sane_def gw)
  have nonneg: "0 \<le> of_int b / of_int (pow10 d) * price_Rat p" if "0 \<le> b" "0 < pr_Value p" for b d p
    using that by (simp add: price_Rat_def pow10_def)
  have rest: "triple (\<lambda>s. invar s \<and> 0 \<le> bal)
      (if bal = 0 then ret (g, w, ps)
       else bnd (wrap_eff (''price '' @ as_Symbol a) (oraclePrice (eng_oracle e) (as_PriceFeed a))) (\<lambda>price.
         let balRat = of_int bal / of_int (pow10 (as_Decimals a));
             val = balRat * price_Rat price; wt = val * as_CollateralFactor a
         in ret (gross' + val, w + wt, ps @ [pos price val wt])))
      (\<lambda>t' s. invar s \<and> sane t') invar" if "gross' = g" for bal pos gross'
  proof (cases "0 \<le> bal")
    case True
    have zero: "triple (\<lambda>s. invar s \<and> 0 \<le> bal) (ret (g, w, ps)) (\<lambda>t' s. invar s \<and> sane t') invar"
      by (rule triple_ret) (use t gw in simp)
    have quote': "triple (\<lambda>s. invar s \<and> 0 \<le> bal)
        (wrap_eff (''price '' @ as_Symbol a) (oraclePrice (eng_oracle e) (as_PriceFeed a)))
        (\<lambda>p s. invar s \<and> 0 < pr_Value p) invar"
      by (rule triple_conseq [OF quote]) auto
    show ?thesis
      unfolding Let_def that
      by (intro triple_if zero triple_bnd [OF quote'] triple_ret conjI val nonneg True) simp_all
  qed (simp add: triple_pre_false)
  show ?thesis
    unfolding valueAsset_def gw prod.case by (rule triple_bnd [OF read rest]) (rule refl)
qed

lemma valueAssets_sane:
  assumes e: "eng_reader e = rd" "eng_oracle e = orc"
    and f: "\<forall>a \<in> set as. 0 \<le> as_CollateralFactor a \<and> as_CollateralFactor a \<le> 1" and t: "sane t"
  shows "triple invar (valueAssets e account as t) (\<lambda>t' s. invar s \<and> sane t') invar"
  using f t
proof (induction as arbitrary: t)
  case (Cons a as)
  have "triple (\<lambda>s. invar s \<and> sane t') (valueAssets e account as t') (\<lambda>t' s. invar s \<and> sane t') invar" for t'
    using Cons.IH [of t'] Cons.prems(1) by (cases "sane t'") (auto simp: triple_pre_false)
  then show ?case
    using Cons.prems by (auto intro!: triple_bnd [OF valueAsset_sane [OF e]])
qed (simp add: triple_ret)

end

text \<open>Documented behaviour of the ABI decoder on \<^verbatim>\<open>balanceOf\<close>: a \<^verbatim>\<open>uint256\<close> is not negative.\<close>

definition unpacks_unsigned :: "'abi Eth \<Rightarrow> 'abi \<Rightarrow> bool" where
  "unpacks_unsigned eth a \<longleftrightarrow>
     (\<forall>out vals v. Unpack eth a ''balanceOf'' out = Ok vals \<longrightarrow> vals ! 0 = BigInt v \<longrightarrow> 0 \<le> v)"

lemma triple_const: "(c \<Longrightarrow> triple (\<lambda>_. True) m (\<lambda>x _. Q x) (\<lambda>_. True)) \<Longrightarrow>
   triple (\<lambda>_. c) m (\<lambda>x _. c \<and> Q x) (\<lambda>_. c)"
  by (cases c) (simp_all add: triple_pre_false)

lemma triple_any: "triple (\<lambda>_. True) m (\<lambda>_ _. True) (\<lambda>_. True)"
  by (rule tripleI) simp_all

lemma bigIntAt_Ok: "bigIntAt msg i vals = Ok v \<Longrightarrow> vals ! i = BigInt v"
  by (auto simp: bigIntAt_def split: if_splits abiVal.splits)

lemma chainlink_positive:
  "triple (\<lambda>_. True) (chainlink_Price eth c feed) (\<lambda>p _. 0 < pr_Value p) (\<lambda>_. True)"
  unfolding chainlink_Price_def
  by (intro triple_bnd_lift triple_bnd [OF triple_any] triple_if triple_ret triple_raise) simp_all

interpretation chainv: valuation "chainReader eth r" "chainlinkOracle eth c"
    "\<lambda>_. unpacks_unsigned eth (cb_abi r)" for eth r c
proof
  fix token account
  have "triple (\<lambda>_. True) (chain_BalanceOf eth r token account) (\<lambda>b _. 0 \<le> b) (\<lambda>_. True)"
    if "unpacks_unsigned eth (cb_abi r)"
    unfolding chain_BalanceOf_def
    by (intro triple_bnd_lift triple_bnd [OF triple_any] triple_lift)
       (use that in \<open>auto simp: unpacks_unsigned_def dest!: bigIntAt_Ok\<close>)
  then show "triple (\<lambda>_. unpacks_unsigned eth (cb_abi r)) (BalanceOf (chainReader eth r) token account)
      (\<lambda>b _. unpacks_unsigned eth (cb_abi r) \<and> 0 \<le> b) (\<lambda>_. unpacks_unsigned eth (cb_abi r))"
    unfolding chainReader_def by (simp add: triple_const)
next
  fix feed
  show "triple (\<lambda>_. unpacks_unsigned eth (cb_abi r)) (oraclePrice (chainlinkOracle eth c) feed)
      (\<lambda>p _. unpacks_unsigned eth (cb_abi r) \<and> 0 < pr_Value p) (\<lambda>_. unpacks_unsigned eth (cb_abi r))"
    unfolding chainlinkOracle_def by (simp add: triple_const chainlink_positive)
qed

text \<open>The tables of the tests, when they hold no negative balance and only positive prices.\<close>

definition tables_sane :: "(address \<rightharpoonup> int) \<Rightarrow> (address \<rightharpoonup> Price) \<Rightarrow> bool" where
  "tables_sane bal price \<longleftrightarrow> (\<forall>b \<in> ran bal. 0 \<le> b) \<and> (\<forall>p \<in> ran price. 0 < pr_Value p)"

interpretation staticv: valuation "staticBalances bal" "staticOracle eth price"
    "\<lambda>_. tables_sane bal price" for bal price eth
proof
  fix token account
  show "triple (\<lambda>_. tables_sane bal price) (BalanceOf (staticBalances bal) token account)
      (\<lambda>b _. tables_sane bal price \<and> 0 \<le> b) (\<lambda>_. tables_sane bal price)"
    unfolding staticBalances_def
    by (simp, rule triple_ret) (auto simp: tables_sane_def ran_def split: option.splits)
next
  fix feed
  show "triple (\<lambda>_. tables_sane bal price) (oraclePrice (staticOracle eth price) feed)
      (\<lambda>p _. tables_sane bal price \<and> 0 < pr_Value p) (\<lambda>_. tables_sane bal price)"
    unfolding staticOracle_def
    by (simp, rule triple_lift) (auto simp: tables_sane_def ran_def split: option.splits)
qed


section \<open>Properties\<close>

text \<open>C4. \<^verbatim>\<open>Evaluate\<close> on one chain state is the reference valuation. It sums
  balance / 10^decimals times price over the assets, and the same sum with collateral factors; it
  lists the non-empty holdings in order; it grades the account by comparing the weighted sum with
  the thresholds times the debt; and its reads are, asset by asset, the balance and then, only for
  a non-zero balance, the price.\<close>

theorem Evaluate_reference:
  "Evaluate eth (NewEngine (snapshotReader bal) (snapshotOracle price) c) account debt l =
     (Ok \<lparr>re_Account = Address_Hex eth account,
          re_GrossCollateralUSD = FloatString (grossValue bal price (Assets c)) 2,
          re_WeightedCollateralUSD = FloatString (weightedValue bal price (Assets c)) 2,
          re_DebtUSD = FloatString debt 2,
          re_HealthFactor = (if 0 < debt then FloatString (weightedValue bal price (Assets c) / debt) 4 else ''n/a''),
          re_Status =
            (if 0 < debt \<and> weightedValue bal price (Assets c) < LiquidationHF c * debt then ''liquidatable''
             else if 0 < debt \<and> weightedValue bal price (Assets c) < MarginCallHF c * debt then ''margin_call''
             else ''healthy''),
          re_Positions = map (assetPosition bal price) (filter (\<lambda>a. bal (as_Token a) \<noteq> 0) (Assets c))\<rparr>,
      l @ concat (map (assetReads bal) (Assets c)))"
proof -
  have "w / debt < x \<longleftrightarrow> w < x * debt" if "0 < debt" for w x :: rat
    using that by (simp add: pos_divide_less_eq)
  then show ?thesis
    by (simp add: Evaluate_def NewEngine_def valueAssets_snapshot bnd_def ret_def finishReport_def Let_def
        status_def StatusHealthy_def StatusMarginCall_def StatusLiquidatable_def not_less)
qed

text \<open>C32. With on-chain sources (ABI-decoded balances, Chainlink prices) and collateral factors in
  [0,1], a report that \<^verbatim>\<open>Evaluate\<close> returns shows a weighted value that is not negative and does not
  exceed the gross value.\<close>

theorem Evaluate_weighted_le_gross:
  assumes "unpacks_unsigned eth (cb_abi r)"
    and "\<forall>a \<in> set (Assets cf). 0 \<le> as_CollateralFactor a \<and> as_CollateralFactor a \<le> 1"
    and "Evaluate eth (NewEngine (chainReader eth r) (chainlinkOracle eth c) cf) account debt s = (Ok rep, s')"
  shows "\<exists>g w. re_GrossCollateralUSD rep = FloatString g 2 \<and> re_WeightedCollateralUSD rep = FloatString w 2 \<and>
    0 \<le> w \<and> w \<le> g"
proof -
  let ?e = "NewEngine (chainReader eth r) (chainlinkOracle eth c) cf"
  obtain t where t: "valueAssets ?e account (Assets cf) (0, 0, []) s = (Ok t, s')"
    and rep: "rep = finishReport eth ?e account debt t"
    using assms(3) by (auto simp: Evaluate_def bnd_eq_Ok ret_def NewEngine_def)
  have "chainv.sane t"
    using triple_okD [OF chainv.valueAssets_sane [where eth = eth and r = r and c = c and e = ?e and as = "Assets cf" and t = "(0, 0, [])"] _ t]
      assms(1,2) by (simp add: NewEngine_def chainv.sane_def)
  then show ?thesis
    using rep by (cases t) (auto simp: chainv.sane_def finishReport_def Let_def)
qed

text \<open>A chain with one WETH (18 decimals) at 2000 USD, for the witness.\<close>

definition wethEth :: "unit Eth" where
  "wethEth =
     \<lparr>abi_JSON = (\<lambda>_. Ok ()), event_ID = (\<lambda>_ _. 0), UnpackIntoInterface = (\<lambda>_ _ bs. Inr (be_value bs)),
      Pack = (\<lambda>_ _ _. Ok []),
      Unpack = (\<lambda>_ m bs. Ok (if m = ''balanceOf'' then [BigInt (be_value bs)] else [BigInt 1, BigInt (be_value bs)])),
      Hash_Hex = (\<lambda>h. utoa (unat h)), Address_Hex = (\<lambda>a. utoa (unat a)),
      HexToHash = (\<lambda>s. word_of_nat (dec_value s)), HexToAddress = (\<lambda>s. word_of_nat (dec_value s)),
      IsHexAddress = (\<lambda>_. True)\<rparr>"

definition wethCaller :: "unit ContractCaller" where
  "wethCaller = \<lparr>CallContract = (\<lambda>to data. ret (if to = 1 then be_bytes 32 (10 ^ 18) else be_bytes 32 (2000 * 10 ^ 8)))\<rparr>"

definition wethConfig :: MarginConfig where
  "wethConfig = \<lparr>Assets = [\<lparr>as_Symbol = ''WETH'', as_Token = 1, as_Decimals = 18,
       as_CollateralFactor = 4 / 5, as_PriceFeed = 241\<rparr>],
     MarginCallHF = 115 / 100, LiquidationHF = 1\<rparr>"

definition wethReader :: "(unit, unit) ChainBalanceReader" where
  "wethReader = \<lparr>cb_caller = wethCaller, cb_abi = ()\<rparr>"

definition wethOracle :: "(unit, unit) ChainlinkOracle" where
  "wethOracle = \<lparr>co_caller = wethCaller, co_abi = (), co_decimals = 8\<rparr>"

lemma be_value_nonneg: "0 \<le> be_value bs"
proof (induction bs rule: rev_induct)
  case (snoc b bs)
  then show ?case by (simp add: be_value_def)
qed (simp add: be_value_def)

lemma weth_unsigned: "unpacks_unsigned wethEth a"
  by (auto simp: unpacks_unsigned_def wethEth_def be_value_nonneg)

lemma weth_Evaluate:
  "\<exists>rep. Evaluate wethEth (NewEngine (chainReader wethEth wethReader) (chainlinkOracle wethEth wethOracle) wethConfig)
     170 1000 () = (Ok rep, ()) \<and> re_Status rep = ''healthy''"
  by (simp add: Evaluate_def NewEngine_def wethConfig_def valueAsset_def chainReader_def chainlinkOracle_def
      chain_BalanceOf_def chainlink_Price_def wethEth_def wethReader_def wethOracle_def wethCaller_def bnd_def
      wrap_eff_def lift_def ret_def bigIntAt_def be_value_be_bytes finishReport_def Let_def price_Rat_def pow10_def
      status_def StatusHealthy_def StatusMarginCall_def StatusLiquidatable_def)

theorem Evaluate_weighted_le_gross_witness:
  "\<exists>rep g w. Evaluate wethEth (NewEngine (chainReader wethEth wethReader) (chainlinkOracle wethEth wethOracle) wethConfig)
      170 1000 () = (Ok rep, ()) \<and>
    re_GrossCollateralUSD rep = FloatString g 2 \<and> re_WeightedCollateralUSD rep = FloatString w 2 \<and> 0 \<le> w \<and> w \<le> g"
proof -
  obtain rep where rep: "Evaluate wethEth (NewEngine (chainReader wethEth wethReader) (chainlinkOracle wethEth wethOracle)
      wethConfig) 170 1000 () = (Ok rep, ())"
    using weth_Evaluate by blast
  have "\<forall>a \<in> set (Assets wethConfig). 0 \<le> as_CollateralFactor a \<and> as_CollateralFactor a \<le> 1"
    by (simp add: wethConfig_def)
  from Evaluate_weighted_le_gross [OF weth_unsigned this rep] rep show ?thesis by blast
qed

text \<open>The grades ordered by severity.\<close>

definition severity :: "string \<Rightarrow> nat" where
  "severity s = (if s = StatusLiquidatable then 2 else if s = StatusMarginCall then 1 else 0)"

text \<open>C33. Borrowing more never improves the grade: with a weighted value that is not negative, a
  larger debt gives a status that is at least as severe.\<close>

theorem status_monotone_in_debt:
  assumes "0 \<le> w" and "debt \<le> debt'"
  shows "severity (re_Status (finishReport eth e account debt (g, w, ps)))
    \<le> severity (re_Status (finishReport eth e account debt' (g, w, ps)))"
proof (cases "0 < debt")
  case True
  have hf: "w / debt' \<le> w / debt"
    using assms True by (simp add: frac_le)
  then have "severity (status e (w / debt)) \<le> severity (status e (w / debt'))"
    by (auto simp: status_def severity_def StatusHealthy_def StatusMarginCall_def StatusLiquidatable_def)
  then show ?thesis using True assms(2) by (simp add: finishReport_def Let_def)
qed (simp add: finishReport_def Let_def severity_def StatusHealthy_def StatusMarginCall_def StatusLiquidatable_def)

theorem status_monotone_in_debt_witness:
  "severity (re_Status (finishReport wethEth (NewEngine (chainReader wethEth wethReader)
      (chainlinkOracle wethEth wethOracle) wethConfig) 170 1400 (2000, 1600, [])))
    \<le> severity (re_Status (finishReport wethEth (NewEngine (chainReader wethEth wethReader)
      (chainlinkOracle wethEth wethOracle) wethConfig) 170 1700 (2000, 1600, [])))"
  by (rule status_monotone_in_debt) simp_all

text \<open>C34. The amounts of a report are the exact values rounded half away from zero: read back with
  \<^verbatim>\<open>SetString\<close> they are within half a cent, and the health factor is within 0.00005.\<close>

theorem report_amounts:
  "\<exists>g' w' d' h. SetString (re_GrossCollateralUSD (finishReport eth e account debt (g, w, ps))) = Some g' \<and>
     SetString (re_WeightedCollateralUSD (finishReport eth e account debt (g, w, ps))) = Some w' \<and>
     SetString (re_DebtUSD (finishReport eth e account debt (g, w, ps))) = Some d' \<and>
     \<bar>g' - g\<bar> \<le> 1 / 200 \<and> \<bar>w' - w\<bar> \<le> 1 / 200 \<and> \<bar>d' - debt\<bar> \<le> 1 / 200 \<and>
     (if 0 < debt
      then SetString (re_HealthFactor (finishReport eth e account debt (g, w, ps))) = Some h \<and>
        \<bar>h - w / debt\<bar> \<le> 1 / 20000
      else re_HealthFactor (finishReport eth e account debt (g, w, ps)) = ''n/a'')"
  using roundDec_error [of g 2] roundDec_error [of w 2] roundDec_error [of debt 2] roundDec_error [of "w / debt" 4]
  by (intro exI [of _ "roundDec g 2"] exI [of _ "roundDec w 2"] exI [of _ "roundDec debt 2"]
      exI [of _ "roundDec (w / debt) 4"])
     (simp add: finishReport_def Let_def SetString_FloatString)


lemma valueAsset_error:
  assumes "valueAsset e account a t s = (Err err, s')"
  shows "\<exists>e0. err = Wrap (''balance '' @ as_Symbol a) e0 \<or> err = Wrap (''price '' @ as_Symbol a) e0"
proof -
  obtain g w ps where t: "t = (g, w, ps)" by (cases t) auto
  obtain r1 s1 where b: "BalanceOf (eng_reader e) (as_Token a) account s = (r1, s1)"
    by (cases "BalanceOf (eng_reader e) (as_Token a) account s")
  obtain r2 s2 where p: "oraclePrice (eng_oracle e) (as_PriceFeed a) s1 = (r2, s2)"
    by (cases "oraclePrice (eng_oracle e) (as_PriceFeed a) s1")
  show ?thesis
    using assms b p
    by (cases r1; cases r2) (auto simp: t valueAsset_def bnd_def wrap_eff_def ret_def Let_def split: if_splits)
qed

lemma valueAssets_error:
  "valueAssets e account as t s = (Err err, s') \<Longrightarrow>
   \<exists>a \<in> set as. \<exists>e0. err = Wrap (''balance '' @ as_Symbol a) e0 \<or> err = Wrap (''price '' @ as_Symbol a) e0"
proof (induction as arbitrary: t s)
  case (Cons a as)
  obtain r s1 where v: "valueAsset e account a t s = (r, s1)" by (cases "valueAsset e account a t s")
  show ?case
  proof (cases r)
    case (Ok t')
    then have "valueAssets e account as t' s1 = (Err err, s')" using Cons.prems v by simp
    from Cons.IH [OF this] show ?thesis by simp
  next
    case (Err err')
    then have "valueAsset e account a t s = (Err err, s')" using Cons.prems v by simp
    from valueAsset_error [OF this] show ?thesis by simp
  qed (use Cons.prems v in simp)
qed (simp add: ret_def)



end
