(* ===== verification/Go_Float.thy ===== *)
theory Go_Float
  imports Complex_Main "HOL-Library.Log_Nat"
begin

text \<open>
  \<^verbatim>\<open>float64\<close> arithmetic: a finite value is the rational number it denotes, and an operation is the exact
  operation followed by rounding to the nearest 53-bit significand, ties to even, with gradual underflow
  (\<open>fl\<close>). Infinities and NaN do not occur in the ranges the platform computes in and are not represented.
\<close>

section \<open>Rounding\<close>

definition roundEven :: "rat \<Rightarrow> int" where
  "roundEven y =
     (let f = \<lfloor>y\<rfloor>; r = y - of_int f in
      if r < 1 / 2 then f else if 1 / 2 < r then f + 1 else if even f then f else f + 1)"

text \<open>The binary exponent: \<open>2 ^ ilog2 x \<le> x < 2 ^ (ilog2 x + 1)\<close>.\<close>

definition ilog2 :: "rat \<Rightarrow> int" where
  "ilog2 x =
     (case quotient_of x of (n, d) \<Rightarrow>
        let e = bitlen n - bitlen d in if 2 powi e \<le> x then e else e - 1)"

definition quantumExp :: "rat \<Rightarrow> int" where
  "quantumExp x = max (ilog2 \<bar>x\<bar> - 52) (- 1074)"

definition fl :: "rat \<Rightarrow> rat" where
  "fl x = (if x = 0 then 0
     else of_int (roundEven (x / 2 powi quantumExp x)) * 2 powi quantumExp x)"


section \<open>Laws\<close>

lemma roundEven_error: "\<bar>of_int (roundEven y) - y\<bar> \<le> 1 / 2"
proof -
  have "of_int \<lfloor>y\<rfloor> \<le> y" "y < of_int \<lfloor>y\<rfloor> + 1" by linarith+
  then show ?thesis by (auto simp: roundEven_def Let_def abs_le_iff)
qed

lemma roundEven_of_int [simp]: "roundEven (of_int n) = n"
  by (simp add: roundEven_def)

lemma roundEven_mono: "x \<le> y \<Longrightarrow> roundEven x \<le> roundEven y"
proof -
  assume "x \<le> y"
  then have f: "\<lfloor>x\<rfloor> \<le> \<lfloor>y\<rfloor>" by (rule floor_mono)
  show ?thesis
  proof (cases "\<lfloor>x\<rfloor> = \<lfloor>y\<rfloor>")
    case True
    then show ?thesis using \<open>x \<le> y\<close> by (auto simp: roundEven_def Let_def)
  next
    case False
    then have "\<lfloor>x\<rfloor> + 1 \<le> \<lfloor>y\<rfloor>" using f by simp
    moreover have "roundEven x \<le> \<lfloor>x\<rfloor> + 1" "\<lfloor>y\<rfloor> \<le> roundEven y" by (auto simp: roundEven_def Let_def)
    ultimately show ?thesis by linarith
  qed
qed

lemma roundEven_le: "x \<le> of_int n \<Longrightarrow> roundEven x \<le> n"
  using roundEven_mono [of x "of_int n"] by simp

lemma roundEven_ge: "of_int n \<le> x \<Longrightarrow> n \<le> roundEven x"
  using roundEven_mono [of "of_int n" x] by simp

lemma roundEven_uminus: "roundEven (- y) = - roundEven y"
proof (cases "y = of_int \<lfloor>y\<rfloor>")
  case True
  then show ?thesis by (metis of_int_minus roundEven_of_int)
next
  case False
  then have "\<lfloor>- y\<rfloor> = - \<lfloor>y\<rfloor> - 1" by linarith
  then show ?thesis by (auto simp: roundEven_def Let_def)
qed

lemma bitlen_powi:
  assumes "0 < n"
  shows "2 powi (bitlen n - 1) \<le> (of_int n :: rat)" and "(of_int n :: rat) < 2 powi (bitlen n)"
proof -
  have b: "2 ^ nat (bitlen n - 1) \<le> n" "n < 2 ^ nat (bitlen n)"
    using bitlen_bounds [OF assms] by auto
  have p: "0 < bitlen n"
  proof (rule ccontr)
    assume "\<not> 0 < bitlen n"
    then have "nat (bitlen n) = 0" by simp
    then show False using b(2) assms by simp
  qed
  have c: "2 powi k = (of_int (2 ^ nat k) :: rat)" if "0 \<le> k" for k
    using that by (simp add: power_int_def)
  show "2 powi (bitlen n - 1) \<le> (of_int n :: rat)"
    using b(1) p by (simp add: c)
  show "(of_int n :: rat) < 2 powi (bitlen n)"
    using b(2) p by (simp add: c)
qed

lemma ilog2_bounds:
  assumes "0 < x"
  shows "2 powi ilog2 x \<le> x" and "x < 2 powi (ilog2 x + 1)"
proof -
  obtain n d where nd: "quotient_of x = (n, d)" by fastforce
  have x: "x = of_int n / of_int d" and d: "0 < d"
    using nd by (auto simp: quotient_of_div quotient_of_denom_pos)
  have n: "0 < n" using assms x d by (simp add: zero_less_divide_iff)
  let ?e = "bitlen n - bitlen d"
  have up: "x < 2 powi (?e + 1)"
  proof -
    have "x < 2 powi bitlen n / of_int d"
      unfolding x using bitlen_powi(2) [OF n] d by (simp add: divide_strict_right_mono)
    also have "\<dots> \<le> 2 powi bitlen n / 2 powi (bitlen d - 1)"
      using bitlen_powi(1) [OF d] d by (intro divide_left_mono) auto
    also have "\<dots> = 2 powi (?e + 1)" by (simp flip: power_int_diff) (simp add: algebra_simps)
    finally show ?thesis .
  qed
  have lo: "2 powi (?e - 1) \<le> x"
  proof -
    have "2 powi (?e - 1) = 2 powi (bitlen n - 1) / (2 powi bitlen d :: rat)"
      by (simp flip: power_int_diff) (simp add: algebra_simps)
    also have "\<dots> \<le> 2 powi (bitlen n - 1) / of_int d"
      using bitlen_powi(2) [OF d] d by (intro divide_left_mono) auto
    also have "\<dots> \<le> x"
      unfolding x using bitlen_powi(1) [OF n] d by (simp add: divide_right_mono)
    finally show ?thesis .
  qed
  show "2 powi ilog2 x \<le> x" "x < 2 powi (ilog2 x + 1)"
    using up lo by (auto simp: ilog2_def nd Let_def)
qed

lemma powi_le: "(2 :: rat) powi a \<le> 2 powi b \<longleftrightarrow> a \<le> b"
  using power_int_increasing [of a b "2 :: rat"] power_int_strict_increasing [of b a "2 :: rat"] by linarith

lemma powi_less: "(2 :: rat) powi a < 2 powi b \<longleftrightarrow> a < b"
  using powi_le [of b a] by linarith

lemma powi_pos [simp]: "0 < (2 :: rat) powi a"
  by simp

lemma powi_ratio_int:
  assumes "a \<le> b"
  obtains k :: int where "(2 :: rat) powi b / 2 powi a = of_int k"
proof
  show "(2 :: rat) powi b / 2 powi a = of_int (2 ^ nat (b - a))"
    using assms by (simp flip: power_int_diff) (simp add: power_int_def)
qed

lemma ilog2_mono: "0 < x \<Longrightarrow> x \<le> y \<Longrightarrow> ilog2 x \<le> ilog2 y"
  using ilog2_bounds [of x] ilog2_bounds [of y] powi_less [of "ilog2 x" "ilog2 y + 1"] by linarith

lemma ilog2_unique:
  assumes "2 powi e \<le> x" and "x < 2 powi (e + 1)"
  shows "ilog2 x = e"
proof -
  have "0 < x" using assms(1) powi_pos [of e] by linarith
  then show ?thesis
    using assms ilog2_bounds [of x] powi_less [of e "ilog2 x + 1"] powi_less [of "ilog2 x" "e + 1"] by linarith
qed

lemma fl_uminus: "fl (- x) = - fl x"
  by (simp add: fl_def quantumExp_def roundEven_uminus)

lemma fl_0 [simp]: "fl 0 = 0"
  by (simp add: fl_def)

lemma fl_nonneg: "0 \<le> x \<Longrightarrow> 0 \<le> fl x"
  using roundEven_ge [of 0 "x / 2 powi quantumExp x"] by (simp add: fl_def)

text \<open>Rounding is monotone.\<close>

lemma fl_mono_pos:
  assumes "0 < x" and "x \<le> y"
  shows "fl x \<le> fl y"
proof -
  have y: "0 < y" using assms by simp
  let ?qx = "2 powi quantumExp x :: rat" and ?qy = "2 powi quantumExp y :: rat"
  show ?thesis
  proof (cases "quantumExp x = quantumExp y")
    case True
    have "x / ?qx \<le> y / ?qx" using assms(2) by (simp add: divide_right_mono)
    from roundEven_mono [OF this] show ?thesis
      using assms y True by (simp add: fl_def mult_right_mono)
  next
    case False
    have "ilog2 x \<le> ilog2 y" using assms by (rule ilog2_mono)
    then have e: "quantumExp x \<le> ilog2 y" "quantumExp y \<le> ilog2 y" "ilog2 x < ilog2 y"
      using False assms y by (auto simp: quantumExp_def)
    let ?P = "2 powi ilog2 y :: rat"
    have P: "x \<le> ?P" "?P \<le> y"
      using ilog2_bounds [OF assms(1)] ilog2_bounds [OF y] e(3) powi_le [of "ilog2 x + 1" "ilog2 y"] by simp_all
    obtain k where k: "?P / ?qx = of_int k" using powi_ratio_int [OF e(1)] by blast
    obtain l where l: "?P / ?qy = of_int l" using powi_ratio_int [OF e(2)] by blast
    have "roundEven (x / ?qx) \<le> k"
      by (rule roundEven_le) (use P(1) in \<open>simp add: divide_right_mono flip: k\<close>)
    then have "of_int (roundEven (x / ?qx)) * ?qx \<le> of_int k * ?qx" by (simp add: mult_right_mono)
    also have "\<dots> = ?P" by (simp flip: k)
    finally have 1: "fl x \<le> ?P" using assms by (simp add: fl_def)
    have "l \<le> roundEven (y / ?qy)"
      by (rule roundEven_ge) (use P(2) in \<open>simp add: divide_right_mono flip: l\<close>)
    then have "of_int l * ?qy \<le> of_int (roundEven (y / ?qy)) * ?qy" by (simp add: mult_right_mono)
    then have 2: "?P \<le> fl y" using y l by (simp add: fl_def field_simps)
    from 1 2 show ?thesis by simp
  qed
qed

lemma fl_mono: "x \<le> y \<Longrightarrow> fl x \<le> fl y"
proof -
  assume xy: "x \<le> y"
  consider "0 < x" | "x \<le> 0" "0 \<le> y" | "y < 0" using xy by linarith
  then show ?thesis
  proof cases
    case 1 then show ?thesis using xy by (rule fl_mono_pos)
  next
    case 2
    then show ?thesis using fl_nonneg [of y] fl_nonneg [of "- x"] by (simp add: fl_uminus)
  next
    case 3
    then show ?thesis using fl_mono_pos [of "- y" "- x"] xy by (simp add: fl_uminus)
  qed
qed

text \<open>Integers of up to 53 bits are exact.\<close>

lemma fl_of_int:
  assumes "\<bar>n\<bar> < 2 ^ 53"
  shows "fl (of_int n) = of_int n"
proof (cases "n = 0")
  case False
  have "(of_int \<bar>n\<bar> :: rat) < 2 powi 53"
    using assms by (simp add: power_int_def)
  then have "ilog2 (of_int \<bar>n\<bar>) < 53"
    using ilog2_bounds(1) [of "of_int \<bar>n\<bar>"] False powi_less [of "ilog2 (of_int \<bar>n\<bar>)" 53] by simp
  then have "quantumExp (of_int n) \<le> 0" by (simp add: quantumExp_def)
  from powi_ratio_int [OF this] obtain k where k: "1 / (2 :: rat) powi quantumExp (of_int n) = of_int k" by auto
  have "of_int n / 2 powi quantumExp (of_int n) = (of_int (n * k) :: rat)"
    by (simp flip: k)
  then have "fl (of_int n) = of_int (n * k) * 2 powi quantumExp (of_int n)"
    using False by (simp only: fl_def roundEven_of_int) simp
  also have "\<dots> = of_int n" by (simp flip: k)
  finally show ?thesis .
qed simp

text \<open>The rounding error is at most half a unit in the last place.\<close>

lemma fl_error: "\<bar>fl x - x\<bar> \<le> max \<bar>x\<bar> (2 powi - 1022) / 2 ^ 53"
proof (cases "x = 0")
  case False
  let ?q = "2 powi quantumExp x :: rat"
  have "\<bar>fl x - x\<bar> = \<bar>of_int (roundEven (x / ?q)) - x / ?q\<bar> * ?q"
    using False by (simp add: fl_def abs_mult [symmetric] left_diff_distrib)
      (metis abs_mult abs_of_pos left_diff_distrib nonzero_eq_divide_eq powi_pos less_irrefl)
  also have "\<dots> \<le> 1 / 2 * ?q"
    using roundEven_error by (rule mult_right_mono) simp
  also have "\<dots> \<le> max \<bar>x\<bar> (2 powi - 1022) / 2 ^ 53"
  proof -
    have "?q \<le> max \<bar>x\<bar> (2 powi - 1022) / 2 ^ 52"
    proof (cases "ilog2 \<bar>x\<bar> - 52 \<ge> - 1074")
      case True
      then have "?q = 2 powi (ilog2 \<bar>x\<bar> - 52)" unfolding quantumExp_def by (subst max_absorb1) simp_all
      also have "\<dots> = 2 powi ilog2 \<bar>x\<bar> / 2 ^ 52" by (simp add: power_int_diff)
      finally have "?q = 2 powi ilog2 \<bar>x\<bar> / 2 ^ 52" .
      then show ?thesis
        using ilog2_bounds(1) [of "\<bar>x\<bar>"] False by (simp add: divide_right_mono le_max_iff_disj)
    next
      case F: False
      then have "?q = 2 powi (- 1022 - 52)" by (simp add: quantumExp_def max_def)
      also have "\<dots> = 2 powi - 1022 / 2 ^ 52" unfolding power_int_diff [OF disjI1 [OF zero_neq_numeral [symmetric]]] by simp
      also have "\<dots> \<le> max \<bar>x\<bar> (2 powi - 1022) / 2 ^ 52" by (rule divide_right_mono) simp_all
      finally show ?thesis .
    qed
    then show ?thesis by simp
  qed
  finally show ?thesis .
qed simp

text \<open>One unit of relative error at the scale of the platform's values.\<close>

definition ulp :: rat where
  "ulp = 1 / 2 ^ 53"

lemma fl_le: "0 \<le> x \<Longrightarrow> fl x \<le> x + ulp * (x + 1)"
proof -
  assume x: "0 \<le> x"
  have "(2 :: rat) powi - 1022 \<le> 1" using powi_le [of "- 1022" 0] by simp
  then have "max \<bar>x\<bar> (2 powi - 1022) \<le> x + 1" using x by simp
  then have "max \<bar>x\<bar> (2 powi - 1022) / 2 ^ 53 \<le> ulp * (x + 1)" by (simp add: ulp_def divide_right_mono)
  then show ?thesis using fl_error [of x] by linarith
qed

end
