(* ===== verification/Go_Time.thy ===== *)
theory Go_Time
  imports Go_Float "HOL-Library.Signed_Division"
begin

text \<open>
  Package \<^verbatim>\<open>time\<close>: clock readings, durations (64-bit nanosecond counts) and the conversions the platform
  uses. Go's integer division truncates towards zero (\<open>sdiv\<close>, \<open>smod\<close>).
\<close>

text \<open>A clock reading has wall time (nanoseconds since the epoch) and monotonic time.\<close>

record instant =
  wall :: int
  mono :: int

definition Second :: int where "Second = 10 ^ 9"
definition Minute :: int where "Minute = 60 * Second"
definition Hour :: int where "Hour = 60 * Minute"

definition maxDuration :: int where "maxDuration = 2 ^ 63 - 1"
definition minDuration :: int where "minDuration = - (2 ^ 63)"

text \<open>\<^verbatim>\<open>Time.Sub\<close> of two readings of one process: the monotonic difference, saturated.\<close>

definition time_Sub :: "instant \<Rightarrow> instant \<Rightarrow> int" where
  "time_Sub t u = max minDuration (min maxDuration (mono t - mono u))"

definition Unix :: "instant \<Rightarrow> int" where
  "Unix t = wall t div Second"

text \<open>\<^verbatim>\<open>Duration.Seconds\<close>, a \<^verbatim>\<open>float64\<close>.\<close>

definition Seconds :: "int \<Rightarrow> rat" where
  "Seconds d = fl (of_int (d sdiv Second) + fl (of_int (d smod Second) / of_int Second))"

text \<open>\<^verbatim>\<open>int(f)\<close> and \<^verbatim>\<open>int64(f)\<close> of a float in range.\<close>

definition truncate_float :: "rat \<Rightarrow> int" where
  "truncate_float f = (if 0 \<le> f then \<lfloor>f\<rfloor> else - \<lfloor>- f\<rfloor>)"

lemma sdiv_smod_nonneg: "0 \<le> d \<Longrightarrow> d sdiv Second = d div Second \<and> d smod Second = d mod Second"
  by (cases "d = 0") (simp_all add: Second_def signed_divide_int_def signed_modulo_int_def)

lemma Seconds_nonneg: "0 \<le> d \<Longrightarrow> 0 \<le> Seconds d"
proof -
  assume d: "0 \<le> d"
  then have "(0 :: rat) \<le> of_int (d mod Second) / of_int Second" by (simp add: Second_def)
  from fl_nonneg [OF this] show ?thesis
    using d by (simp add: Seconds_def sdiv_smod_nonneg) (simp add: Second_def fl_nonneg)
qed

lemma Seconds_le:
  assumes "0 \<le> d"
  shows "Seconds d \<le> (of_int d / 10 ^ 9) * (1 + ulp) + 4 * ulp"
proof -
  let ?q = "of_int (d div Second) :: rat" and ?r = "of_int (d mod Second) / of_int Second :: rat"
  have r: "0 \<le> ?r" "?r \<le> 1" by (simp_all add: Second_def order_less_imp_le)
  have q: "0 \<le> ?q" using assms by (simp add: Second_def)
  have qr: "?q + ?r = of_int d / 10 ^ 9"
  proof -
    have "of_int d = (of_int (d div Second) * of_int Second + of_int (d mod Second) :: rat)"
      by (simp flip: of_int_mult of_int_add)
    then have "of_int d / of_int Second = ?q + ?r" by (simp add: Second_def add_divide_distrib)
    then show ?thesis by (simp add: Second_def)
  qed
  have u: "0 < ulp" "ulp \<le> 1 / 2" by (simp_all add: ulp_def)
  have f: "fl ?r \<le> ?r + 2 * ulp"
  proof -
    have "ulp * (?r + 1) \<le> ulp * 2" using r u(1) by (intro mult_left_mono) auto
    then show ?thesis using fl_le [OF r(1)] by linarith
  qed
  have "Seconds d = fl (?q + fl ?r)" using assms by (simp add: Seconds_def sdiv_smod_nonneg)
  also have "\<dots> \<le> (?q + fl ?r) + ulp * (?q + fl ?r + 1)"
    using fl_nonneg [OF r(1)] q by (intro fl_le) simp
  also have "\<dots> = (?q + fl ?r) * (1 + ulp) + ulp" by (simp add: algebra_simps)
  also have "\<dots> \<le> (?q + ?r + 2 * ulp) * (1 + ulp) + ulp"
  proof -
    have "?q + fl ?r \<le> ?q + ?r + 2 * ulp" using f by linarith
    then have "(?q + fl ?r) * (1 + ulp) \<le> (?q + ?r + 2 * ulp) * (1 + ulp)" using u by (intro mult_right_mono) auto
    then show ?thesis by simp
  qed
  also have "\<dots> = (?q + ?r) * (1 + ulp) + 2 * ulp * (1 + ulp) + ulp" by (simp add: algebra_simps)
  also have "\<dots> \<le> (?q + ?r) * (1 + ulp) + 4 * ulp"
  proof -
    have "2 * ulp * (1 + ulp) \<le> 2 * ulp * (3 / 2)" using u by (intro mult_left_mono) auto
    then show ?thesis by simp
  qed
  finally show ?thesis unfolding qr .
qed

text \<open>Whole seconds are exact.\<close>

lemma Seconds_whole:
  assumes "0 \<le> n" "n < 2 ^ 53"
  shows "Seconds (n * Second) = of_int n"
proof -
  have "n * Second div Second = n" "n * Second mod Second = 0" by (simp_all add: Second_def)
  then show ?thesis
    using assms fl_of_int [of n] sdiv_smod_nonneg [of "n * Second"] by (simp add: Seconds_def Second_def)
qed

end
