(* ===== verification/Go_Http.thy ===== *)
theory Go_Http
  imports Go_Json Go_Time
begin

text \<open>
  The parts of Go's standard library the HTTP services are written against: header maps with canonical
  keys, URL paths and queries, the response writer of a server connection, clock, randomness and log of
  the serving process, the routing of \<^verbatim>\<open>http.ServeMux\<close> and \<^verbatim>\<open>httputil.ReverseProxy\<close>.

  A handler is an effectful call on the state of the serving process (\<open>srv\<close>) that gets the request as
  a value. The bytes on the wire below \<^verbatim>\<open>ResponseWriter\<close>, trailers and streaming are left out.
\<close>

section \<open>Header maps\<close>

type_synonym header = "string \<rightharpoonup> string list"

definition isTokenChar :: "char \<Rightarrow> bool" where
  "isTokenChar c \<longleftrightarrow>
     is_digit c \<or> (65 \<le> byte c \<and> byte c \<le> 90) \<or> (97 \<le> byte c \<and> byte c \<le> 122) \<or>
     c \<in> set ''!#$%&*+-.^_`|~'' \<or> byte c = 39"

definition toUpper :: "char \<Rightarrow> char" where
  "toUpper c = (if 97 \<le> byte c \<and> byte c \<le> 122 then char_of (byte c - 32) else c)"

definition toLower :: "char \<Rightarrow> char" where
  "toLower c = (if 65 \<le> byte c \<and> byte c \<le> 90 then char_of (byte c + 32) else c)"

text \<open>The first argument says whether the next byte starts a word.\<close>

fun canonicalBytes :: "bool \<Rightarrow> string \<Rightarrow> string" where
  "canonicalBytes up [] = []"
| "canonicalBytes up (c # cs) = (if up then toUpper c else toLower c) # canonicalBytes (c = CHR ''-'') cs"

text \<open>\<^verbatim>\<open>CanonicalHeaderKey\<close>: a key with a byte that is not a token character is kept as it is.\<close>

definition CanonicalHeaderKey :: "string \<Rightarrow> string" where
  "CanonicalHeaderKey k = (if list_all isTokenChar k then canonicalBytes True k else k)"

definition header_Get :: "header \<Rightarrow> string \<Rightarrow> string" where
  "header_Get h k = (case h (CanonicalHeaderKey k) of Some (v # vs) \<Rightarrow> v | _ \<Rightarrow> [])"

definition header_Set :: "string \<Rightarrow> string \<Rightarrow> header \<Rightarrow> header" where
  "header_Set k v h = h(CanonicalHeaderKey k \<mapsto> [v])"

definition header_Del :: "string \<Rightarrow> header \<Rightarrow> header" where
  "header_Del k h = h(CanonicalHeaderKey k := None)"

definition header_values :: "header \<Rightarrow> string \<Rightarrow> string list" where
  "header_values h k = (case h k of None \<Rightarrow> [] | Some vs \<Rightarrow> vs)"

text \<open>\<^verbatim>\<open>copyHeader\<close>: the values of the source are added after those of the destination.\<close>

definition copyHeader :: "header \<Rightarrow> header \<Rightarrow> header" where
  "copyHeader dst src = (\<lambda>k. case src k of
       None \<Rightarrow> dst k
     | Some [] \<Rightarrow> dst k
     | Some vs \<Rightarrow> Some (header_values dst k @ vs))"


section \<open>Paths and queries\<close>

fun splitOn :: "char \<Rightarrow> string \<Rightarrow> string list" where
  "splitOn sep [] = [[]]"
| "splitOn sep (c # cs) =
     (if c = sep then [] # splitOn sep cs
      else case splitOn sep cs of [] \<Rightarrow> [[c]] | w # ws \<Rightarrow> (c # w) # ws)"

text \<open>Percent decoding; with \<open>inQuery\<close> (query components) a plus sign is a space.\<close>

fun unescape :: "bool \<Rightarrow> string \<Rightarrow> string option" where
  "unescape inQuery [] = Some []"
| "unescape inQuery (c # cs) =
     (if c = CHR ''%'' then
        (case cs of
           a # b # rest \<Rightarrow>
             (case (hexVal a, hexVal b) of
                (Some x, Some y) \<Rightarrow> map_option (Cons (char_of (16 * x + y))) (unescape inQuery rest)
              | _ \<Rightarrow> None)
         | _ \<Rightarrow> None)
      else map_option (Cons (if inQuery \<and> c = CHR ''+'' then CHR '' '' else c)) (unescape inQuery cs))"

text \<open>\<^verbatim>\<open>pathUnescape\<close> of the router: a malformed escape leaves the text as it is.\<close>

definition pathUnescape :: "string \<Rightarrow> string" where
  "pathUnescape s = (case unescape False s of None \<Rightarrow> s | Some t \<Rightarrow> t)"

definition upperHex :: "nat \<Rightarrow> char" where
  "upperHex d = char_of (if d < 10 then 48 + d else 55 + d)"

definition isUnreserved :: "char \<Rightarrow> bool" where
  "isUnreserved c \<longleftrightarrow>
     is_digit c \<or> (65 \<le> byte c \<and> byte c \<le> 90) \<or> (97 \<le> byte c \<and> byte c \<le> 122) \<or> c \<in> set ''-_.~''"

text \<open>\<^verbatim>\<open>escape(path, encodePath)\<close>\<close>

definition escapePath :: "string \<Rightarrow> string" where
  "escapePath s = concat (map (\<lambda>c.
     if isUnreserved c \<or> c \<in> set ''$&+,/:;=@'' then [c]
     else [CHR ''%'', upperHex (byte c div 16), upperHex (byte c mod 16)]) s)"

definition validEncoded :: "string \<Rightarrow> bool" where
  "validEncoded s \<longleftrightarrow> list_all (\<lambda>c.
     isUnreserved c \<or> c \<in> set ''$&+,/:;=@'' \<or> c \<in> set ''!()*[]%'' \<or> byte c = 39) s"

record URL =
  u_Scheme :: string
  u_Host :: string
  u_Path :: string
  u_RawPath :: string
  u_RawQuery :: string

definition EscapedPath :: "URL \<Rightarrow> string" where
  "EscapedPath u =
     (if u_RawPath u \<noteq> [] \<and> validEncoded (u_RawPath u) \<and> unescape False (u_RawPath u) = Some (u_Path u)
      then u_RawPath u
      else if u_Path u = ''*'' then ''*''
      else escapePath (u_Path u))"

text \<open>\<^verbatim>\<open>url.ParseQuery\<close> and \<^verbatim>\<open>Values.Get\<close>: the first value of a key; pairs with a semicolon or a malformed
  escape are dropped, and a query of more than \<open>maxQueryParams\<close> pairs counts as empty.\<close>

definition maxQueryParams :: nat where
  "maxQueryParams = 10000"

definition queryPair :: "string \<Rightarrow> (string \<times> string) option" where
  "queryPair s =
     (if CHR '';'' \<in> set s \<or> s = [] then None
      else case Cut s (CHR ''='') of (k, v, _) \<Rightarrow>
        (case (unescape True k, unescape True v) of
           (Some k', Some v') \<Rightarrow> Some (k', v')
         | _ \<Rightarrow> None))"

definition query_Get :: "string \<Rightarrow> string \<Rightarrow> string" where
  "query_Get rawQuery key =
     (let pairs = splitOn (CHR ''&'') rawQuery in
      if maxQueryParams < length pairs then []
      else case map_of (List.map_filter queryPair pairs) key of
          None \<Rightarrow> [] | Some v \<Rightarrow> v)"

definition has_prefix :: "string \<Rightarrow> string \<Rightarrow> bool" where
  "has_prefix s p \<longleftrightarrow> take (length p) s = p"

definition has_suffix :: "string \<Rightarrow> string \<Rightarrow> bool" where
  "has_suffix s p \<longleftrightarrow> has_prefix (rev s) (rev p)"


section \<open>Requests and the serving process\<close>

record Request =
  rq_Method :: string
  rq_URL :: URL
  rq_Header :: header
  rq_Body :: string
  rq_Host :: string
  rq_RemoteAddr :: string
  rq_requestID :: "string option"
  rq_pathValues :: "(string \<times> string) list"

text \<open>\<open>rq_requestID\<close> is the context value under \<^verbatim>\<open>httpx.requestIDKey\<close>.\<close>

definition PathValue :: "Request \<Rightarrow> string \<Rightarrow> string" where
  "PathValue r name = (case map_of (rq_pathValues r) name of None \<Rightarrow> [] | Some v \<Rightarrow> v)"

record entry =
  le_level :: string
  le_msg :: string
  le_attrs :: "(string \<times> any) list"

text \<open>The response writer of a connection: the header map handlers edit, the status line once it is
  written with the header as it was then, and the body. \<open>w_wrapped\<close> holds the \<^verbatim>\<open>status\<close> fields of the
  \<^verbatim>\<open>statusWriter\<close> values wrapped around it, outermost first.\<close>

record ResponseWriter =
  w_Header :: header
  w_code :: "int option"
  w_sent :: header
  w_Body :: string
  w_wrapped :: "int list"

text \<open>The state a handler runs in: the service's own objects, the coming clock readings and random
  bytes, the log written so far, and the response.\<close>

record 's srv =
  sv_state :: 's
  sv_clock :: "nat \<Rightarrow> instant"
  sv_random :: "nat \<Rightarrow> u8"
  sv_log :: "entry list"
  sv_w :: ResponseWriter

type_synonym 's handler = "Request \<Rightarrow> ('s srv, unit) eff"

definition time_Now :: "('s srv, instant) eff" where
  "time_Now s = (Ok (sv_clock s 0), s\<lparr>sv_clock := \<lambda>n. sv_clock s (Suc n)\<rparr>)"

definition rand_Read :: "nat \<Rightarrow> ('s srv, u8 list) eff" where
  "rand_Read k s = (Ok (map (sv_random s) [0..<k]), s\<lparr>sv_random := \<lambda>n. sv_random s (n + k)\<rparr>)"

definition log_write :: "string \<Rightarrow> string \<Rightarrow> (string \<times> any) list \<Rightarrow> ('s srv, unit) eff" where
  "log_write level msg attrs s =
     (Ok (), s\<lparr>sv_log := sv_log s @ [\<lparr>le_level = level, le_msg = msg, le_attrs = attrs\<rparr>]\<rparr>)"

text \<open>A call on the service's own objects.\<close>

definition on_state :: "('s, 'a) eff \<Rightarrow> ('s srv, 'a) eff" where
  "on_state m s = (case m (sv_state s) of (r, st) \<Rightarrow> (r, s\<lparr>sv_state := st\<rparr>))"

definition header_edit :: "(header \<Rightarrow> header) \<Rightarrow> ('s srv, unit) eff" where
  "header_edit f s = (Ok (), s\<lparr>sv_w := (sv_w s)\<lparr>w_Header := f (w_Header (sv_w s))\<rparr>\<rparr>)"

text \<open>\<^verbatim>\<open>response.WriteHeader\<close>: a second status line is ignored, informational codes are sent at once.\<close>

definition conn_WriteHeader :: "int \<Rightarrow> ResponseWriter \<Rightarrow> unit result \<times> ResponseWriter" where
  "conn_WriteHeader code w =
     (if w_code w \<noteq> None then (Ok (), w)
      else if code < 100 \<or> 999 < code then (Panic ''invalid WriteHeader code'', w)
      else if 100 \<le> code \<and> code \<le> 199 \<and> code \<noteq> 101 then (Ok (), w)
      else (Ok (), w\<lparr>w_code := Some code, w_sent := w_Header w\<rparr>))"

definition bodyAllowed :: "int \<Rightarrow> bool" where
  "bodyAllowed code \<longleftrightarrow> \<not> (100 \<le> code \<and> code \<le> 199) \<and> code \<noteq> 204 \<and> code \<noteq> 304"

definition contentLength :: "header \<Rightarrow> nat option" where
  "contentLength h = (case ParseInt 64 (header_Get h ''Content-Length'') of
       Ok n \<Rightarrow> if 0 \<le> n then Some (nat n) else None
     | _ \<Rightarrow> None)"

text \<open>\<^verbatim>\<open>response.Write\<close>: writes the status line first when there is none; refuses a body the status does
  not allow and bytes beyond the declared length.\<close>

definition conn_Write :: "string \<Rightarrow> ResponseWriter \<Rightarrow> unit result \<times> ResponseWriter" where
  "conn_Write bs w0 =
     (let w = snd (conn_WriteHeader 200 w0) in
      if \<not> bodyAllowed (the (w_code w)) then (Err (Sentinel ''http: request method or response status code does not allow body''), w)
      else case contentLength (w_sent w) of
          Some n \<Rightarrow> if n < length (w_Body w) + length bs
                     then (Err (Sentinel ''http: wrote more than the declared Content-Length''), w)
                     else (Ok (), w\<lparr>w_Body := w_Body w @ bs\<rparr>)
        | None \<Rightarrow> (Ok (), w\<lparr>w_Body := w_Body w @ bs\<rparr>))"

definition Write :: "string \<Rightarrow> ('s srv, unit) eff" where
  "Write bs s = (case conn_Write bs (sv_w s) of (r, w) \<Rightarrow> (r, s\<lparr>sv_w := w\<rparr>))"

definition newWriter :: ResponseWriter where
  "newWriter = \<lparr>w_Header = Map.empty, w_code = None, w_sent = Map.empty, w_Body = [], w_wrapped = []\<rparr>"

lemma time_Now_eq [simp]: "time_Now s = (Ok (sv_clock s 0), s\<lparr>sv_clock := \<lambda>n. sv_clock s (Suc n)\<rparr>)"
  by (simp add: time_Now_def)

lemma on_state_eq: "on_state m s = (r, s') \<longleftrightarrow> (\<exists>st. m (sv_state s) = (r, st) \<and> s' = s\<lparr>sv_state := st\<rparr>)"
  by (auto simp: on_state_def split: prod.splits)

end
