(* ===== verification/Auth.thy ===== *)
theory Auth
  imports Go_Http
begin

text \<open>
  Package \<^verbatim>\<open>pkg/auth\<close>: roles, identity headers, and the \<^verbatim>\<open>Authenticator\<close> that issues and verifies HS256
  tokens. The JWT library is not part of the repository: its calls are the fields of a record \<open>Jwt\<close>,
  and \<open>jwt_lawful\<close> states the documented behaviour the package relies on.
\<close>

section \<open>Definitions\<close>

definition RoleUser :: string where "RoleUser = ''user''"
definition RoleAdmin :: string where "RoleAdmin = ''admin''"

definition HeaderSubject :: string where "HeaderSubject = ''X-Auth-Subject''"
definition HeaderRole :: string where "HeaderRole = ''X-Auth-Role''"

definition ErrInvalidCredentials :: error where
  "ErrInvalidCredentials = Sentinel ''invalid client credentials''"
definition ErrInvalidToken :: error where
  "ErrInvalidToken = Sentinel ''invalid or expired token''"

text \<open>The role and the registered claims the platform or the library's validator reads; dates are in
  nanoseconds since the epoch.\<close>

record Claims =
  cl_Role :: string
  cl_Issuer :: string
  cl_Subject :: string
  cl_IssuedAt :: "int option"
  cl_ExpiresAt :: "int option"
  cl_NotBefore :: "int option"

record Token =
  tk_AccessToken :: string
  tk_TokenType :: string
  tk_ExpiresIn :: int
  tk_Role :: string

record Authenticator =
  au_secret :: string
  au_issuer :: string
  au_expiry :: int

definition NewAuthenticator :: "string \<Rightarrow> string \<Rightarrow> int \<Rightarrow> Authenticator" where
  "NewAuthenticator secret issuer expiry = \<lparr>au_secret = secret, au_issuer = issuer, au_expiry = expiry\<rparr>"

text \<open>
  The library: \<open>jwt_SignedString alg claims key\<close>; \<open>jwt_ParseWithClaims token keyfunc issuer methods now\<close>,
  where the key function gets the algorithm the token names; \<open>jwt_isHMAC\<close>, the algorithms whose method
  is a \<^verbatim>\<open>SigningMethodHMAC\<close>; and \<open>jwt_carries alg key token claims\<close>, that the token names \<open>alg\<close>, has these
  claims as its payload, and has a signature that verifies with \<open>key\<close>.
\<close>

record Jwt =
  jwt_NewNumericDate :: "int \<Rightarrow> int"
  jwt_SignedString :: "string \<Rightarrow> Claims \<Rightarrow> string \<Rightarrow> string result"
  jwt_ParseWithClaims :: "string \<Rightarrow> (string \<Rightarrow> string result) \<Rightarrow> string \<Rightarrow> string list \<Rightarrow> int \<Rightarrow> (Claims \<times> bool) result"
  jwt_isHMAC :: "string \<Rightarrow> bool"
  jwt_carries :: "string \<Rightarrow> string \<Rightarrow> string \<Rightarrow> Claims \<Rightarrow> bool"

definition Issue :: "Jwt \<Rightarrow> Authenticator \<Rightarrow> string \<Rightarrow> string \<Rightarrow> ('s srv, Token) eff" where
  "Issue jwt a subject role =
     bnd time_Now (\<lambda>now.
       let claims = \<lparr>cl_Role = role, cl_Issuer = au_issuer a, cl_Subject = subject,
                     cl_IssuedAt = Some (jwt_NewNumericDate jwt (wall now)),
                     cl_ExpiresAt = Some (jwt_NewNumericDate jwt (wall now + au_expiry a)),
                     cl_NotBefore = None\<rparr>
       in bnd (wrap_eff ''sign token'' (lift (jwt_SignedString jwt ''HS256'' claims (au_secret a)))) (\<lambda>signed.
            ret \<lparr>tk_AccessToken = signed, tk_TokenType = ''Bearer'',
                 tk_ExpiresIn = truncate_float (Seconds (au_expiry a)), tk_Role = role\<rparr>))"

text \<open>The key function of \<^verbatim>\<open>Verify\<close>.\<close>

definition verifyKey :: "Jwt \<Rightarrow> Authenticator \<Rightarrow> string \<Rightarrow> string result" where
  "verifyKey jwt a alg =
     (if \<not> jwt_isHMAC jwt alg then Err (Opaque (''unexpected signing method: '' @ alg))
      else Ok (au_secret a))"

definition Verify :: "Jwt \<Rightarrow> Authenticator \<Rightarrow> string \<Rightarrow> ('s srv, Claims) eff" where
  "Verify jwt a tokenString =
     bnd time_Now (\<lambda>now.
       case jwt_ParseWithClaims jwt tokenString (verifyKey jwt a) (au_issuer a) [''HS256''] (wall now) of
         Ok (claims, valid) \<Rightarrow> if \<not> valid then raise ErrInvalidToken else ret claims
       | Err e \<Rightarrow> raise ErrInvalidToken
       | Panic p \<Rightarrow> lift (Panic p))"


section \<open>The library's contract\<close>

text \<open>The time conditions of the library's validator, with no leeway.\<close>

definition timely :: "Claims \<Rightarrow> int \<Rightarrow> bool" where
  "timely c now \<longleftrightarrow>
     (case cl_ExpiresAt c of None \<Rightarrow> True | Some e \<Rightarrow> now < e) \<and>
     (case cl_NotBefore c of None \<Rightarrow> True | Some b \<Rightarrow> b \<le> now)"

definition wholeSeconds :: "Claims \<Rightarrow> bool" where
  "wholeSeconds c \<longleftrightarrow> (\<forall>d \<in> set_option (cl_IssuedAt c) \<union> set_option (cl_ExpiresAt c) \<union> set_option (cl_NotBefore c).
     d mod Second = 0)"

definition jwt_lawful :: "Jwt \<Rightarrow> bool" where
  "jwt_lawful jwt \<longleftrightarrow>
     (\<forall>t. jwt_NewNumericDate jwt t = t div Second * Second) \<and>
     (\<forall>alg c key tok. wholeSeconds c \<longrightarrow> jwt_SignedString jwt alg c key = Ok tok \<longrightarrow> jwt_carries jwt alg key tok c) \<and>
     (\<forall>tok kf iss methods now c valid. iss \<noteq> [] \<longrightarrow> methods \<noteq> [] \<longrightarrow>
        jwt_ParseWithClaims jwt tok kf iss methods now = Ok (c, valid) \<longrightarrow>
        (\<exists>alg \<in> set methods. \<exists>key. kf alg = Ok key \<and> jwt_carries jwt alg key tok c) \<and> cl_Issuer c = iss \<and> timely c now) \<and>
     (\<forall>tok kf methods now c alg key. alg \<in> set methods \<longrightarrow> kf alg = Ok key \<longrightarrow> jwt_carries jwt alg key tok c \<longrightarrow>
        timely c now \<longrightarrow> jwt_ParseWithClaims jwt tok kf (cl_Issuer c) methods now = Ok (c, True)) \<and>
     jwt_isHMAC jwt ''HS256''"

lemma jwt_lawfulD:
  assumes "jwt_lawful jwt"
  shows "jwt_NewNumericDate jwt t = t div Second * Second"
    and "wholeSeconds c \<Longrightarrow> jwt_SignedString jwt alg c key = Ok tok \<Longrightarrow> jwt_carries jwt alg key tok c"
    and "iss \<noteq> [] \<Longrightarrow> methods \<noteq> [] \<Longrightarrow> jwt_ParseWithClaims jwt tok kf iss methods now = Ok (c, valid) \<Longrightarrow>
      (\<exists>alg \<in> set methods. \<exists>key. kf alg = Ok key \<and> jwt_carries jwt alg key tok c) \<and> cl_Issuer c = iss \<and> timely c now"
    and "alg \<in> set methods \<Longrightarrow> kf alg = Ok key \<Longrightarrow> jwt_carries jwt alg key tok c \<Longrightarrow> timely c now \<Longrightarrow>
      jwt_ParseWithClaims jwt tok kf (cl_Issuer c) methods now = Ok (c, True)"
    and "jwt_isHMAC jwt ''HS256''"
  using assms unfolding jwt_lawful_def by blast+

text \<open>What a successful \<^verbatim>\<open>Verify\<close> establishes.\<close>

lemma Verify_sound:
  assumes "jwt_lawful jwt" and "au_issuer a \<noteq> []" and "Verify jwt a tok s = (Ok c, s')"
  shows "jwt_carries jwt ''HS256'' (au_secret a) tok c \<and> cl_Issuer c = au_issuer a \<and>
    timely c (wall (sv_clock s 0)) \<and> s' = s\<lparr>sv_clock := \<lambda>n. sv_clock s (Suc n)\<rparr>"
proof -
  obtain valid where p: "jwt_ParseWithClaims jwt tok (verifyKey jwt a) (au_issuer a) [''HS256''] (wall (sv_clock s 0)) = Ok (c, valid)"
    and s': "s' = s\<lparr>sv_clock := \<lambda>n. sv_clock s (Suc n)\<rparr>"
    using assms(3) by (auto simp: Verify_def bnd_def raise_def ret_def lift_def split: result.splits prod.splits if_splits)
  from jwt_lawfulD(3) [OF assms(1,2) _ p] s' show ?thesis
    by (auto simp: verifyKey_def split: if_splits)
qed

lemma Verify_complete:
  assumes "jwt_lawful jwt" and "jwt_carries jwt ''HS256'' (au_secret a) tok c" and "cl_Issuer c = au_issuer a"
    and "timely c (wall (sv_clock s 0))"
  shows "Verify jwt a tok s = (Ok c, s\<lparr>sv_clock := \<lambda>n. sv_clock s (Suc n)\<rparr>)"
  using jwt_lawfulD(4) [OF assms(1) _ _ assms(2,4), of "[''HS256'']" "verifyKey jwt a"] jwt_lawfulD(5) [OF assms(1)] assms(3)
  by (simp add: Verify_def verifyKey_def ret_def)

lemma Verify_outcome:
  "\<exists>r. Verify jwt a tok s = (r, s\<lparr>sv_clock := \<lambda>n. sv_clock s (Suc n)\<rparr>)"
  by (auto simp: Verify_def raise_def ret_def lift_def split: result.splits prod.splits if_splits)

lemma Issue_Ok:
  assumes "jwt_lawful jwt" and "Issue jwt a subject role s = (Ok t, s')"
  shows "\<exists>c. jwt_carries jwt ''HS256'' (au_secret a) (tk_AccessToken t) c \<and> cl_Issuer c = au_issuer a \<and>
    cl_Subject c = subject \<and> cl_Role c = role \<and> cl_NotBefore c = None \<and>
    cl_ExpiresAt c = Some ((wall (sv_clock s 0) + au_expiry a) div Second * Second)"
proof -
  let ?c = "\<lparr>cl_Role = role, cl_Issuer = au_issuer a, cl_Subject = subject,
       cl_IssuedAt = Some (wall (sv_clock s 0) div Second * Second),
       cl_ExpiresAt = Some ((wall (sv_clock s 0) + au_expiry a) div Second * Second), cl_NotBefore = None\<rparr>"
  have "jwt_SignedString jwt ''HS256'' ?c (au_secret a) = Ok (tk_AccessToken t)"
    using assms(2) jwt_lawfulD(1) [OF assms(1)]
    by (auto simp: Issue_def Let_def bnd_eq_Ok ret_def wrap_eff_eq wrap_err_eq_Ok' lift_def)
  moreover have "wholeSeconds ?c" by (simp add: wholeSeconds_def)
  ultimately have "jwt_carries jwt ''HS256'' (au_secret a) (tk_AccessToken t) ?c"
    using jwt_lawfulD(2) [OF assms(1)] by blast
  then show ?thesis by (intro exI [of _ ?c]) simp
qed

end
