(* ===== verification/Httpx.thy ===== *)
theory Httpx
  imports Auth
begin

text \<open>
  Package \<^verbatim>\<open>pkg/httpx\<close>: JSON answers, the decoding of request bodies, and the middleware (request IDs,
  panic recovery, access log, role check) the services wrap around their handlers.
\<close>

section \<open>Definitions\<close>

text \<open>\<^verbatim>\<open>statusWriter.WriteHeader\<close> for every wrapper around the connection, then the connection's own.\<close>

definition WriteHeader :: "int \<Rightarrow> ('s srv, unit) eff" where
  "WriteHeader code s =
     (let w = sv_w s in
      case conn_WriteHeader code (w\<lparr>w_wrapped := map (\<lambda>_. code) (w_wrapped w)\<rparr>) of
        (r, w') \<Rightarrow> (r, s\<lparr>sv_w := w'\<rparr>))"

text \<open>\<^verbatim>\<open>json.NewEncoder(w).Encode(v)\<close>\<close>

definition Encode :: "any \<Rightarrow> ('s srv, unit) eff" where
  "Encode v = (case marshal v of
       None \<Rightarrow> raise (Opaque ''json: error calling MarshalJSON'')
     | Some t \<Rightarrow> Write (t @ [CHR 0x0A]))"

definition JSON :: "int \<Rightarrow> any \<Rightarrow> ('s srv, unit) eff" where
  "JSON code v =
     bnd (header_edit (header_Set ''Content-Type'' ''application/json'')) (\<lambda>_.
     bnd (WriteHeader code) (\<lambda>_.
     ignore_err (Encode v)))"

definition Error :: "int \<Rightarrow> string \<Rightarrow> ('s srv, unit) eff" where
  "Error code msg = JSON code (AMap [(''error'', AString msg)])"

text \<open>Storing a JSON value into a struct whose fields are all strings (an error keeps none of it):
  \<^verbatim>\<open>null\<close> leaves a field or the struct as it is, later members overwrite earlier ones, and unknown
  names are refused.\<close>

fun storeMembers :: "string list \<Rightarrow> (string \<times> json) list \<Rightarrow> (string \<Rightarrow> string) \<Rightarrow> (string \<Rightarrow> string) option" where
  "storeMembers names [] v = Some v"
| "storeMembers names ((k, j) # ms) v =
     (case findField names k of
        None \<Rightarrow> None
      | Some f \<Rightarrow>
          (case j of
             JNull \<Rightarrow> storeMembers names ms v
           | JStr t \<Rightarrow> storeMembers names ms (v(f := t))
           | _ \<Rightarrow> None))"

fun storeStruct :: "string list \<Rightarrow> json \<Rightarrow> (string \<Rightarrow> string) option" where
  "storeStruct names JNull = Some (\<lambda>_. [])"
| "storeStruct names (JObj ms) = storeMembers names ms (\<lambda>_. [])"
| "storeStruct names (JBool b) = None"
| "storeStruct names (JNum t) = None"
| "storeStruct names (JStr t) = None"
| "storeStruct names (JArr vs) = None"

fun isContainer :: "json \<Rightarrow> bool" where
  "isContainer (JObj ms) = True"
| "isContainer (JArr vs) = True"
| "isContainer j = False"

definition maxBody :: nat where "maxBody = 2 ^ 20"

text \<open>The decoder sees the first \<open>maxBody\<close> bytes and stops at the end of the first value; it needs one
  more byte, or the end of the body, to know that a value that is no object or array has ended.\<close>

definition DecodeJSON :: "string list \<Rightarrow> Request \<Rightarrow> (string \<Rightarrow> string) result" where
  "DecodeJSON names r =
     (case parsePrefix (take maxBody (rq_Body r)) of
        None \<Rightarrow> Err (Opaque ''json: syntax error'')
      | Some (j, rest) \<Rightarrow>
          if rest = [] \<and> maxBody < length (rq_Body r) \<and> \<not> isContainer j
          then Err (Opaque ''http: request body too large'')
          else (case storeStruct names j of
             None \<Rightarrow> Err (Opaque ''json: cannot unmarshal'')
           | Some v \<Rightarrow> Ok v))"

definition hex_EncodeToString :: "u8 list \<Rightarrow> string" where
  "hex_EncodeToString bs = concat (map (\<lambda>b. [hexDigit (unat b div 16), hexDigit (unat b mod 16)]) bs)"

definition RequestID :: "'s handler \<Rightarrow> 's handler" where
  "RequestID next r =
     bnd (let id = header_Get (rq_Header r) ''X-Request-ID'' in
          if id = [] then bnd (rand_Read 8) (\<lambda>b. ret (hex_EncodeToString b)) else ret id) (\<lambda>id.
     bnd (header_edit (header_Set ''X-Request-ID'' id)) (\<lambda>_.
     next (r\<lparr>rq_requestID := Some id\<rparr>)))"

definition RequestIDFrom :: "Request \<Rightarrow> string" where
  "RequestIDFrom r = (case rq_requestID r of Some i \<Rightarrow> i | None \<Rightarrow> [])"

definition Recovery :: "'s handler \<Rightarrow> 's handler" where
  "Recovery next r s =
     (case next r s of
        (Panic p, s') \<Rightarrow>
          bnd (log_write ''ERROR'' ''panic recovered''
                 [(''panic'', AString p), (''request_id'', AString (RequestIDFrom r))]) (\<lambda>_.
            Error 500 ''internal error'') s'
      | (res, s') \<Rightarrow> (res, s'))"

definition push_status :: "'s srv \<Rightarrow> 's srv" where
  "push_status s = s\<lparr>sv_w := (sv_w s)\<lparr>w_wrapped := 200 # w_wrapped (sv_w s)\<rparr>\<rparr>"

definition pop_status :: "'s srv \<Rightarrow> 's srv" where
  "pop_status s = s\<lparr>sv_w := (sv_w s)\<lparr>w_wrapped := tl (w_wrapped (sv_w s))\<rparr>\<rparr>"

text \<open>The \<^verbatim>\<open>statusWriter\<close> lives for the inner call only.\<close>

definition Logger :: "'s handler \<Rightarrow> 's handler" where
  "Logger next r =
     bnd time_Now (\<lambda>start s.
       case next r (push_status s) of
         (Ok _, s') \<Rightarrow>
           bnd time_Now (\<lambda>stop.
             log_write ''INFO'' ''request''
               [(''method'', AString (rq_Method r)), (''path'', AString (u_Path (rq_URL r))),
                (''status'', AInt (hd (w_wrapped (sv_w s')))), (''duration'', AInt (time_Sub stop start)),
                (''request_id'', AString (RequestIDFrom r))]) (pop_status s')
       | (res, s') \<Rightarrow> (res, pop_status s'))"

definition RequireRole :: "string \<Rightarrow> 's handler \<Rightarrow> 's handler" where
  "RequireRole role next r =
     (if header_Get (rq_Header r) HeaderRole \<noteq> role then Error 403 ''insufficient role''
      else next r)"

fun Chain :: "'s handler \<Rightarrow> ('s handler \<Rightarrow> 's handler) list \<Rightarrow> 's handler" where
  "Chain h [] = h"
| "Chain h (m # mw) = m (Chain h mw)"



section \<open>Laws\<close>

subsection \<open>Calls that leave the service's objects alone\<close>

named_theorems keeps \<open>calls that keep the state of the service\<close>

definition keeps_state :: "('s srv, 'a) eff \<Rightarrow> bool" where
  "keeps_state m \<longleftrightarrow> (\<forall>s. sv_state (snd (m s)) = sv_state s)"

lemma keeps_stateD: "keeps_state m \<Longrightarrow> m s = (r, s') \<Longrightarrow> sv_state s' = sv_state s"
  by (metis keeps_state_def snd_conv)

lemma keeps_ret [keeps]: "keeps_state (ret x)"
  by (simp add: keeps_state_def ret_def)

lemma keeps_raise [keeps]: "keeps_state (raise e)"
  by (simp add: keeps_state_def raise_def)

lemma keeps_lift [keeps]: "keeps_state (lift r)"
  by (simp add: keeps_state_def lift_def)

lemma keeps_bnd [keeps]: "keeps_state m \<Longrightarrow> (\<And>x. keeps_state (f x)) \<Longrightarrow> keeps_state (bnd m f)"
  by (auto simp: keeps_state_def bnd_def split: prod.splits result.splits) (metis snd_conv)+

lemma keeps_on_err [keeps]:
  "keeps_state m \<Longrightarrow> (\<And>e. keeps_state (h e)) \<Longrightarrow> (\<And>x. keeps_state (f x)) \<Longrightarrow> keeps_state (on_err m h f)"
  by (auto simp: keeps_state_def on_err_def split: prod.splits result.splits) (metis snd_conv)+

lemma keeps_ignore_err [keeps]: "keeps_state m \<Longrightarrow> keeps_state (ignore_err m)"
  by (auto simp: keeps_state_def ignore_err_def split: prod.splits result.splits) (metis snd_conv)+

lemma keeps_wrap_eff [keeps]: "keeps_state m \<Longrightarrow> keeps_state (wrap_eff p m)"
  by (auto simp: keeps_state_def wrap_eff_def split: prod.splits) (metis snd_conv)

lemma keeps_basic [keeps]:
  "keeps_state time_Now" "keeps_state (rand_Read k)" "keeps_state (log_write l m a)" "keeps_state (header_edit f)"
  "keeps_state (Write bs)" "keeps_state (WriteHeader c)"
  by (auto simp: keeps_state_def time_Now_def rand_Read_def log_write_def header_edit_def Write_def WriteHeader_def Let_def
      split: prod.splits)

lemma keeps_JSON [keeps]: "keeps_state (JSON c v)" "keeps_state (Error c m)"
  unfolding Error_def JSON_def Encode_def by (auto split: option.splits intro!: keeps)

lemma keeps_Verify [keeps]: "keeps_state (Verify jwt a tok)"
  unfolding Verify_def by (auto split: result.splits prod.splits intro!: keeps)

lemma keeps_Issue [keeps]: "keeps_state (Issue jwt a sub role)"
  unfolding Issue_def Let_def by (auto intro!: keeps)


subsection \<open>Answers\<close>

text \<open>A response on which nothing has been written.\<close>

definition fresh :: "'s srv \<Rightarrow> bool" where
  "fresh s \<longleftrightarrow> w_code (sv_w s) = None \<and> w_Body (sv_w s) = [] \<and> w_Header (sv_w s) ''Content-Length'' = None"

definition jsonHeader :: "header \<Rightarrow> header" where
  "jsonHeader h = h(''Content-Type'' \<mapsto> [''application/json''])"

text \<open>The response after \<^verbatim>\<open>JSON\<close>.\<close>

definition answered :: "int \<Rightarrow> any \<Rightarrow> ResponseWriter \<Rightarrow> ResponseWriter" where
  "answered code v w =
     w\<lparr>w_Header := jsonHeader (w_Header w), w_code := Some code, w_sent := jsonHeader (w_Header w),
       w_Body := (case marshal v of None \<Rightarrow> [] | Some t \<Rightarrow> t @ [CHR 0x0A]),
       w_wrapped := map (\<lambda>_. code) (w_wrapped w)\<rparr>"

lemma canonical_json [simp]:
  "CanonicalHeaderKey ''Content-Type'' = ''Content-Type''" "CanonicalHeaderKey ''Content-Length'' = ''Content-Length''"
  by code_simp+

lemma contentLength_None [simp]: "h ''Content-Length'' = None \<Longrightarrow> contentLength h = None"
  by (simp add: contentLength_def header_Get_def atou_def)

lemma JSON_fresh:
  assumes "fresh s" and "200 \<le> code" "code \<le> 999" "code \<noteq> 204" "code \<noteq> 304"
  shows "JSON code v s = (Ok (), s\<lparr>sv_w := answered code v (sv_w s)\<rparr>)"
  using assms
  by (cases "marshal v")
     (auto simp: JSON_def fresh_def header_edit_def WriteHeader_def Let_def conn_WriteHeader_def Encode_def ignore_err_def
      raise_def Write_def conn_Write_def bodyAllowed_def answered_def jsonHeader_def header_Set_def)

lemma Error_fresh:
  assumes "fresh s" and "200 \<le> code" "code \<le> 999" "code \<noteq> 204" "code \<noteq> 304"
  shows "Error code msg s = (Ok (), s\<lparr>sv_w := answered code (AMap [(''error'', AString msg)]) (sv_w s)\<rparr>)"
  unfolding Error_def by (rule JSON_fresh [OF assms])

text \<open>\<^verbatim>\<open>JSON\<close> with an ordinary status never fails.\<close>

lemma WriteHeader_ok: "100 \<le> code \<Longrightarrow> code \<le> 999 \<Longrightarrow> fst (WriteHeader code s) = Ok ()"
  by (auto simp: WriteHeader_def Let_def conn_WriteHeader_def)

lemma Write_no_panic: "fst (Write bs s) \<noteq> Panic p"
  by (auto simp: Write_def conn_Write_def Let_def split: option.splits)

lemma JSON_ok:
  assumes "100 \<le> code" "code \<le> 999"
  shows "fst (JSON code v s) = Ok ()"
proof -
  have enc: "fst (ignore_err (Encode v) t) = Ok ()" for t :: "'a srv"
  proof (cases "marshal v")
    case (Some x)
    then show ?thesis
      using Write_no_panic [of "x @ [CHR 0x0A]" t]
      by (cases "Write (x @ [CHR 0x0A]) t"; cases "fst (Write (x @ [CHR 0x0A]) t)") (auto simp: Encode_def ignore_err_def)
  qed (simp add: Encode_def ignore_err_def raise_def)
  obtain s1 where h: "header_edit (header_Set ''Content-Type'' ''application/json'') s = (Ok (), s1)"
    by (simp add: header_edit_def)
  obtain s2 where w: "WriteHeader code s1 = (Ok (), s2)"
    using WriteHeader_ok [OF assms, of s1] by (cases "WriteHeader code s1") auto
  show ?thesis by (simp add: JSON_def h w enc)
qed

lemma Error_ok: "100 \<le> code \<Longrightarrow> code \<le> 999 \<Longrightarrow> fst (Error code m s) = Ok ()"
  unfolding Error_def by (rule JSON_ok)

end
