(* ===== verification/Go_Mux.thy ===== *)
theory Go_Mux
  imports Httpx
begin

text \<open>
  \<^verbatim>\<open>http.ServeMux\<close>: patterns with an optional method, literal segments, single-segment wildcards and a
  trailing slash; the precedence of the routing tree (literal before wildcard before trailing slash,
  patterns with a method before patterns without); path cleaning and trailing-slash redirects; the
  answers for no match and for a wrong method. The redirect status, which depends on the Go release, is an
  argument.
\<close>

datatype seg = Lit string | Wild string | Multi

record 's route =
  ro_method :: string
  ro_segs :: "seg list"
  ro_handler :: "'s handler"

text \<open>\<^verbatim>\<open>firstSegment\<close> iterated: a trailing slash is a last segment of its own.\<close>

definition pathSegments :: "string \<Rightarrow> string list" where
  "pathSegments p =
     (case p of
        [] \<Rightarrow> []
      | c # cs \<Rightarrow>
          (let parts = splitOn (CHR ''/'') cs in
           map pathUnescape (butlast parts) @ (if last parts = [] then [''/''] else [pathUnescape (last parts)])))"

text \<open>The routing tree as the list of the pattern suffixes that remain below a node.\<close>

definition litTails :: "string \<Rightarrow> (seg list \<times> 'r) list \<Rightarrow> (seg list \<times> 'r) list" where
  "litTails x ps = List.map_filter (\<lambda>(sg, r). case sg of
       Lit y # sg' \<Rightarrow> if x = y then Some (sg', r) else None | _ \<Rightarrow> None) ps"

definition wildTails :: "(seg list \<times> 'r) list \<Rightarrow> (seg list \<times> 'r) list" where
  "wildTails ps = List.map_filter (\<lambda>(sg, r). case sg of
       Wild y # sg' \<Rightarrow> Some (sg', r) | _ \<Rightarrow> None) ps"

definition ending :: "seg list \<Rightarrow> (seg list \<times> 'r) list \<Rightarrow> 'r option" where
  "ending e ps = map_option snd (List.find (\<lambda>(sg, r). sg = e) ps)"

fun matchPath :: "(seg list \<times> 'r) list \<Rightarrow> string list \<Rightarrow> ('r \<times> string list) option" where
  "matchPath ps [] = map_option (\<lambda>r. (r, [])) (ending [] ps)"
| "matchPath ps (x # xs) =
     (case matchPath (litTails x ps) xs of
        Some m \<Rightarrow> Some m
      | None \<Rightarrow>
          (case (if x \<noteq> ''/'' then matchPath (wildTails ps) xs else None) of
             Some (r, ms) \<Rightarrow> Some (r, x # ms)
           | None \<Rightarrow> map_option (\<lambda>r. (r, [])) (ending [Multi] ps)))"

definition withMethod :: "string \<Rightarrow> 's route list \<Rightarrow> (seg list \<times> 's route) list" where
  "withMethod m rs = map (\<lambda>r. (ro_segs r, r)) (filter (\<lambda>r. ro_method r = m) rs)"

definition mux_match :: "'s route list \<Rightarrow> string \<Rightarrow> string \<Rightarrow> ('s route \<times> string list) option" where
  "mux_match rs method path =
     (let xs = pathSegments path in
      case (if method = [] then None else matchPath (withMethod method rs) xs) of
        Some m \<Rightarrow> Some m
      | None \<Rightarrow>
          (case (if method = ''HEAD'' then matchPath (withMethod ''GET'' rs) xs else None) of
             Some m \<Rightarrow> Some m
           | None \<Rightarrow> matchPath (withMethod [] rs) xs))"

definition exactMatch :: "('s route \<times> string list) option \<Rightarrow> string \<Rightarrow> bool" where
  "exactMatch m path =
     (case m of
        None \<Rightarrow> False
      | Some (r, _) \<Rightarrow>
          if ro_segs r = [] \<or> last (ro_segs r) \<noteq> Multi then True
          else (path = [] \<or> last path = CHR ''/'') \<and>
            length (ro_segs r) = length (filter (\<lambda>c. c = CHR ''/'') path))"

fun cleanSegs :: "string list \<Rightarrow> string list \<Rightarrow> string list" where
  "cleanSegs acc [] = rev acc"
| "cleanSegs acc (x # xs) =
     (if x = [] \<or> x = ''.'' then cleanSegs acc xs
      else if x = ''..'' then cleanSegs (tl acc) xs
      else cleanSegs (x # acc) xs)"

definition cleanPath :: "string \<Rightarrow> string" where
  "cleanPath p0 =
     (if p0 = [] then ''/''
      else let p = (if hd p0 = CHR ''/'' then p0 else CHR ''/'' # p0);
               np = CHR ''/'' # sep_by ''/'' (cleanSegs [] (splitOn (CHR ''/'') p))
           in if last p = CHR ''/'' \<and> np \<noteq> ''/'' then np @ ''/'' else np)"

text \<open>\<^verbatim>\<open>matchOrRedirect\<close> where redirecting is asked for: a match, or that the path wants a trailing slash.\<close>

definition wantsSlash :: "'s route list \<Rightarrow> string \<Rightarrow> string \<Rightarrow> bool" where
  "wantsSlash rs method path \<longleftrightarrow>
     \<not> exactMatch (mux_match rs method path) path \<and> path \<noteq> [] \<and> last path \<noteq> CHR ''/'' \<and>
     exactMatch (mux_match rs method (path @ ''/'')) (path @ ''/'')"

definition methodsAt :: "'s route list \<Rightarrow> string \<Rightarrow> string list" where
  "methodsAt rs path =
     (let ms = filter (\<lambda>m. matchPath (withMethod m rs) (pathSegments path) \<noteq> None)
                 (filter (\<lambda>m. m \<noteq> []) (map ro_method rs))
      in if ''GET'' \<in> set ms then ''HEAD'' # ms else ms)"

definition matchingMethods :: "'s route list \<Rightarrow> string \<Rightarrow> string list" where
  "matchingMethods rs path =
     (let ms = methodsAt rs path @ (if path \<noteq> [] \<and> last path = CHR ''/'' then [] else methodsAt rs (path @ ''/''))
      in map fst (sortKeys (map (\<lambda>m. (m, ())) (remdups ms))))"

datatype 's routed =
    Handle "'s route" "string list"
  | Redirect URL
  | NotAllowed "string list"
  | NotFound

definition findHandler :: "'s route list \<Rightarrow> string \<Rightarrow> URL \<Rightarrow> 's routed" where
  "findHandler rs method u =
     (let escaped = EscapedPath u;
          path = (if method = ''CONNECT'' then escaped else cleanPath escaped);
          here = \<lparr>u_Scheme = [], u_Host = [], u_Path = [], u_RawPath = [], u_RawQuery = u_RawQuery u\<rparr>
      in if wantsSlash rs method path
         then Redirect (here\<lparr>u_Path := cleanPath (u_Path u) @ ''/''\<rparr>)
         else if path \<noteq> escaped then Redirect (here\<lparr>u_Path := path\<rparr>)
         else case mux_match rs method path of
             Some (ro, ms) \<Rightarrow> Handle ro ms
           | None \<Rightarrow> (case matchingMethods rs path of [] \<Rightarrow> NotFound | ms \<Rightarrow> NotAllowed ms))"

definition wildNames :: "seg list \<Rightarrow> string list" where
  "wildNames sg = List.map_filter (\<lambda>x. case x of Wild n \<Rightarrow> Some n | _ \<Rightarrow> None) sg"

text \<open>\<^verbatim>\<open>http.Error\<close>\<close>

definition http_Error :: "string \<Rightarrow> int \<Rightarrow> ('s srv, unit) eff" where
  "http_Error msg code =
     bnd (header_edit (header_Set ''X-Content-Type-Options'' ''nosniff'' \<circ>
            header_Set ''Content-Type'' ''text/plain; charset=utf-8'' \<circ> header_Del ''Content-Length'')) (\<lambda>_.
     bnd (WriteHeader code) (\<lambda>_.
     ignore_err (Write (msg @ [CHR 0x0A]))))"

definition htmlEscape :: "string \<Rightarrow> string" where
  "htmlEscape s = concat (map (\<lambda>c.
     if c = CHR ''&'' then ''&amp;'' else if c = CHR ''<'' then ''&lt;'' else if c = CHR ''>'' then ''&gt;''
     else if byte c = 34 then ''&#34;'' else if byte c = 39 then ''&#39;'' else [c]) s)"

definition redirectText :: "int \<Rightarrow> string" where
  "redirectText code = (if code = 301 then ''Moved Permanently'' else ''Temporary Redirect'')"

text \<open>\<^verbatim>\<open>http.Redirect\<close> to a rooted path.\<close>

definition redirectTo :: "int \<Rightarrow> URL \<Rightarrow> 's handler" where
  "redirectTo code u r =
     (let target = EscapedPath u @ (if u_RawQuery u = [] then [] else ''?'' @ u_RawQuery u);
          getOrHead = rq_Method r \<in> {''GET'', ''HEAD''}
      in bnd (header_edit (header_Set ''Location'' target)) (\<lambda>_.
         bnd (\<lambda>s. header_edit (if w_Header (sv_w s) ''Content-Type'' = None \<and> getOrHead
                then header_Set ''Content-Type'' ''text/html; charset=utf-8'' else id) s) (\<lambda>_.
         bnd (WriteHeader code) (\<lambda>_.
         if rq_Method r = ''GET''
         then ignore_err (Write (''<a href='' @ [CHR 0x22] @ htmlEscape target @ [CHR 0x22] @ ''>'' @ redirectText code @
                ''</a>.'' @ [CHR 0x0A, CHR 0x0A]))
         else ret ()))))"

definition ServeMux :: "int \<Rightarrow> 's route list \<Rightarrow> 's handler" where
  "ServeMux redirectCode rs r =
     (case findHandler rs (rq_Method r) (rq_URL r) of
        Handle ro ms \<Rightarrow> ro_handler ro (r\<lparr>rq_pathValues := zip (wildNames (ro_segs ro)) ms\<rparr>)
      | Redirect u \<Rightarrow> redirectTo redirectCode u r
      | NotAllowed ms \<Rightarrow>
          bnd (header_edit (header_Set ''Allow'' (sep_by '', '' ms))) (\<lambda>_. http_Error ''Method Not Allowed'' 405)
      | NotFound \<Rightarrow> http_Error ''404 page not found'' 404)"

text \<open>The health endpoint every service registers.\<close>

definition healthz :: "'s handler" where
  "healthz r = JSON 200 (AMap [(''status'', AString ''ok'')])"


section \<open>Laws\<close>

text \<open>The router only runs registered handlers.\<close>

lemma matchPath_in: "matchPath ps xs = Some (r, ms) \<Longrightarrow> r \<in> snd ` set ps"
proof (induction ps xs arbitrary: ms rule: matchPath.induct)
  case (1 ps)
  then show ?case by (auto simp: ending_def find_Some_iff set_conv_nth image_iff)
next
  case (2 ps x xs)
  have lit: "snd ` set (litTails x ps) \<subseteq> snd ` set ps"
    by (force simp: litTails_def List.map_filter_def split: list.splits seg.splits if_splits)
  have wild: "snd ` set (wildTails ps) \<subseteq> snd ` set ps"
    by (force simp: wildTails_def List.map_filter_def split: list.splits seg.splits if_splits)
  have multi: "ending [Multi] ps = Some r \<Longrightarrow> r \<in> snd ` set ps"
    by (auto simp: ending_def find_Some_iff image_iff) (metis nth_mem snd_conv)
  show ?case
    using 2 lit wild multi by (auto split: option.splits if_splits)
qed

lemma mux_match_in: "mux_match rs m p = Some (ro, ms) \<Longrightarrow> ro \<in> set rs"
  by (auto simp: mux_match_def Let_def withMethod_def dest!: matchPath_in split: option.splits if_splits)

lemma findHandler_in: "findHandler rs m u = Handle ro ms \<Longrightarrow> ro \<in> set rs"
  by (auto simp: findHandler_def Let_def dest!: mux_match_in split: option.splits if_splits list.splits)

lemma keeps_http_Error [keeps]: "keeps_state (http_Error m c)"
  unfolding http_Error_def by (auto intro!: keeps)

lemma keeps_redirectTo [keeps]: "keeps_state (redirectTo code u r)"
proof -
  have "keeps_state (\<lambda>s. header_edit (f s) s)" for f :: "'a srv \<Rightarrow> header \<Rightarrow> header"
    by (simp add: keeps_state_def header_edit_def)
  then show ?thesis unfolding redirectTo_def Let_def by (auto intro!: keeps)
qed

text \<open>Outside the handlers the router changes nothing.\<close>

lemma ServeMux_cases:
  assumes "ServeMux code rs r s = (res, s')"
  shows "sv_state s' = sv_state s \<or>
    (\<exists>ro \<in> set rs. \<exists>ms. ro_handler ro (r\<lparr>rq_pathValues := ms\<rparr>) s = (res, s'))"
proof (cases "findHandler rs (rq_Method r) (rq_URL r)")
  case (Handle ro ms)
  then show ?thesis using assms findHandler_in [OF Handle] by (auto simp: ServeMux_def)
next
  case (Redirect u)
  then have "redirectTo code u r s = (res, s')" using assms by (simp add: ServeMux_def)
  from keeps_stateD [OF keeps_redirectTo this] show ?thesis by simp
next
  case (NotAllowed ms)
  have "keeps_state (bnd (header_edit (header_Set ''Allow'' (sep_by '', '' ms))) (\<lambda>_. http_Error ''Method Not Allowed'' 405))"
    by (intro keeps)
  from keeps_stateD [OF this] show ?thesis using assms NotAllowed by (auto simp: ServeMux_def)
next
  case NotFound
  then have "http_Error ''404 page not found'' 404 s = (res, s')" using assms by (simp add: ServeMux_def)
  from keeps_stateD [OF keeps_http_Error this] show ?thesis by simp
qed

lemma keeps_healthz [keeps]: "keeps_state (healthz r)"
  unfolding healthz_def by (intro keeps)

text \<open>Routes are told apart by method and segments.\<close>

definition routesTo :: "'s route list \<Rightarrow> string \<Rightarrow> string \<Rightarrow> string \<Rightarrow> seg list \<Rightarrow> string list \<Rightarrow> bool" where
  "routesTo rs method path m segs ms =
     (case findHandler rs method \<lparr>u_Scheme = [], u_Host = [], u_Path = path, u_RawPath = [], u_RawQuery = []\<rparr> of
        Handle ro ms' \<Rightarrow> ro_method ro = m \<and> ro_segs ro = segs \<and> ms' = ms
      | _ \<Rightarrow> False)"

lemma routesTo_Handle:
  assumes "routesTo rs method path m segs ms"
  obtains ro where "findHandler rs method \<lparr>u_Scheme = [], u_Host = [], u_Path = path, u_RawPath = [], u_RawQuery = []\<rparr> = Handle ro ms"
    and "ro \<in> set rs" and "ro_method ro = m" and "ro_segs ro = segs"
  using assms findHandler_in by (fastforce simp: routesTo_def split: routed.splits)


text \<open>The query plays no part in the choice of a handler.\<close>

lemma findHandler_query:
  "findHandler rs method (u\<lparr>u_RawQuery := q\<rparr>) = Handle ro ms \<longleftrightarrow> findHandler rs method u = Handle ro ms"
proof -
  have "EscapedPath (u\<lparr>u_RawQuery := q\<rparr>) = EscapedPath u" by (simp add: EscapedPath_def)
  then show ?thesis by (auto simp: findHandler_def Let_def split: option.splits list.splits)
qed

lemma ServeMux_route:
  assumes "routesTo rs method path m segs ms"
    and "\<And>ro. ro \<in> set rs \<Longrightarrow> ro_method ro = m \<Longrightarrow> ro_segs ro = segs \<Longrightarrow> ro_handler ro = h"
    and "rq_Method r = method"
    and "rq_URL r = \<lparr>u_Scheme = [], u_Host = [], u_Path = path, u_RawPath = [], u_RawQuery = q\<rparr>"
  shows "ServeMux code rs r = h (r\<lparr>rq_pathValues := zip (wildNames segs) ms\<rparr>)"
proof -
  obtain ro where ro: "findHandler rs method \<lparr>u_Scheme = [], u_Host = [], u_Path = path, u_RawPath = [], u_RawQuery = []\<rparr> = Handle ro ms"
    and "ro \<in> set rs" "ro_method ro = m" "ro_segs ro = segs"
    using routesTo_Handle [OF assms(1)] by metis
  moreover have "rq_URL r = \<lparr>u_Scheme = [], u_Host = [], u_Path = path, u_RawPath = [], u_RawQuery = []\<rparr>\<lparr>u_RawQuery := q\<rparr>"
    by (simp add: assms(4))
  then have "findHandler rs method (rq_URL r) = Handle ro ms" using ro by (simp only: findHandler_query)
  ultimately show ?thesis using assms(2,3) by (simp add: ServeMux_def)
qed

end
