(* ===== verification/Go_Mux_Laws.thy ===== *)
theory Go_Mux_Laws
  imports Go_Mux
begin

text \<open>
  Routing of paths with arbitrary segments: a path of plain segments is neither escaped, nor cleaned, nor
  redirected, and goes to the route its segments match.
\<close>

text \<open>A segment of unreserved characters that is no dot segment.\<close>

definition plainSegment :: "string \<Rightarrow> bool" where
  "plainSegment x \<longleftrightarrow> x \<noteq> [] \<and> list_all isUnreserved x \<and> x \<noteq> ''.'' \<and> x \<noteq> ''..''"

definition pathOf :: "string list \<Rightarrow> string" where
  "pathOf xs = concat (map (Cons (CHR ''/'')) xs)"

lemma isUnreserved_not: "\<not> isUnreserved (CHR ''/'')" "\<not> isUnreserved (CHR ''%'')"
  by code_simp+

lemma plainSegment_chars: "plainSegment x \<Longrightarrow> CHR ''/'' \<notin> set x" "plainSegment x \<Longrightarrow> CHR ''%'' \<notin> set x"
  using isUnreserved_not by (auto simp: plainSegment_def list_all_iff)

lemma splitOn_nonempty: "splitOn sep s \<noteq> []"
  by (induction s) (auto split: list.splits)

lemma splitOn_append: "sep \<notin> set x \<Longrightarrow> splitOn sep (x @ sep # s) = x # splitOn sep s"
  by (induction x) (auto split: list.splits)

lemma splitOn_single: "sep \<notin> set x \<Longrightarrow> splitOn sep x = [x]"
  by (induction x) auto

lemma splitOn_pathOf: "list_all plainSegment xs \<Longrightarrow> xs \<noteq> [] \<Longrightarrow> splitOn (CHR ''/'') (tl (pathOf xs)) = xs"
proof (induction xs)
  case (Cons x xs)
  show ?case
  proof (cases xs)
    case Nil
    then show ?thesis using Cons.prems by (simp add: pathOf_def splitOn_single plainSegment_chars)
  next
    case (Cons y ys)
    then have "tl (pathOf (x # xs)) = x @ CHR ''/'' # tl (pathOf xs)" by (simp add: pathOf_def)
    then show ?thesis using Cons.IH Cons.prems Cons by (simp add: splitOn_append plainSegment_chars)
  qed
qed simp

lemma pathOf_Cons: "xs \<noteq> [] \<Longrightarrow> pathOf xs = CHR ''/'' # tl (pathOf xs)"
  by (cases xs) (simp_all add: pathOf_def)

lemma escapePath_plain: "list_all (\<lambda>c. isUnreserved c \<or> c = CHR ''/'') s \<Longrightarrow> escapePath s = s"
  by (induction s) (auto simp: escapePath_def)

lemma pathOf_chars: "list_all plainSegment xs \<Longrightarrow> list_all (\<lambda>c. isUnreserved c \<or> c = CHR ''/'') (pathOf xs)"
  by (induction xs) (auto simp: pathOf_def plainSegment_def list_all_iff)

lemma cleanSegs_plain: "list_all plainSegment xs \<Longrightarrow> cleanSegs acc xs = rev acc @ xs"
  by (induction xs arbitrary: acc) (auto simp: plainSegment_def)

lemma sep_by_pathOf: "xs \<noteq> [] \<Longrightarrow> CHR ''/'' # sep_by ''/'' xs = pathOf xs"
proof (induction xs)
  case (Cons x xs)
  then show ?case by (cases xs) (simp_all add: pathOf_def)
qed simp

lemma last_pathOf: "list_all plainSegment xs \<Longrightarrow> xs \<noteq> [] \<Longrightarrow> last (pathOf xs) \<noteq> CHR ''/''"
proof -
  assume xs: "list_all plainSegment xs" "xs \<noteq> []"
  then have "plainSegment (last xs)" by (simp add: list_all_iff)
  then have "last xs \<noteq> []" "CHR ''/'' \<notin> set (last xs)" by (simp_all add: plainSegment_chars) (simp add: plainSegment_def)
  moreover have "pathOf xs = pathOf (butlast xs) @ CHR ''/'' # last xs"
    using xs(2) by (metis append_butlast_last_id concat.simps concat_append list.simps(8,9) map_append pathOf_def append_Nil2)
  ultimately show ?thesis using last_in_set [of "last xs"] by (metis last.simps last_appendR list.distinct(1))
qed

lemma unescape_plain: "CHR ''%'' \<notin> set x \<Longrightarrow> unescape False x = Some x"
  by (induction x) auto

lemma pathSegments_pathOf:
  assumes "list_all plainSegment xs" and "xs \<noteq> []"
  shows "pathSegments (pathOf xs) = xs"
proof -
  have plain: "pathUnescape x = x \<and> x \<noteq> []" if "x \<in> set xs" for x
  proof -
    have "plainSegment x" using assms(1) that by (simp add: list_all_iff)
    then show ?thesis by (auto simp: pathUnescape_def unescape_plain plainSegment_chars) (simp add: plainSegment_def)
  qed
  have "pathSegments (pathOf xs) = map pathUnescape (butlast xs) @ (if last xs = [] then [''/''] else [pathUnescape (last xs)])"
    by (subst pathOf_Cons [OF assms(2)]) (simp add: pathSegments_def Let_def splitOn_pathOf [OF assms])
  also have "\<dots> = butlast xs @ [last xs]"
    using plain assms(2) by (simp add: map_idI in_set_butlastD)
  finally show ?thesis using assms(2) by simp
qed

lemma cleanPath_pathOf:
  assumes "list_all plainSegment xs" and "xs \<noteq> []"
  shows "cleanPath (pathOf xs) = pathOf xs"
proof -
  have "splitOn (CHR ''/'') (pathOf xs) = [] # xs"
    by (subst pathOf_Cons [OF assms(2)]) (simp add: splitOn_pathOf [OF assms])
  moreover have "hd (pathOf xs) = CHR ''/''" "pathOf xs \<noteq> []" using pathOf_Cons [OF assms(2)] by (metis list.sel(1), auto)
  ultimately show ?thesis
    using assms last_pathOf [OF assms] by (simp add: cleanPath_def Let_def cleanSegs_plain sep_by_pathOf)
qed

text \<open>The route of a path of plain segments, whatever the query.\<close>

lemma findHandler_plain:
  assumes "list_all plainSegment xs" and "xs \<noteq> []" and "method \<noteq> []"
    and "matchPath (withMethod method rs) xs = Some (ro, ms)" and "ro_segs ro \<noteq> []" and "last (ro_segs ro) \<noteq> Multi"
  shows "findHandler rs method \<lparr>u_Scheme = [], u_Host = [], u_Path = pathOf xs, u_RawPath = [], u_RawQuery = q\<rparr> = Handle ro ms"
proof -
  have esc: "EscapedPath \<lparr>u_Scheme = [], u_Host = [], u_Path = pathOf xs, u_RawPath = [], u_RawQuery = q\<rparr> = pathOf xs"
    using pathOf_Cons [OF assms(2)] escapePath_plain [OF pathOf_chars [OF assms(1)]] by (simp add: EscapedPath_def)
  have m: "mux_match rs method (pathOf xs) = Some (ro, ms)"
    using assms(3,4) by (simp add: mux_match_def pathSegments_pathOf [OF assms(1,2)] Let_def)
  then have "\<not> wantsSlash rs method (pathOf xs)" using assms(5,6) by (simp add: wantsSlash_def exactMatch_def)
  then show ?thesis using m by (simp add: findHandler_def Let_def esc cleanPath_pathOf [OF assms(1,2)])
qed

lemma ServeMux_plain:
  assumes "rq_URL r = \<lparr>u_Scheme = [], u_Host = [], u_Path = pathOf xs, u_RawPath = [], u_RawQuery = q\<rparr>"
    and "list_all plainSegment xs" and "xs \<noteq> []" and "rq_Method r \<noteq> []"
    and "matchPath (withMethod (rq_Method r) rs) xs = Some (ro, ms)" and "ro_segs ro \<noteq> []" and "last (ro_segs ro) \<noteq> Multi"
  shows "ServeMux code rs r = ro_handler ro (r\<lparr>rq_pathValues := zip (wildNames (ro_segs ro)) ms\<rparr>)"
  using findHandler_plain [OF assms(2-7), of q] by (simp add: ServeMux_def assms(1))

end
