(* ===== verification/Process.thy ===== *)
theory Process
  imports Go_Http
begin

text \<open>
  What the entry points under \<^verbatim>\<open>cmd/\<close> share: \<^verbatim>\<open>pkg/server\<close> (\<^verbatim>\<open>EnvOr\<close>, \<^verbatim>\<open>Run\<close>), the typed
  environment readers, and \<^verbatim>\<open>time.ParseDuration\<close>. A \<^verbatim>\<open>main\<close> is an effect on the process; \<^verbatim>\<open>os.Exit(1)\<close> is its
  failure \<open>exited\<close>, and its result is what it hands to \<^verbatim>\<open>server.Run\<close>.
\<close>

section \<open>The environment\<close>

text \<open>\<^verbatim>\<open>os.Getenv\<close>: the empty text for a variable that is not set.\<close>

type_synonym environ = "string \<Rightarrow> string"

definition EnvOr :: "environ \<Rightarrow> string \<Rightarrow> string \<Rightarrow> string" where
  "EnvOr env key dflt = (if env key \<noteq> [] then env key else dflt)"

definition envUint :: "environ \<Rightarrow> string \<Rightarrow> u64 \<Rightarrow> u64" where
  "envUint env key dflt =
     (if env key \<noteq> [] then (case ParseUint 64 (env key) of Ok n \<Rightarrow> of_nat n | _ \<Rightarrow> dflt) else dflt)"

definition envInt32 :: "environ \<Rightarrow> string \<Rightarrow> int \<Rightarrow> int" where
  "envInt32 env key dflt =
     (if env key \<noteq> [] then (case ParseInt 32 (env key) of Ok n \<Rightarrow> n | _ \<Rightarrow> dflt) else dflt)"


section \<open>Durations as text\<close>

text \<open>\<^verbatim>\<open>leadingInt\<close>: the leading digits as a number up to \<open>2 ^ 63\<close>; \<open>None\<close> on overflow.\<close>

fun leadingInt :: "nat \<Rightarrow> string \<Rightarrow> (nat \<times> string) option" where
  "leadingInt x [] = Some (x, [])"
| "leadingInt x (c # cs) =
     (if \<not> is_digit c then Some (x, c # cs)
      else if 2 ^ 63 div 10 < x then None
      else if 2 ^ 63 < x * 10 + digit_val c then None
      else leadingInt (x * 10 + digit_val c) cs)"

text \<open>\<^verbatim>\<open>leadingFraction\<close>: the digits after the point and the power of ten they are to be divided by; digits that
  would overflow are skipped.\<close>

fun leadingFraction :: "nat \<Rightarrow> nat \<Rightarrow> bool \<Rightarrow> string \<Rightarrow> nat \<times> nat \<times> string" where
  "leadingFraction x scale overflow [] = (x, scale, [])"
| "leadingFraction x scale overflow (c # cs) =
     (if \<not> is_digit c then (x, scale, c # cs)
      else if overflow \<or> (2 ^ 63 - 1) div 10 < x \<or> 2 ^ 63 < x * 10 + digit_val c
      then leadingFraction x scale True cs
      else leadingFraction (x * 10 + digit_val c) (scale * 10) False cs)"

definition unitMap :: "string \<rightharpoonup> nat" where
  "unitMap = map_of
     [(''ns'', 1), (''us'', 10 ^ 3), ([CHR 0xC2, CHR 0xB5, CHR ''s''], 10 ^ 3), ([CHR 0xCE, CHR 0xBC, CHR ''s''], 10 ^ 3),
      (''ms'', 10 ^ 6), (''s'', 10 ^ 9), (''m'', 60 * 10 ^ 9), (''h'', 3600 * 10 ^ 9)]"

text \<open>One number with its unit: its nanoseconds and the rest of the text.\<close>

definition durationPart :: "string \<Rightarrow> (nat \<times> string) option" where
  "durationPart s =
     (case s of
        [] \<Rightarrow> None
      | c # _ \<Rightarrow>
          if \<not> (c = CHR ''.'' \<or> is_digit c) then None
          else (case leadingInt 0 s of
             None \<Rightarrow> None
           | Some (v, s1) \<Rightarrow>
               let (f, scale, s2, post) =
                 (case s1 of
                    d # ds \<Rightarrow> if d = CHR ''.'' then (case leadingFraction 0 1 False ds of (f, sc, r) \<Rightarrow> (f, sc, r, length ds \<noteq> length r))
                              else (0, 1, s1, False)
                  | [] \<Rightarrow> (0, 1, s1, False))
               in if length s = length s1 \<and> \<not> post then None
                  else let u = takeWhile (\<lambda>c. \<not> (c = CHR ''.'' \<or> is_digit c)) s2;
                           rest = drop (length u) s2
                    in (case unitMap u of
                          None \<Rightarrow> None
                        | Some unit \<Rightarrow>
                            if 2 ^ 63 div unit < v then None
                            else let w = v * unit +
                                   (if 0 < f then nat \<lfloor>fl (fl (of_nat f) * fl (of_nat unit / of_nat scale))\<rfloor> else 0)
                              in if 0 < f \<and> 2 ^ 63 < w then None else Some (w, rest))))"

text \<open>Every part takes at least one character, so the length of the text bounds their number.\<close>

fun durationParts :: "nat \<Rightarrow> nat \<Rightarrow> string \<Rightarrow> nat option" where
  "durationParts k d [] = Some d"
| "durationParts 0 d (c # cs) = None"
| "durationParts (Suc k) d (c # cs) =
     (case durationPart (c # cs) of
        None \<Rightarrow> None
      | Some (w, rest) \<Rightarrow>
          let d' = (d + w) mod 2 ^ 64 in if 2 ^ 63 < d' then None else durationParts k d' rest)"

definition ParseDuration :: "string \<Rightarrow> int option" where
  "ParseDuration s =
     (let (neg, t) = (case s of
            c # cs \<Rightarrow> if c = CHR ''-'' then (True, cs) else if c = CHR ''+'' then (False, cs) else (False, s)
          | [] \<Rightarrow> (False, s))
      in if t = ''0'' then Some 0
         else if t = [] then None
         else case durationParts (length t) 0 t of
             None \<Rightarrow> None
           | Some d \<Rightarrow> if neg then Some (- int d) else if 2 ^ 63 - 1 < d then None else Some (int d))"

definition envDuration :: "environ \<Rightarrow> string \<Rightarrow> int \<Rightarrow> int" where
  "envDuration env key dflt =
     (if env key \<noteq> [] then (case ParseDuration (env key) of Some d \<Rightarrow> d | None \<Rightarrow> dflt) else dflt)"


section \<open>Starting and stopping\<close>

definition exited :: error where
  "exited = Opaque ''exit status 1''"

text \<open>\<^verbatim>\<open>log.Error(msg, "error", err); os.Exit(1)\<close>\<close>

definition exitWith :: "string \<Rightarrow> error \<Rightarrow> ('s srv, 'a) eff" where
  "exitWith msg e = bnd (log_write ''ERROR'' msg [(''error'', AString (Error_text e))]) (\<lambda>_. raise exited)"

text \<open>\<^verbatim>\<open>v, err := call; if err != nil { log.Error(msg, ...); os.Exit(1) }\<close>\<close>

definition orExit :: "string \<Rightarrow> ('s srv, 'a) eff \<Rightarrow> ('a \<Rightarrow> ('s srv, 'b) eff) \<Rightarrow> ('s srv, 'b) eff" where
  "orExit msg m f = on_err m (exitWith msg) f"

text \<open>\<^verbatim>\<open>server.Run\<close>: the goroutine that listens and the function that waits for a signal. \<^verbatim>\<open>ListenAndServe\<close> returns
  \<^verbatim>\<open>ErrServerClosed\<close> once \<^verbatim>\<open>Shutdown\<close> has been called, and may return another error at any time.\<close>

datatype listener = Starting | Accepting | Closed

record runState =
  rn_listener :: listener
  rn_stopping :: bool
  rn_returned :: bool
  rn_exit :: "int option"
  rn_log :: "entry list"

definition startRun :: "entry list \<Rightarrow> runState" where
  "startRun lg = \<lparr>rn_listener = Starting, rn_stopping = False, rn_returned = False, rn_exit = None, rn_log = lg\<rparr>"

definition running :: "runState \<Rightarrow> bool" where
  "running s \<longleftrightarrow> \<not> rn_returned s \<and> rn_exit s = None"

definition listeningEntry :: "string \<Rightarrow> entry" where
  "listeningEntry addr = \<lparr>le_level = ''INFO'', le_msg = ''listening'', le_attrs = [(''addr'', AString addr)]\<rparr>"

definition serverErrorEntry :: "error \<Rightarrow> entry" where
  "serverErrorEntry e = \<lparr>le_level = ''ERROR'', le_msg = ''server error'', le_attrs = [(''error'', AString (Error_text e))]\<rparr>"

definition shuttingDownEntry :: entry where
  "shuttingDownEntry = \<lparr>le_level = ''INFO'', le_msg = ''shutting down'', le_attrs = []\<rparr>"

inductive server_Run :: "string \<Rightarrow> runState \<Rightarrow> runState \<Rightarrow> bool" where
  listen: "running s \<Longrightarrow> rn_listener s = Starting \<Longrightarrow>
    server_Run addr s (s\<lparr>rn_listener := Accepting, rn_log := rn_log s @ [listeningEntry addr]\<rparr>)"
| server_closed: "running s \<Longrightarrow> rn_listener s = Accepting \<Longrightarrow> rn_stopping s \<Longrightarrow>
    server_Run addr s (s\<lparr>rn_listener := Closed\<rparr>)"
| server_error: "running s \<Longrightarrow> rn_listener s = Accepting \<Longrightarrow>
    server_Run addr s (s\<lparr>rn_listener := Closed, rn_log := rn_log s @ [serverErrorEntry e], rn_exit := Some 1\<rparr>)"
| signal: "running s \<Longrightarrow> \<not> rn_stopping s \<Longrightarrow>
    server_Run addr s (s\<lparr>rn_stopping := True, rn_log := rn_log s @ [shuttingDownEntry]\<rparr>)"
| drained: "running s \<Longrightarrow> rn_stopping s \<Longrightarrow>
    server_Run addr s (s\<lparr>rn_returned := True\<rparr>)"

inductive_cases server_RunE: "server_Run addr s t"


section \<open>Laws\<close>

text \<open>What the log of a process says about its state.\<close>

definition run_ok :: "string \<Rightarrow> entry list \<Rightarrow> runState \<Rightarrow> bool" where
  "run_ok addr lg s \<longleftrightarrow> (\<exists>es. rn_log s = lg @ es \<and>
     (rn_listener s \<noteq> Starting \<longleftrightarrow> listeningEntry addr \<in> set es) \<and>
     (rn_stopping s \<longleftrightarrow> shuttingDownEntry \<in> set es) \<and>
     (rn_exit s = None \<longrightarrow> (\<forall>e. serverErrorEntry e \<notin> set es)) \<and>
     (rn_exit s \<noteq> None \<longrightarrow> rn_exit s = Some 1 \<and> (\<exists>e. last es = serverErrorEntry e) \<and> listeningEntry addr \<in> set es) \<and>
     (rn_returned s \<longrightarrow> rn_stopping s \<and> rn_exit s = None) \<and> distinct es)"

lemma entries_differ:
  "listeningEntry addr \<noteq> serverErrorEntry e" "listeningEntry addr \<noteq> shuttingDownEntry" "serverErrorEntry e \<noteq> shuttingDownEntry"
  by (simp_all add: listeningEntry_def serverErrorEntry_def shuttingDownEntry_def)

lemma run_ok_step:
  assumes "server_Run addr s t" and "run_ok addr lg s"
  shows "run_ok addr lg t"
proof -
  obtain es where es: "rn_log s = lg @ es" "rn_listener s \<noteq> Starting \<longleftrightarrow> listeningEntry addr \<in> set es"
    "rn_stopping s \<longleftrightarrow> shuttingDownEntry \<in> set es" "rn_exit s = None \<longrightarrow> (\<forall>e. serverErrorEntry e \<notin> set es)"
    "rn_returned s \<longrightarrow> rn_stopping s \<and> rn_exit s = None" "distinct es"
    using assms(2) unfolding run_ok_def by (elim exE conjE) (rule that)
  note d = entries_differ entries_differ [symmetric]
  from assms(1) show ?thesis
  proof cases
    case listen
    then show ?thesis using es d unfolding run_ok_def
      by (intro exI [of _ "es @ [listeningEntry addr]"]) (auto simp: running_def)
  next
    case server_closed
    then show ?thesis using es unfolding run_ok_def by (intro exI [of _ es]) (auto simp: running_def)
  next
    case (server_error e)
    then show ?thesis using es d unfolding run_ok_def
      by (intro exI [of _ "es @ [serverErrorEntry e]"]) (auto simp: running_def)
  next
    case signal
    then show ?thesis using es d unfolding run_ok_def
      by (intro exI [of _ "es @ [shuttingDownEntry]"]) (auto simp: running_def)
  next
    case drained
    then show ?thesis using es unfolding run_ok_def by (intro exI [of _ es]) (auto simp: running_def)
  qed
qed

lemma run_ok_reachable: "(server_Run addr)\<^sup>*\<^sup>* (startRun lg) s \<Longrightarrow> run_ok addr lg s"
proof (induction rule: rtranclp_induct)
  case base
  show ?case by (simp add: startRun_def run_ok_def)
qed (rule run_ok_step)

text \<open>Numbers as the environment writes them.\<close>

lemma leadingInt_digits:
  assumes "list_all is_digit ds" and "rest = [] \<or> \<not> is_digit (hd rest)" and "foldl (\<lambda>n c. 10 * n + digit_val c) x ds \<le> 2 ^ 63"
  shows "leadingInt x (ds @ rest) = Some (foldl (\<lambda>n c. 10 * n + digit_val c) x ds, rest)"
  using assms(1,3)
proof (induction ds arbitrary: x)
  case Nil
  then show ?case using assms(2) by (cases rest) auto
next
  case (Cons d ds)
  let ?f = "\<lambda>n c. 10 * n + digit_val c"
  have grows: "y \<le> foldl ?f y cs" for y :: nat and cs
  proof (induction cs arbitrary: y)
    case (Cons c cs)
    have "y \<le> 10 * y + digit_val c" by simp
    also have "\<dots> \<le> foldl ?f (10 * y + digit_val c) cs" by (rule Cons.IH)
    finally show ?case by simp
  qed simp
  have "10 * x + digit_val d \<le> 2 ^ 63" using grows [of "10 * x + digit_val d" ds] Cons.prems(2) by simp
  then have "\<not> 2 ^ 63 < x * 10 + digit_val d" "\<not> 2 ^ 63 div 10 < x" by simp_all
  then show ?case using Cons by (simp add: mult.commute)
qed

text \<open>A whole number of seconds, as \<^verbatim>\<open>POLL_INTERVAL\<close> is usually written.\<close>

lemma ParseDuration_seconds:
  assumes "n * 10 ^ 9 < 2 ^ 63"
  shows "ParseDuration (utoa n @ ''s'') = Some (int n * 10 ^ 9)"
proof -
  let ?t = "utoa n @ ''s''"
  have dig: "utoa n \<noteq> []" "list_all is_digit (utoa n)" using utoa_digits by simp_all
  then obtain c cs where c: "utoa n = c # cs" "is_digit c" by (cases "utoa n") auto
  have nd: "\<not> is_digit (CHR ''s'')" "\<not> is_digit (CHR ''-'')" "\<not> is_digit (CHR ''+'')" by (simp_all add: is_digit_def)
  have "n \<le> 2 ^ 63" using assms by simp
  then have li: "leadingInt 0 ?t = Some (n, ''s'')"
    using leadingInt_digits [OF dig(2), of "''s''" 0] dec_value_utoa [of n] nd by (simp add: dec_value_def)
  have "2 ^ 63 div 10 ^ 9 \<ge> n" using assms by (simp add: less_eq_div_iff_mult_less_eq)
  then have part: "durationPart ?t = Some (n * 10 ^ 9, [])"
    using c li nd by (simp add: durationPart_def unitMap_def Let_def)
  have d: "0 + n * 10 ^ 9 < (2 :: nat) ^ 64" using assms by simp
  have parts: "durationParts (length ?t) 0 ?t = Some (n * 10 ^ 9)"
    using c part assms mod_less [OF d] by (simp add: Let_def)
  have "c \<noteq> CHR ''-''" "c \<noteq> CHR ''+''" using c(2) nd by auto
  then have "ParseDuration ?t = (if ?t = ''0'' then Some 0 else case durationParts (length ?t) 0 ?t of
       None \<Rightarrow> None | Some d \<Rightarrow> if 2 ^ 63 - 1 < d then None else Some (int d))"
    using c(1) by (simp add: ParseDuration_def Let_def cong: option.case_cong del: durationParts.simps)
  moreover have "?t \<noteq> ''0''" using c(1) by auto
  ultimately show ?thesis using parts assms by (simp only: if_False option.simps) simp
qed

lemma envUint_utoa: "env key = utoa n \<Longrightarrow> n < 2 ^ 64 \<Longrightarrow> envUint env key dflt = of_nat n"
  using utoa_digits [of n] by (simp add: envUint_def ParseUint_def)

text \<open>Reading never fails: a value that does not parse counts as not set.\<close>

lemma envUint_default: "atou (env key) = None \<Longrightarrow> envUint env key dflt = dflt"
  by (simp add: envUint_def ParseUint_def)


section \<open>Properties\<close>



end
