(* ===== verification/Go_Proxy.thy ===== *)
theory Go_Proxy
  imports Httpx
begin

text \<open>
  \<^verbatim>\<open>httputil.ReverseProxy\<close> with a \<^verbatim>\<open>Director\<close>: the outgoing request (hop-by-hop headers removed, forwarding
  header added), the round trip through the transport, and the copy of the answer to the client. The
  transport is an argument. After a granted protocol upgrade the connection is no longer HTTP and is not
  followed further.
\<close>

section \<open>Helpers\<close>

record Response =
  rs_StatusCode :: int
  rs_Header :: header
  rs_Body :: string
  rs_truncated :: bool

text \<open>\<open>rs_truncated\<close>: reading the body fails after the bytes in \<open>rs_Body\<close>.\<close>

definition hopHeaders :: "string list" where
  "hopHeaders = [''Connection'', ''Proxy-Connection'', ''Keep-Alive'', ''Proxy-Authenticate'',
     ''Proxy-Authorization'', ''Te'', ''Trailer'', ''Transfer-Encoding'', ''Upgrade'']"

definition trimSpace :: "string \<Rightarrow> string" where
  "trimSpace s = rev (dropWhile isSpace (rev (dropWhile isSpace s)))"

text \<open>The header names listed in the \<^verbatim>\<open>Connection\<close> header.\<close>

definition connectionNames :: "header \<Rightarrow> string list" where
  "connectionNames h =
     filter (\<lambda>n. n \<noteq> []) (map trimSpace (concat (map (splitOn (CHR '','')) (header_values h ''Connection''))))"

definition removeHopByHopHeaders :: "header \<Rightarrow> header" where
  "removeHopByHopHeaders h = fold header_Del hopHeaders (fold header_Del (connectionNames h) h)"

definition containsToken :: "string list \<Rightarrow> string \<Rightarrow> bool" where
  "containsToken vs tok \<longleftrightarrow>
     (\<exists>v \<in> set vs. \<exists>t \<in> set (splitOn (CHR '','') v). map toLower (trimSpace t) = map toLower tok)"

definition upgradeType :: "header \<Rightarrow> string" where
  "upgradeType h = (if containsToken (header_values h ''Connection'') ''Upgrade'' then header_Get h ''Upgrade'' else [])"

definition isPrint :: "string \<Rightarrow> bool" where
  "isPrint s \<longleftrightarrow> list_all (\<lambda>c. 32 \<le> byte c \<and> byte c \<le> 126) s"

text \<open>\<^verbatim>\<open>net.SplitHostPort\<close>, the host part.\<close>

definition SplitHostPort :: "string \<Rightarrow> string option" where
  "SplitHostPort s =
     (case Cut (rev s) (CHR '':'') of (rport, rhost, colon) \<Rightarrow>
        let host = rev rhost; port = rev rport in
        if \<not> colon then None
        else if s \<noteq> [] \<and> hd s = CHR ''['' then
          (case Cut (tl host) (CHR '']'') of (inner, after, ok) \<Rightarrow>
             if ok \<and> after = [] \<and> CHR ''['' \<notin> set (inner @ port) \<and> CHR '']'' \<notin> set port then Some inner else None)
        else if CHR '':'' \<in> set host \<or> CHR ''['' \<in> set s \<or> CHR '']'' \<in> set s then None
        else Some host)"

definition addForwardedFor :: "string \<Rightarrow> header \<Rightarrow> header" where
  "addForwardedFor remoteAddr h =
     (case SplitHostPort remoteAddr of
        None \<Rightarrow> h
      | Some ip \<Rightarrow>
          h(''X-Forwarded-For'' \<mapsto> [sep_by '', '' (header_values h ''X-Forwarded-For'' @ [ip])]))"

definition singleJoiningSlash :: "string \<Rightarrow> string \<Rightarrow> string" where
  "singleJoiningSlash a b =
     (if has_suffix a ''/'' \<and> has_prefix b ''/'' then a @ tl b
      else if \<not> has_suffix a ''/'' \<and> \<not> has_prefix b ''/'' then a @ ''/'' @ b
      else a @ b)"

definition joinURLPath :: "URL \<Rightarrow> URL \<Rightarrow> string \<times> string" where
  "joinURLPath a b =
     (if u_RawPath a = [] \<and> u_RawPath b = [] then (singleJoiningSlash (u_Path a) (u_Path b), [])
      else let ap = EscapedPath a; bp = EscapedPath b in
        if has_suffix ap ''/'' \<and> has_prefix bp ''/'' then (u_Path a @ tl (u_Path b), ap @ tl bp)
        else if \<not> has_suffix ap ''/'' \<and> \<not> has_prefix bp ''/'' then (u_Path a @ ''/'' @ u_Path b, ap @ ''/'' @ bp)
        else (u_Path a @ u_Path b, ap @ bp))"

text \<open>The director of \<^verbatim>\<open>NewSingleHostReverseProxy\<close>.\<close>

definition rewriteRequestURL :: "URL \<Rightarrow> URL \<Rightarrow> URL" where
  "rewriteRequestURL target u =
     (case joinURLPath target u of (path, raw) \<Rightarrow>
        \<lparr>u_Scheme = u_Scheme target, u_Host = u_Host target, u_Path = path, u_RawPath = raw,
         u_RawQuery = (if u_RawQuery target = [] \<or> u_RawQuery u = [] then u_RawQuery target @ u_RawQuery u
                       else u_RawQuery target @ ''&'' @ u_RawQuery u)\<rparr>)"


section \<open>The proxy\<close>

text \<open>The request sent upstream, or \<open>None\<close> when the client's \<^verbatim>\<open>Upgrade\<close> value is malformed.\<close>

definition outgoing :: "(Request \<Rightarrow> Request) \<Rightarrow> Request \<Rightarrow> Request option" where
  "outgoing director r =
     (let out = director r;
          up = upgradeType (rq_Header out);
          h1 = removeHopByHopHeaders (rq_Header out);
          h2 = (if containsToken (header_values (rq_Header r) ''Te'') ''trailers'' then header_Set ''Te'' ''trailers'' h1 else h1);
          h3 = (if up \<noteq> [] then header_Set ''Upgrade'' up (header_Set ''Connection'' ''Upgrade'' h2) else h2);
          h4 = addForwardedFor (rq_RemoteAddr r) h3;
          h5 = (if h4 ''User-Agent'' = None then header_Set ''User-Agent'' [] h4 else h4)
      in if \<not> isPrint up then None else Some (out\<lparr>rq_Header := h5\<rparr>))"

text \<open>\<^verbatim>\<open>defaultErrorHandler\<close>\<close>

definition proxyError :: "('s srv, unit) eff" where
  "proxyError = WriteHeader 502"

text \<open>\<^verbatim>\<open>handleUpgradeResponse\<close>: a connection behind a \<^verbatim>\<open>statusWriter\<close> cannot be hijacked.\<close>

definition handleUpgrade :: "string \<Rightarrow> Response \<Rightarrow> ('s srv, unit) eff" where
  "handleUpgrade up res s =
     (let resUp = upgradeType (rs_Header res) in
      if \<not> isPrint resUp \<or> map toLower up \<noteq> map toLower resUp \<or> w_wrapped (sv_w s) \<noteq> [] then proxyError s
      else bnd (header_edit (\<lambda>h. copyHeader h (rs_Header res))) (\<lambda>_. WriteHeader 101) s)"

definition copyAnswer :: "Response \<Rightarrow> ('s srv, unit) eff" where
  "copyAnswer res =
     bnd (header_edit (\<lambda>h. copyHeader h (removeHopByHopHeaders (rs_Header res)))) (\<lambda>_.
     bnd (WriteHeader (rs_StatusCode res)) (\<lambda>_ s.
       case (if rs_Body res = [] then ret () else Write (rs_Body res)) s of
         (Ok _, s') \<Rightarrow> if rs_truncated res then (Panic ''net/http: abort Handler'', s') else (Ok (), s')
       | (_, s') \<Rightarrow> (Panic ''net/http: abort Handler'', s')))"

definition ReverseProxy :: "(Request \<Rightarrow> Request) \<Rightarrow> (Request \<Rightarrow> ('s, Response) eff) \<Rightarrow> 's handler" where
  "ReverseProxy director roundTrip r s =
     (case outgoing director r of
        None \<Rightarrow> proxyError s
      | Some out \<Rightarrow>
          (case on_state (roundTrip out) s of
             (Err e, s') \<Rightarrow> proxyError s'
           | (Panic p, s') \<Rightarrow> (Panic p, s')
           | (Ok res, s') \<Rightarrow>
               if rs_StatusCode res = 101 then handleUpgrade (upgradeType (rq_Header out)) res s'
               else copyAnswer res s'))"

section \<open>Laws\<close>

lemma fold_Del_None: "h k = None \<Longrightarrow> fold header_Del ks h k = None"
  by (induction ks arbitrary: h) (simp_all add: header_Del_def)

text \<open>Removing headers never adds or changes a value.\<close>

lemma fold_Del_cases: "fold header_Del ks h k = h k \<or> fold header_Del ks h k = None"
proof (induction ks arbitrary: h)
  case (Cons a ks)
  from Cons.IH [of "header_Del a h"] show ?case by (auto simp: header_Del_def split: if_splits)
qed simp

lemma removeHopByHop_cases: "removeHopByHopHeaders h k = h k \<or> removeHopByHopHeaders h k = None"
  using fold_Del_cases [of hopHeaders "fold header_Del (connectionNames h) h" k]
    fold_Del_cases [of "connectionNames h" h k]
  by (auto simp: removeHopByHopHeaders_def)

lemma canonical_consts [simp]:
  "CanonicalHeaderKey ''Te'' = ''Te''" "CanonicalHeaderKey ''Upgrade'' = ''Upgrade''"
  "CanonicalHeaderKey ''Connection'' = ''Connection''" "CanonicalHeaderKey ''User-Agent'' = ''User-Agent''"
  "CanonicalHeaderKey ''X-Request-ID'' = ''X-Request-Id''"
  "CanonicalHeaderKey ''Authorization'' = ''Authorization''"
  "CanonicalHeaderKey ''X-Auth-Role'' = ''X-Auth-Role''" "CanonicalHeaderKey ''X-Auth-Subject'' = ''X-Auth-Subject''"
  by code_simp+

text \<open>What reaches the upstream under a header the proxy does not manage: the director's value, or
  nothing.\<close>

lemma outgoing_header:
  assumes "outgoing director r = Some out"
    and "k \<notin> {''Te'', ''Upgrade'', ''Connection'', ''X-Forwarded-For'', ''User-Agent''}"
  shows "rq_Header out k = rq_Header (director r) k \<or> rq_Header out k = None"
  using assms removeHopByHop_cases [of "rq_Header (director r)" k]
  by (auto simp: outgoing_def Let_def addForwardedFor_def header_Set_def split: if_splits option.splits)

end
