(* ===== verification/Httpx_Props.thy ===== *)
theory Httpx_Props
  imports Go_Proxy
begin

text \<open>
  What the middleware stack of the services guarantees: panics do not escape, every request is logged
  with the identifier the client sees, and what happens to a proxied answer that breaks off.
\<close>

definition requestIdent :: "Request \<Rightarrow> 's srv \<Rightarrow> string" where
  "requestIdent r s =
     (if header_Get (rq_Header r) ''X-Request-ID'' = [] then hex_EncodeToString (map (sv_random s) [0..<8])
      else header_Get (rq_Header r) ''X-Request-ID'')"

lemma RequestID_runs:
  "\<exists>s1. RequestID h r s = h (r\<lparr>rq_requestID := Some (requestIdent r s)\<rparr>) s1 \<and>
     w_Header (sv_w s1) ''X-Request-Id'' = Some [requestIdent r s] \<and> sv_log s1 = sv_log s \<and> sv_state s1 = sv_state s \<and>
     sv_clock s1 = sv_clock s \<and> (fresh s \<longrightarrow> fresh s1) \<and> w_wrapped (sv_w s1) = w_wrapped (sv_w s)"
  by (auto simp: RequestID_def Let_def requestIdent_def rand_Read_def ret_def header_edit_def header_Set_def fresh_def bnd_def)

lemma Recovery_total:
  assumes "\<And>r s e s'. h r s \<noteq> (Err e, s')"
  shows "\<exists>s'. Recovery h r s = (Ok (), s')"
proof (cases "h r s")
  case (Pair x s1)
  show ?thesis
  proof (cases x)
    case (Panic p)
    obtain s2 where l: "log_write ''ERROR'' ''panic recovered''
        [(''panic'', AString p), (''request_id'', AString (RequestIDFrom r))] s1 = (Ok (), s2)"
      by (simp add: log_write_def)
    have "fst (Error 500 ''internal error'' s2) = Ok ()" by (rule Error_ok) simp_all
    then obtain s3 where "Error 500 ''internal error'' s2 = (Ok (), s3)" by (cases "Error 500 ''internal error'' s2") auto
    then show ?thesis using Pair Panic l by (simp add: Recovery_def)
  next
    case (Err e)
    then show ?thesis using assms Pair by blast
  qed (use Pair in \<open>simp add: Recovery_def\<close>)
qed

text \<open>The body \<^verbatim>\<open>JSON\<close> writes for a value.\<close>

definition jsonBody :: "any \<Rightarrow> string" where
  "jsonBody v = (case marshal v of None \<Rightarrow> [] | Some t \<Rightarrow> t @ [CHR 0x0A])"

text \<open>An answer written by a handler, or by \<^verbatim>\<open>Recovery\<close> in its place, passes the middleware unchanged.\<close>

lemma stack_answers:
  assumes "\<And>i s1. fresh s1 \<Longrightarrow> sv_state s1 = sv_state s \<Longrightarrow>
      \<exists>s2. Recovery h (r\<lparr>rq_requestID := Some i\<rparr>) s1 = (Ok (), s2) \<and> sv_state s2 = st \<and> sv_w s2 = answered code v (sv_w s1)"
    and "fresh s"
  shows "\<exists>s'. Chain h [RequestID, Logger, Recovery] r s = (Ok (), s') \<and> sv_state s' = st \<and> w_code (sv_w s') = Some code \<and>
    w_Body (sv_w s') = jsonBody v \<and> w_sent (sv_w s') ''Content-Length'' = None"
proof -
  let ?i = "requestIdent r s"
  let ?r = "r\<lparr>rq_requestID := Some ?i\<rparr>"
  obtain s1 where s1: "Chain h [RequestID, Logger, Recovery] r s = Logger (Recovery h) ?r s1" "fresh s1" "sv_state s1 = sv_state s"
    using RequestID_runs [of "Logger (Recovery h)" r s] assms(2) by auto
  let ?s2 = "push_status (s1\<lparr>sv_clock := \<lambda>n. sv_clock s1 (Suc n)\<rparr>)"
  have fr: "fresh ?s2" "sv_state ?s2 = sv_state s" using s1(2,3) by (simp_all add: fresh_def push_status_def)
  from assms(1) [OF this] obtain s3 where "Recovery h ?r ?s2 = (Ok (), s3)" "sv_state s3 = st" "sv_w s3 = answered code v (sv_w ?s2)"
    by blast
  then show ?thesis
    using s1 by (simp add: Logger_def bnd_def log_write_def pop_status_def answered_def jsonHeader_def push_status_def fresh_def jsonBody_def)
qed


section \<open>Properties\<close>

text \<open>C22. Behind the stack every service uses (\<^verbatim>\<open>RequestID\<close>, \<^verbatim>\<open>Logger\<close>, \<^verbatim>\<open>Recovery\<close>) no panic of a handler
  escapes, and the last line logged for a request is its access log entry, with method, path and the
  correlation identifier (the client's, or eight random bytes in hexadecimal).\<close>

theorem stack_contains_and_logs:
  assumes "\<forall>r s e s'. h r s \<noteq> (Err e, s')"
  shows "\<exists>s' code dur. Chain h [RequestID, Logger, Recovery] r s = (Ok (), s') \<and>
    sv_log s' \<noteq> [] \<and>
    last (sv_log s') = \<lparr>le_level = ''INFO'', le_msg = ''request'',
      le_attrs = [(''method'', AString (rq_Method r)), (''path'', AString (u_Path (rq_URL r))), (''status'', AInt code),
                  (''duration'', AInt dur), (''request_id'', AString (requestIdent r s))]\<rparr>"
proof -
  let ?r = "r\<lparr>rq_requestID := Some (requestIdent r s)\<rparr>"
  obtain s1 where s1: "Chain h [RequestID, Logger, Recovery] r s = Logger (Recovery h) ?r s1"
    using RequestID_runs [of "Logger (Recovery h)" r s] by auto
  let ?s2 = "s1\<lparr>sv_clock := \<lambda>n. sv_clock s1 (Suc n)\<rparr>"
  obtain s3 where s3: "Recovery h ?r (push_status ?s2) = (Ok (), s3)"
    using Recovery_total assms by blast
  show ?thesis
    unfolding s1 by (simp add: Logger_def s3 log_write_def bnd_def RequestIDFrom_def)
qed

theorem stack_contains_and_logs_witness:
  "\<exists>s' code dur. Chain (\<lambda>r s. (Panic ''nil map'', s)) [RequestID, Logger, Recovery]
      \<lparr>rq_Method = ''GET'', rq_URL = \<lparr>u_Scheme = [], u_Host = [], u_Path = ''/users'', u_RawPath = [], u_RawQuery = []\<rparr>,
       rq_Header = [''X-Request-Id'' \<mapsto> [''abc'']], rq_Body = [], rq_Host = [], rq_RemoteAddr = [], rq_requestID = None, rq_pathValues = []\<rparr>
      \<lparr>sv_state = (), sv_clock = (\<lambda>n. \<lparr>wall = 0, mono = 0\<rparr>), sv_random = (\<lambda>n. 0), sv_log = [], sv_w = newWriter\<rparr> = (Ok (), s') \<and>
    last (sv_log s') = \<lparr>le_level = ''INFO'', le_msg = ''request'',
      le_attrs = [(''method'', AString ''GET''), (''path'', AString ''/users''), (''status'', AInt code),
                  (''duration'', AInt dur), (''request_id'', AString ''abc'')]\<rparr>"
proof -
  let ?r = "\<lparr>rq_Method = ''GET'', rq_URL = \<lparr>u_Scheme = [], u_Host = [], u_Path = ''/users'', u_RawPath = [], u_RawQuery = []\<rparr>,
       rq_Header = [''X-Request-Id'' \<mapsto> [''abc'']], rq_Body = [], rq_Host = [], rq_RemoteAddr = [], rq_requestID = None, rq_pathValues = []\<rparr>"
  let ?s = "\<lparr>sv_state = (), sv_clock = (\<lambda>n. \<lparr>wall = 0, mono = 0\<rparr>), sv_random = (\<lambda>n. 0), sv_log = [], sv_w = newWriter\<rparr>"
  have "requestIdent ?r ?s = ''abc''" by (simp add: requestIdent_def header_Get_def)
  moreover have "\<forall>r s e s'. (\<lambda>(r :: Request) (s :: unit srv). (Panic ''nil map'' :: unit result, s)) r s \<noteq> (Err e, s')" by simp
  ultimately show ?thesis using stack_contains_and_logs [of "\<lambda>r s. (Panic ''nil map'', s)" ?r ?s] by auto
qed

text \<open>A handler that panics before it has written anything is answered with status 500 and the generic
  JSON error; the panic text goes to the log only.\<close>

theorem panic_answer:
  assumes "h r s = (Panic p, s1)" and "fresh s1"
  shows "\<exists>s2. Recovery h r s = (Ok (), s2) \<and> w_code (sv_w s2) = Some 500 \<and>
    w_Body (sv_w s2) = the (marshal (AMap [(''error'', AString ''internal error'')])) @ [CHR 0x0A] \<and>
    sv_log s2 = sv_log s1 @ [\<lparr>le_level = ''ERROR'', le_msg = ''panic recovered'',
      le_attrs = [(''panic'', AString p), (''request_id'', AString (RequestIDFrom r))]\<rparr>]"
proof -
  let ?s = "s1\<lparr>sv_log := sv_log s1 @ [\<lparr>le_level = ''ERROR'', le_msg = ''panic recovered'',
      le_attrs = [(''panic'', AString p), (''request_id'', AString (RequestIDFrom r))]\<rparr>]\<rparr>"
  have fr: "fresh ?s" using assms(2) by (simp add: fresh_def)
  have "marshal (AMap [(''error'', AString ''internal error'')]) \<noteq> None" by (simp add: sortKeys_def)
  then show ?thesis
    using assms(1) Error_fresh [OF fr, of 500 "''internal error''"]
    by (auto simp: Recovery_def log_write_def bnd_def answered_def)
qed

theorem panic_answer_witness:
  "\<exists>s2. Recovery (\<lambda>r s. (Panic ''boom'', s))
      \<lparr>rq_Method = ''GET'', rq_URL = \<lparr>u_Scheme = [], u_Host = [], u_Path = [], u_RawPath = [], u_RawQuery = []\<rparr>,
       rq_Header = Map.empty, rq_Body = [], rq_Host = [], rq_RemoteAddr = [], rq_requestID = None, rq_pathValues = []\<rparr>
      \<lparr>sv_state = (), sv_clock = (\<lambda>n. \<lparr>wall = 0, mono = 0\<rparr>), sv_random = (\<lambda>n. 0), sv_log = [], sv_w = newWriter\<rparr> = (Ok (), s2) \<and>
    w_code (sv_w s2) = Some 500"
  using panic_answer [of "\<lambda>r s. (Panic ''boom'', s)"
      "\<lparr>rq_Method = ''GET'', rq_URL = \<lparr>u_Scheme = [], u_Host = [], u_Path = [], u_RawPath = [], u_RawQuery = []\<rparr>,
       rq_Header = Map.empty, rq_Body = [], rq_Host = [], rq_RemoteAddr = [], rq_requestID = None, rq_pathValues = []\<rparr>"
      "\<lparr>sv_state = (), sv_clock = (\<lambda>n. \<lparr>wall = 0, mono = 0\<rparr>), sv_random = (\<lambda>n. 0), sv_log = [], sv_w = newWriter\<rparr>" "''boom''"
      "\<lparr>sv_state = (), sv_clock = (\<lambda>n. \<lparr>wall = 0, mono = 0\<rparr>), sv_random = (\<lambda>n. 0), sv_log = [], sv_w = newWriter\<rparr>"]
  by (auto simp: fresh_def newWriter_def)

text \<open>When an upstream answer with a body and without declared length breaks off, the proxy's abort is
  caught by \<^verbatim>\<open>Recovery\<close>: the client gets the upstream's status 200, the partial body, and the JSON error
  text appended to it, as a response that ends normally.\<close>

theorem aborted_answer_completed:
  assumes "outgoing director r = Some out" and "rt out (sv_state s) =
      (Ok \<lparr>rs_StatusCode = 200, rs_Header = Map.empty, rs_Body = part, rs_truncated = True\<rparr>, st)"
    and "fresh s" and "part \<noteq> []"
  shows "\<exists>s2. Recovery (ReverseProxy director rt) r s = (Ok (), s2) \<and> w_code (sv_w s2) = Some 200 \<and>
    w_Body (sv_w s2) = part @ the (marshal (AMap [(''error'', AString ''internal error'')])) @ [CHR 0x0A]"
proof -
  have hop: "removeHopByHopHeaders Map.empty k = None" for k
    using removeHopByHop_cases [of Map.empty k] by auto
  have cp: "copyHeader h (removeHopByHopHeaders Map.empty) = h" for h
    by (simp add: copyHeader_def hop fun_eq_iff)
  let ?w = "(sv_w s)\<lparr>w_code := Some 200, w_sent := w_Header (sv_w s), w_Body := part, w_wrapped := map (\<lambda>_. 200) (w_wrapped (sv_w s))\<rparr>"
  have "ReverseProxy director rt r s = (Panic ''net/http: abort Handler'', s\<lparr>sv_state := st, sv_w := ?w\<rparr>)"
    using assms
    by (simp add: ReverseProxy_def on_state_def copyAnswer_def header_edit_def bnd_def cp WriteHeader_def Let_def conn_WriteHeader_def
        Write_def conn_Write_def bodyAllowed_def fresh_def)
  moreover have "marshal (AMap [(''error'', AString ''internal error'')]) \<noteq> None" by (simp add: sortKeys_def)
  ultimately show ?thesis
    using assms(3)
    by (auto simp: Recovery_def log_write_def bnd_def Error_def JSON_def header_edit_def WriteHeader_def Let_def conn_WriteHeader_def
        Encode_def Write_def conn_Write_def bodyAllowed_def fresh_def ignore_err_def)
qed

theorem aborted_answer_completed_witness:
  "\<exists>s2. Recovery (ReverseProxy (\<lambda>r. r) (\<lambda>out. ret \<lparr>rs_StatusCode = 200, rs_Header = Map.empty, rs_Body = ''[1,2'', rs_truncated = True\<rparr>))
      \<lparr>rq_Method = ''GET'', rq_URL = \<lparr>u_Scheme = [], u_Host = [], u_Path = [], u_RawPath = [], u_RawQuery = []\<rparr>,
       rq_Header = Map.empty, rq_Body = [], rq_Host = [], rq_RemoteAddr = [], rq_requestID = None, rq_pathValues = []\<rparr>
      \<lparr>sv_state = (), sv_clock = (\<lambda>n. \<lparr>wall = 0, mono = 0\<rparr>), sv_random = (\<lambda>n. 0), sv_log = [], sv_w = newWriter\<rparr> = (Ok (), s2) \<and>
    w_code (sv_w s2) = Some 200"
proof -
  let ?r = "\<lparr>rq_Method = ''GET'', rq_URL = \<lparr>u_Scheme = [], u_Host = [], u_Path = [], u_RawPath = [], u_RawQuery = []\<rparr>,
       rq_Header = Map.empty, rq_Body = [], rq_Host = [], rq_RemoteAddr = [], rq_requestID = None, rq_pathValues = []\<rparr>"
  let ?s = "\<lparr>sv_state = (), sv_clock = (\<lambda>n. \<lparr>wall = 0, mono = 0\<rparr>), sv_random = (\<lambda>n. 0), sv_log = [], sv_w = newWriter\<rparr>"
  obtain out where "outgoing (\<lambda>r. r) ?r = Some out"
    by (simp add: outgoing_def Let_def upgradeType_def containsToken_def header_values_def isPrint_def)
  from aborted_answer_completed [OF this, of "\<lambda>out. ret \<lparr>rs_StatusCode = 200, rs_Header = Map.empty, rs_Body = ''[1,2'', rs_truncated = True\<rparr>"
      ?s "''[1,2''" "()"]
  show ?thesis by (auto simp: ret_def fresh_def newWriter_def)
qed

end
