(* ===== verification/Margin_Service.thy ===== *)
theory Margin_Service
  imports Margin_Props Go_Mux_Laws Process Httpx_Props
begin

text \<open>
  \<^verbatim>\<open>cmd/margin/main.go\<close>: the HTTP service over the margin engine. \<open>loadAssets\<close> reads the configured collateral,
  \<open>marginHandler\<close> answers one account, \<open>marginMain\<close> puts the process together. The state behind the
  handlers is the chain the engine reads from.
\<close>

section \<open>Definitions\<close>

record assetJSON =
  aj_Symbol :: string
  aj_Token :: string
  aj_Decimals :: u8
  aj_CollateralFactor :: string
  aj_PriceFeed :: string

definition zeroAsset :: assetJSON where
  "zeroAsset = \<lparr>aj_Symbol = [], aj_Token = [], aj_Decimals = 0, aj_CollateralFactor = [], aj_PriceFeed = []\<rparr>"

definition assetFields :: "string list" where
  "assetFields = [''symbol'', ''token'', ''decimals'', ''collateral_factor'', ''price_feed'']"

text \<open>One member of an object: \<^verbatim>\<open>null\<close> leaves the field alone, a value of another type is an error.\<close>

definition storeField :: "string \<Rightarrow> json \<Rightarrow> assetJSON \<Rightarrow> assetJSON option" where
  "storeField f j a =
     (if j = JNull then Some a
      else if f = ''decimals'' then
        (case j of
           JNum t \<Rightarrow> (case ParseUint 8 t of Ok n \<Rightarrow> Some (a\<lparr>aj_Decimals := of_nat n\<rparr>) | _ \<Rightarrow> None)
         | _ \<Rightarrow> None)
      else
        (case j of
           JStr t \<Rightarrow> Some (if f = ''symbol'' then a\<lparr>aj_Symbol := t\<rparr>
             else if f = ''token'' then a\<lparr>aj_Token := t\<rparr>
             else if f = ''collateral_factor'' then a\<lparr>aj_CollateralFactor := t\<rparr>
             else a\<lparr>aj_PriceFeed := t\<rparr>)
         | _ \<Rightarrow> None))"

fun storeAsset :: "(string \<times> json) list \<Rightarrow> assetJSON \<Rightarrow> assetJSON option" where
  "storeAsset [] a = Some a"
| "storeAsset ((key, j) # ms) a =
     (case findField assetFields key of
        None \<Rightarrow> storeAsset ms a
      | Some f \<Rightarrow> (case storeField f j a of None \<Rightarrow> None | Some a' \<Rightarrow> storeAsset ms a'))"

fun assetOf :: "json \<Rightarrow> assetJSON option" where
  "assetOf JNull = Some zeroAsset"
| "assetOf (JObj ms) = storeAsset ms zeroAsset"
| "assetOf j = None"

text \<open>\<^verbatim>\<open>json.Unmarshal([]byte(raw), &in)\<close>; \<open>None\<close> when it reports an error.\<close>

definition unmarshalAssets :: "string \<Rightarrow> assetJSON list option" where
  "unmarshalAssets raw =
     (case parsePrefix raw of
        None \<Rightarrow> None
      | Some (j, rest) \<Rightarrow>
          if skipSpace rest \<noteq> [] then None
          else (case j of
             JNull \<Rightarrow> Some []
           | JArr js \<Rightarrow> sequence_opt (map assetOf js)
           | _ \<Rightarrow> None))"

definition parseError :: "string \<Rightarrow> string \<Rightarrow> error" where
  "parseError field val = Opaque (''invalid '' @ field @ '': '' @ val)"

fun convertAssets :: "'abi Eth \<Rightarrow> assetJSON list \<Rightarrow> Asset list result" where
  "convertAssets eth [] = Ok []"
| "convertAssets eth (a # as) =
     (case SetString (aj_CollateralFactor a) of
        None \<Rightarrow> Err (parseError ''collateral_factor'' (aj_CollateralFactor a))
      | Some factor \<Rightarrow>
          bind_result (convertAssets eth as) (\<lambda>out.
            Ok (\<lparr>as_Symbol = aj_Symbol a, as_Token = HexToAddress eth (aj_Token a), as_Decimals = aj_Decimals a,
                 as_CollateralFactor = factor, as_PriceFeed = HexToAddress eth (aj_PriceFeed a)\<rparr> # out)))"

definition loadAssets :: "'abi Eth \<Rightarrow> string \<Rightarrow> Asset list result" where
  "loadAssets eth raw =
     (if raw = [] then Ok []
      else case unmarshalAssets raw of
          None \<Rightarrow> Err (Opaque ''json: cannot unmarshal'')
        | Some ins \<Rightarrow> convertAssets eth ins)"

definition position_any :: "Position \<Rightarrow> any" where
  "position_any p = AStruct [(''symbol'', AString (po_Symbol p)), (''balance_raw'', AString (po_BalanceRaw p)),
     (''price_usd'', AString (po_PriceUSD p)), (''value_usd'', AString (po_ValueUSD p)),
     (''collateral_factor'', AString (po_CollateralFactor p)), (''weighted_usd'', AString (po_WeightedUSD p))]"

definition report_any :: "Report \<Rightarrow> any" where
  "report_any r = AStruct [(''account'', AString (re_Account r)), (''gross_collateral_usd'', AString (re_GrossCollateralUSD r)),
     (''weighted_collateral_usd'', AString (re_WeightedCollateralUSD r)), (''debt_usd'', AString (re_DebtUSD r)),
     (''health_factor'', AString (re_HealthFactor r)), (''status'', AString (re_Status r)),
     (''positions'', ASlice (map position_any (re_Positions r)))]"

text \<open>The debt a request states: zero when it states none, \<open>None\<close> when it is no number.\<close>

definition debtOf :: "Request \<Rightarrow> rat option" where
  "debtOf r =
     (let d = query_Get (u_RawQuery (rq_URL r)) ''debt_usd'' in
      if d \<noteq> [] then SetString d else Some 0)"

definition marginHandler :: "'abi Eth \<Rightarrow> 'n Engine \<Rightarrow> 'n handler" where
  "marginHandler eth engine r =
     (let addr = PathValue r ''address'' in
      if \<not> IsHexAddress eth addr then Error 400 ''invalid address''
      else case debtOf r of
          None \<Rightarrow> Error 400 ''invalid debt_usd''
        | Some debt \<Rightarrow>
            on_err (on_state (Evaluate eth engine (HexToAddress eth addr) debt))
              (\<lambda>e. bnd (log_write ''WARN'' ''evaluate failed'' [(''error'', AString (Error_text e))]) (\<lambda>_.
                   Error 502 ''could not evaluate margin (chain read failed)''))
              (\<lambda>report. JSON 200 (report_any report)))"

definition marginRoutes :: "'abi Eth \<Rightarrow> 'n Engine \<Rightarrow> 'n route list" where
  "marginRoutes eth engine =
     [\<lparr>ro_method = ''GET'', ro_segs = [Lit ''healthz''], ro_handler = healthz\<rparr>,
      \<lparr>ro_method = ''GET'', ro_segs = [Lit ''margin'', Wild ''address''], ro_handler = marginHandler eth engine\<rparr>]"

definition marginService :: "'abi Eth \<Rightarrow> int \<Rightarrow> 'n Engine \<Rightarrow> 'n handler" where
  "marginService eth redirectCode engine =
     Chain (ServeMux redirectCode (marginRoutes eth engine)) [RequestID, Logger, Recovery]"

definition marginConfig :: "Asset list \<Rightarrow> MarginConfig" where
  "marginConfig assets = \<lparr>Assets = assets, MarginCallHF = 115 / 100, LiquidationHF = 100 / 100\<rparr>"

text \<open>\<open>dial\<close> is \<^verbatim>\<open>ethclient.DialContext\<close>; the result is what \<^verbatim>\<open>server.Run\<close> gets: the address and the handler.\<close>

definition marginMain ::
  "'abi Eth \<Rightarrow> (string \<Rightarrow> 'n ContractCaller result) \<Rightarrow> int \<Rightarrow> environ \<Rightarrow> ('n srv, string \<times> 'n handler) eff" where
  "marginMain eth dial redirectCode env =
     (let addr = EnvOr env ''MARGIN_ADDR'' '':8085'';
          rpcURL = EnvOr env ''ETH_RPC_URL'' ''https://ethereum-sepolia-rpc.publicnode.com'' in
      orExit ''dial ethereum rpc'' (lift (dial rpcURL)) (\<lambda>client.
      orExit ''init balance reader'' (lift (NewChainBalanceReader eth client)) (\<lambda>reader.
      orExit ''init oracle'' (lift (NewChainlinkOracle eth client 8)) (\<lambda>oracle.
      orExit ''parse ASSETS_JSON'' (lift (loadAssets eth (env ''ASSETS_JSON''))) (\<lambda>assets.
      bnd (if assets = [] then log_write ''WARN'' ''no ASSETS_JSON configured; every account will value to zero collateral'' []
           else ret ()) (\<lambda>_.
      ret (addr, marginService eth redirectCode
             (NewEngine (chainReader eth reader) (chainlinkOracle eth oracle) (marginConfig assets)))))))))"


section \<open>Laws\<close>

lemma margin_route:
  assumes "rq_Method r = ''GET''" and "plainSegment a"
    and "rq_URL r = \<lparr>u_Scheme = [], u_Host = [], u_Path = ''/margin/'' @ a, u_RawPath = [], u_RawQuery = q\<rparr>"
  shows "ServeMux code (marginRoutes eth engine) r = marginHandler eth engine (r\<lparr>rq_pathValues := [(''address'', a)]\<rparr>)"
proof -
  let ?ro = "\<lparr>ro_method = ''GET'', ro_segs = [Lit ''margin'', Wild ''address''], ro_handler = marginHandler eth engine\<rparr>"
  have p: "pathOf [''margin'', a] = ''/margin/'' @ a" by (simp add: pathOf_def)
  have m: "plainSegment ''margin''" by code_simp
  have "a \<noteq> ''/''" using assms(2) by (auto simp: plainSegment_def isUnreserved_not)
  then have match: "matchPath (withMethod (rq_Method r) (marginRoutes eth engine)) [''margin'', a] = Some (?ro, [a])"
    by (simp add: assms(1) withMethod_def marginRoutes_def litTails_def wildTails_def ending_def List.map_filter_def)
  have "ServeMux code (marginRoutes eth engine) r = ro_handler ?ro (r\<lparr>rq_pathValues := zip (wildNames (ro_segs ?ro)) [a]\<rparr>)"
    by (rule ServeMux_plain [OF assms(3) [folded p]]) (use assms m match in simp_all)
  then show ?thesis by (simp add: wildNames_def List.map_filter_def)
qed

text \<open>What the service answers: status, value and the chain afterwards.\<close>

definition marginAnswer :: "'abi Eth \<Rightarrow> 'n Engine \<Rightarrow> string \<Rightarrow> string \<Rightarrow> 'n \<Rightarrow> int \<times> any \<times> 'n" where
  "marginAnswer eth engine a q n =
     (let d = query_Get q ''debt_usd''; fail = (\<lambda>msg. AMap [(''error'', AString msg)]) in
      if \<not> IsHexAddress eth a then (400, fail ''invalid address'', n)
      else case (if d = [] then Some 0 else SetString d) of
          None \<Rightarrow> (400, fail ''invalid debt_usd'', n)
        | Some debt \<Rightarrow>
            (case Evaluate eth engine (HexToAddress eth a) debt n of
               (Ok report, n') \<Rightarrow> (200, report_any report, n')
             | (Err e, n') \<Rightarrow> (502, fail ''could not evaluate margin (chain read failed)'', n')
             | (Panic p, n') \<Rightarrow> (500, fail ''internal error'', n')))"

lemma marginHandler_answers:
  assumes "fresh s" and "u_RawQuery (rq_URL r) = q" and "marginAnswer eth engine a q (sv_state s) = (code, v, n)"
    and h: "\<And>s. h r s = marginHandler eth engine (r\<lparr>rq_pathValues := [(''address'', a)]\<rparr>) s"
  shows "\<exists>s2. Recovery h r s = (Ok (), s2) \<and> sv_state s2 = n \<and> sv_w s2 = answered code v (sv_w s)"
proof -
  let ?r = "r\<lparr>rq_pathValues := [(''address'', a)]\<rparr>" and ?d = "query_Get q ''debt_usd''"
  let ?debt = "if ?d = [] then Some 0 else SetString ?d"
  have pv: "PathValue ?r ''address'' = a" by (simp add: PathValue_def)
  have debt: "debtOf ?r = ?debt" by (simp add: debtOf_def assms(2) Let_def)
  show ?thesis
  proof (cases "IsHexAddress eth a \<and> ?debt \<noteq> None")
    case False
    then show ?thesis
      using assms(3) Error_fresh [OF assms(1), of 400 "''invalid address''"] Error_fresh [OF assms(1), of 400 "''invalid debt_usd''"]
      by (auto simp: Recovery_def h marginHandler_def pv debt marginAnswer_def Let_def)
  next
    case True
    then obtain debt where D: "?debt = Some debt" "IsHexAddress eth a" by blast
    obtain x n' where x: "Evaluate eth engine (HexToAddress eth a) debt (sv_state s) = (x, n')"
      by (cases "Evaluate eth engine (HexToAddress eth a) debt (sv_state s)")
    have fr: "fresh (t :: 'a srv)" if "sv_w t = sv_w s" for t using assms(1) that by (simp add: fresh_def)
    let ?s = "s\<lparr>sv_state := n'\<rparr>"
    have ev: "on_state (Evaluate eth engine (HexToAddress eth a) debt) s = (x, ?s)" by (simp add: on_state_def x)
    show ?thesis
    proof (cases x)
      case (Ok rep)
      then have "marginHandler eth engine ?r s = JSON 200 (report_any rep) ?s"
        using D by (simp add: marginHandler_def pv debt Let_def on_err_def ev)
      then show ?thesis
        using assms(3) D x Ok JSON_fresh [OF fr, of ?s 200 "report_any rep"] by (simp add: Recovery_def h marginAnswer_def Let_def)
    next
      case (Err e)
      let ?t = "?s\<lparr>sv_log := sv_log s @ [\<lparr>le_level = ''WARN'', le_msg = ''evaluate failed'', le_attrs = [(''error'', AString (Error_text e))]\<rparr>]\<rparr>"
      have "marginHandler eth engine ?r s = Error 502 ''could not evaluate margin (chain read failed)'' ?t"
        using D Err by (simp add: marginHandler_def pv debt Let_def on_err_def ev bnd_def log_write_def)
      then show ?thesis
        using assms(3) D x Err Error_fresh [OF fr, of ?t 502 "''could not evaluate margin (chain read failed)''"]
        by (simp add: Recovery_def h marginAnswer_def Let_def)
    next
      case (Panic p)
      let ?t = "?s\<lparr>sv_log := sv_log s @ [\<lparr>le_level = ''ERROR'', le_msg = ''panic recovered'',
        le_attrs = [(''panic'', AString p), (''request_id'', AString (RequestIDFrom r))]\<rparr>]\<rparr>"
      have "marginHandler eth engine ?r s = (Panic p, ?s)"
        using D Panic by (simp add: marginHandler_def pv debt Let_def on_err_def ev)
      then show ?thesis
        using assms(3) D x Panic Error_fresh [OF fr, of ?t 500 "''internal error''"]
        by (simp add: Recovery_def h marginAnswer_def Let_def bnd_def log_write_def)
    qed
  qed
qed


text \<open>The whole service on a request to its route.\<close>

lemma margin_service_run:
  assumes "rq_Method r = ''GET''" and "plainSegment a"
    and "rq_URL r = \<lparr>u_Scheme = [], u_Host = [], u_Path = ''/margin/'' @ a, u_RawPath = [], u_RawQuery = q\<rparr>"
    and "fresh s" and "marginAnswer eth engine a q (sv_state s) = (answer, v, n)"
  shows "\<exists>s'. marginService eth code engine r s = (Ok (), s') \<and> w_code (sv_w s') = Some answer \<and>
    w_Body (sv_w s') = jsonBody v \<and> sv_state s' = n"
proof -
  have "\<exists>s2. Recovery (ServeMux code (marginRoutes eth engine)) (r\<lparr>rq_requestID := Some i\<rparr>) s1 = (Ok (), s2) \<and>
      sv_state s2 = n \<and> sv_w s2 = answered answer v (sv_w s1)"
    if "fresh s1" "sv_state s1 = sv_state s" for i and s1 :: "'a srv"
  proof (rule marginHandler_answers [OF that(1)])
    show "u_RawQuery (rq_URL (r\<lparr>rq_requestID := Some i\<rparr>)) = q" by (simp add: assms(3))
    show "marginAnswer eth engine a q (sv_state s1) = (answer, v, n)" using that(2) assms(5) by simp
    show "ServeMux code (marginRoutes eth engine) (r\<lparr>rq_requestID := Some i\<rparr>) s =
        marginHandler eth engine (r\<lparr>rq_requestID := Some i, rq_pathValues := [(''address'', a)]\<rparr>) s" for s
      by (subst margin_route [OF _ assms(2)]) (simp_all add: assms(1,3))
  qed
  from stack_answers [OF this assms(4)] show ?thesis unfolding marginService_def by blast
qed


section \<open>Properties\<close>

text \<open>C12. \<^verbatim>\<open>GET /margin/{address}?debt_usd=...\<close> on the running service: a text that is no address and a debt that is no number
  are answered 400 without reading the chain; otherwise the account is evaluated once with the stated debt (zero when
  none is stated), and the answer is 200 with the report, 502 when a chain read fails, and 500 when the evaluation panics.\<close>

theorem margin_service_answers:
  assumes "rq_Method r = ''GET''" and "plainSegment a"
    and "rq_URL r = \<lparr>u_Scheme = [], u_Host = [], u_Path = ''/margin/'' @ a, u_RawPath = [], u_RawQuery = q\<rparr>"
    and "fresh s" and "marginAnswer eth engine a q (sv_state s) = (answer, v, n)"
  shows "\<exists>s'. marginService eth code engine r s = (Ok (), s') \<and> w_code (sv_w s') = Some answer \<and>
    w_Body (sv_w s') = jsonBody v \<and> sv_state s' = n"
  using assms by (rule margin_service_run)

definition demoMarginRequest :: "string \<Rightarrow> Request" where
  "demoMarginRequest q = \<lparr>rq_Method = ''GET'', rq_URL = \<lparr>u_Scheme = [], u_Host = [], u_Path = ''/margin/0xab'', u_RawPath = [], u_RawQuery = q\<rparr>,
     rq_Header = Map.empty, rq_Body = [], rq_Host = ''margin'', rq_RemoteAddr = ''10.0.0.2:1'', rq_requestID = None, rq_pathValues = []\<rparr>"

definition demoMarginEth :: "unit Eth" where
  "demoMarginEth = \<lparr>abi_JSON = (\<lambda>_. Ok ()), event_ID = (\<lambda>_ _. 0), UnpackIntoInterface = (\<lambda>_ _ _. Inr 0),
     Pack = (\<lambda>_ _ _. Ok []), Unpack = (\<lambda>_ _ _. Ok []), Hash_Hex = (\<lambda>_. []),
     Address_Hex = (\<lambda>a. ''0x''), HexToHash = (\<lambda>_. 0), HexToAddress = (\<lambda>_. 0), IsHexAddress = (\<lambda>_. True)\<rparr>"

theorem margin_service_answers_witness:
  "\<exists>s'. marginService demoMarginEth 301 (NewEngine (snapshotReader (\<lambda>_. 0)) (snapshotOracle (\<lambda>_. \<lparr>pr_Value = 1, pr_Decimals = 0\<rparr>)) (marginConfig []))
      (demoMarginRequest ''debt_usd=x'')
      \<lparr>sv_state = [], sv_clock = (\<lambda>n. \<lparr>wall = 0, mono = 0\<rparr>), sv_random = (\<lambda>n. 0), sv_log = [], sv_w = newWriter\<rparr> = (Ok (), s') \<and>
    w_code (sv_w s') = Some 400 \<and> w_Body (sv_w s') = jsonBody (AMap [(''error'', AString ''invalid debt_usd'')]) \<and> sv_state s' = []"
proof -
  let ?s = "\<lparr>sv_state = [], sv_clock = (\<lambda>n. \<lparr>wall = 0, mono = 0\<rparr>), sv_random = (\<lambda>n. 0), sv_log = [], sv_w = newWriter\<rparr>"
  have "splitOn (CHR ''&'') ''debt_usd=x'' = [''debt_usd=x'']" "queryPair ''debt_usd=x'' = Some (''debt_usd'', ''x'')" by code_simp+
  then have "query_Get ''debt_usd=x'' ''debt_usd'' = ''x''" by (simp add: query_Get_def Let_def maxQueryParams_def List.map_filter_def)
  moreover have "SetString ''x'' = None" by code_simp
  ultimately have a: "marginAnswer demoMarginEth engine ''0xab'' ''debt_usd=x'' (sv_state ?s) = (400, AMap [(''error'', AString ''invalid debt_usd'')], [])" for engine
    by (simp add: marginAnswer_def Let_def demoMarginEth_def)
  have "plainSegment ''0xab''" by code_simp
  moreover have "fresh ?s" by (simp add: fresh_def newWriter_def)
  ultimately show ?thesis
    using margin_service_answers [where r = "demoMarginRequest ''debt_usd=x''" and a = "''0xab''" and q = "''debt_usd=x''", OF _ _ _ _ a]
    by (simp add: demoMarginRequest_def)
qed

text \<open>The configured factor is documented as a decimal in [0,1]; any number is accepted.\<close>

theorem loadAssets_accepts_any_factor:
  "loadAssets eth (''[{'' @ [CHR 0x22] @ ''collateral_factor'' @ [CHR 0x22] @ '':'' @ [CHR 0x22] @ ''5'' @ [CHR 0x22] @ ''}]'') =
     Ok [\<lparr>as_Symbol = [], as_Token = HexToAddress eth [], as_Decimals = 0, as_CollateralFactor = 5, as_PriceFeed = HexToAddress eth []\<rparr>]"
proof -
  have "parsePrefix (''[{'' @ [CHR 0x22] @ ''collateral_factor'' @ [CHR 0x22] @ '':'' @ [CHR 0x22] @ ''5'' @ [CHR 0x22] @ ''}]'') =
      Some (JArr [JObj [(''collateral_factor'', JStr ''5'')]], [])" by code_simp
  moreover have "SetString ''5'' = Some 5" by code_simp
  moreover have "skipSpace [] = []" by code_simp
  ultimately show ?thesis
    by (simp add: loadAssets_def unmarshalAssets_def assetFields_def findField_def storeField_def zeroAsset_def)
qed

end
