(* ===== verification/Go_Rfc3339.thy ===== *)
theory Go_Rfc3339
  imports Go_Json
begin

text \<open>
  Reading the RFC 3339 times of \<^verbatim>\<open>encoding/json\<close> back (\<^verbatim>\<open>Time.UnmarshalJSON\<close>) and the proof that it inverts
  \<open>timeText\<close>: the calendar conversion, the fixed-width fields and the trimmed fraction.
\<close>

section \<open>Definitions\<close>

definition leapYear :: "int \<Rightarrow> bool" where
  "leapYear y \<longleftrightarrow> y mod 4 = 0 \<and> (y mod 100 \<noteq> 0 \<or> y mod 400 = 0)"

definition daysIn :: "int \<Rightarrow> int \<Rightarrow> int" where
  "daysIn m y = (if m = 2 then (if leapYear y then 29 else 28) else if m \<in> {4, 6, 9, 11} then 30 else 31)"

text \<open>The day number since 1970-01-01 of a calendar date.\<close>

definition daysFromCivil :: "int \<Rightarrow> int \<Rightarrow> int \<Rightarrow> int" where
  "daysFromCivil y m d =
     (let y' = (if m \<le> 2 then y - 1 else y);
          yoe = y' mod 400;
          mp = (if m > 2 then m - 3 else m + 9);
          doy = (153 * mp + 2) div 5 + d - 1
      in y' div 400 * 146097 + (365 * yoe + yoe div 4 - yoe div 100 + doy) - 719468)"

text \<open>A field of digits with its range, and \<^verbatim>\<open>parseNanoseconds\<close>: digits beyond the ninth are dropped.\<close>

definition field :: "nat \<Rightarrow> nat \<Rightarrow> string \<Rightarrow> nat option" where
  "field lo hi s = (if list_all is_digit s \<and> lo \<le> dec_value s \<and> dec_value s \<le> hi then Some (dec_value s) else None)"

definition nanoseconds :: "string \<Rightarrow> nat" where
  "nanoseconds ds = dec_value (take 9 (ds @ replicate 9 (CHR ''0'')))"

text \<open>The offset of a zone in seconds: \<^verbatim>\<open>Z\<close> or a signed \<^verbatim>\<open>hh:mm\<close>.\<close>

definition parseZone :: "string \<Rightarrow> int option" where
  "parseZone s =
     (if s = ''Z'' then Some 0
      else if length s \<noteq> 6 then None
      else case (field 0 23 (take 2 (drop 1 s)), field 0 59 (take 2 (drop 4 s))) of
          (Some hr, Some mm) \<Rightarrow>
            if s ! 3 \<noteq> CHR '':'' then None
            else if s ! 0 = CHR ''+'' then Some (int (hr * 3600 + mm * 60))
            else if s ! 0 = CHR ''-'' then Some (- int (hr * 3600 + mm * 60))
            else None
        | _ \<Rightarrow> None)"

text \<open>\<^verbatim>\<open>parseStrictRFC3339\<close>, in nanoseconds since the epoch.\<close>

definition parseRFC3339 :: "string \<Rightarrow> int option" where
  "parseRFC3339 s =
     (if length s < 19 then None
      else case (field 0 9999 (take 4 s), field 1 12 (take 2 (drop 5 s))) of
          (Some y, Some m) \<Rightarrow>
            (case (field 1 (nat (daysIn (int m) (int y))) (take 2 (drop 8 s)), field 0 23 (take 2 (drop 11 s)),
                   field 0 59 (take 2 (drop 14 s)), field 0 59 (take 2 (drop 17 s))) of
               (Some d, Some h, Some mi, Some sec) \<Rightarrow>
                 if s ! 4 = CHR ''-'' \<and> s ! 7 = CHR ''-'' \<and> s ! 10 = CHR ''T'' \<and> s ! 13 = CHR '':'' \<and> s ! 16 = CHR '':'' then
                   (let r = drop 19 s;
                        (ns, z) = (case r of
                           c # r' \<Rightarrow> if c = CHR ''.'' \<and> takeWhile is_digit r' \<noteq> []
                                     then (nanoseconds (takeWhile is_digit r'), dropWhile is_digit r') else (0, r)
                         | [] \<Rightarrow> (0, r))
                    in map_option (\<lambda>off.
                         (daysFromCivil (int y) (int m) (int d) * 86400 + int h * 3600 + int mi * 60 + int sec - off) * 1000000000
                         + int ns) (parseZone z))
                 else None
             | _ \<Rightarrow> None)
        | _ \<Rightarrow> None)"


section \<open>The calendar\<close>

text \<open>Days before the year \<open>y\<close> of an era, years counted from March.\<close>

definition daysBefore :: "int \<Rightarrow> int" where
  "daysBefore y = 365 * y + y div 4 - y div 100"

definition yearOfEra :: "int \<Rightarrow> int" where
  "yearOfEra doe = (doe - doe div 1460 + doe div 36524 - doe div 146096) div 365"

lemma div_advance: "0 < k \<Longrightarrow> a \<le> b \<Longrightarrow> b div k - a div k \<le> b - (a :: int)"
proof -
  assume k: "0 < k" and ab: "a \<le> b"
  have "b div k \<le> (a + (b - a) * k) div k" using k ab mult_left_mono [of 1 k "b - a"] by (intro zdiv_mono1) auto
  also have "\<dots> = a div k + (b - a)" using k by simp
  finally show ?thesis by simp
qed

lemma yearOfEra_mono_below:
  assumes "0 \<le> a" "a \<le> b" "b < 146096"
  shows "yearOfEra a \<le> yearOfEra b"
proof -
  have "a div 146096 = 0" "b div 146096 = 0" using assms by auto
  moreover have "a - a div 1460 \<le> b - b div 1460" using div_advance [of 1460 a b] assms(2) by simp
  moreover have "a div 36524 \<le> b div 36524" using assms(2) by (rule zdiv_mono1) simp
  ultimately show ?thesis unfolding yearOfEra_def by (intro zdiv_mono1) linarith+
qed

lemma yearOfEra_last: "yearOfEra 146096 = 399" "yearOfEra 146095 = 399" "yearOfEra 0 = 0"
  by (simp_all add: yearOfEra_def)

lemma yearOfEra_mono:
  assumes "0 \<le> a" "a \<le> b" "b < 146097"
  shows "yearOfEra a \<le> yearOfEra b"
proof (cases "b = 146096")
  case True
  show ?thesis
  proof (cases "a = 146096")
    case False
    then have "yearOfEra a \<le> yearOfEra 146095" using True assms by (intro yearOfEra_mono_below) auto
    then show ?thesis by (simp add: True yearOfEra_last)
  qed (simp add: True)
next
  case False
  then show ?thesis using assms by (intro yearOfEra_mono_below) auto
qed

lemma yearOfEra_ends:
  "list_all (\<lambda>y. yearOfEra (daysBefore y) = y \<and> yearOfEra (daysBefore (y + 1) - 1) = y) [0..399]"
  by code_simp

lemma daysBefore_bounds: "0 \<le> y \<Longrightarrow> y \<le> 400 \<Longrightarrow> 0 \<le> daysBefore y \<and> daysBefore y < 146097"
proof -
  assume y: "0 \<le> y" "y \<le> 400"
  have "list_all (\<lambda>y. 0 \<le> daysBefore y \<and> daysBefore y < 146097) [0..400]" by code_simp
  then show ?thesis using y by (simp add: list_all_iff)
qed

lemma yearOfEra_correct:
  assumes "0 \<le> doe" "doe < 146097"
  shows "0 \<le> yearOfEra doe" "yearOfEra doe \<le> 399" "daysBefore (yearOfEra doe) \<le> doe"
    and "doe < daysBefore (yearOfEra doe + 1) \<or> yearOfEra doe = 399 \<and> doe = 146096"
proof -
  let ?y = "yearOfEra doe"
  show y0: "0 \<le> ?y" using yearOfEra_mono [of 0 doe] assms yearOfEra_last(3) by simp
  show y1: "?y \<le> 399" using yearOfEra_mono [of doe 146096] assms yearOfEra_last(1) by simp
  have ends: "yearOfEra (daysBefore y) = y" "yearOfEra (daysBefore (y + 1) - 1) = y" if "0 \<le> y" "y \<le> 399" for y
    using yearOfEra_ends that by (simp_all add: list_all_iff)
  show "daysBefore ?y \<le> doe"
  proof (rule ccontr)
    assume "\<not> ?thesis"
    then have lt: "doe \<le> daysBefore ?y - 1" by simp
    have "?y \<noteq> 0"
    proof
      assume "?y = 0"
      then show False using lt assms(1) by (simp add: daysBefore_def)
    qed
    then have "0 \<le> ?y - 1" using y0 by simp
    then have "yearOfEra (daysBefore ?y - 1) = ?y - 1" using ends(2) [of "?y - 1"] y1 by simp
    moreover have "?y \<le> yearOfEra (daysBefore ?y - 1)"
      using yearOfEra_mono [OF assms(1) lt] daysBefore_bounds [of ?y] y0 y1 by simp
    ultimately show False by simp
  qed
  show "doe < daysBefore (?y + 1) \<or> ?y = 399 \<and> doe = 146096"
  proof (cases "?y = 399")
    case True
    then show ?thesis using assms(2) by (auto simp: daysBefore_def)
  next
    case False
    show ?thesis
    proof (rule ccontr)
      assume "\<not> ?thesis"
      then have ge: "daysBefore (?y + 1) \<le> doe" by simp
      have "yearOfEra (daysBefore (?y + 1)) \<le> ?y"
        using yearOfEra_mono [OF _ ge assms(2)] daysBefore_bounds [of "?y + 1"] y0 y1 by simp
      then show False using ends(1) [of "?y + 1"] y0 y1 False by simp
    qed
  qed
qed

lemma daysBefore_step:
  "0 \<le> y \<Longrightarrow> y < 399 \<Longrightarrow> daysBefore (y + 1) - daysBefore y = (if leapYear (y + 1) then 366 else 365)"
proof -
  assume y: "0 \<le> y" "y < 399"
  have "list_all (\<lambda>y. daysBefore (y + 1) - daysBefore y = (if leapYear (y + 1) then 366 else 365)) [0..398]" by code_simp
  then show ?thesis using y by (simp add: list_all_iff)
qed

text \<open>The month from the day of a year that starts in March.\<close>

lemma month_days:
  "list_all (\<lambda>doy. let mp = (5 * doy + 2) div 153; d = doy - (153 * mp + 2) div 5 + 1; m = (if mp < 10 then mp + 3 else mp - 9)
     in 0 \<le> mp \<and> mp \<le> 11 \<and> 1 \<le> d \<and> d \<le> (if m = 2 then (if doy = 365 then 29 else 28) else daysIn m 1)) [0..365]"
  by code_simp

lemma civil_inverse:
  assumes "civil days = (y, m, d)"
  shows "daysFromCivil y m d = days" "1 \<le> m" "m \<le> 12" "1 \<le> d" "d \<le> daysIn m y"
proof -
  define z where "z = days + 719468"
  define era where "era = z div 146097"
  define doe where "doe = z - era * 146097"
  define yoe where "yoe = yearOfEra doe"
  define doy where "doy = doe - daysBefore yoe"
  define mp where "mp = (5 * doy + 2) div 153"
  have "civil days = (yoe + era * 400 + (if (if mp < 10 then mp + 3 else mp - 9) \<le> 2 then 1 else 0),
      if mp < 10 then mp + 3 else mp - 9, doy - (153 * mp + 2) div 5 + 1)"
    unfolding civil_def Let_def z_def [symmetric] era_def [symmetric] doe_def [symmetric] yearOfEra_def [symmetric]
      yoe_def [symmetric] daysBefore_def [symmetric] doy_def [symmetric] mp_def [symmetric] by (rule refl)
  then have civ: "m = (if mp < 10 then mp + 3 else mp - 9)" "d = doy - (153 * mp + 2) div 5 + 1"
    "y = yoe + era * 400 + (if m \<le> 2 then 1 else 0)"
    using assms by simp_all
  have doe: "0 \<le> doe" "doe < 146097" unfolding doe_def era_def by (simp_all add: minus_div_mult_eq_mod)
  note yc = yearOfEra_correct [OF doe, folded yoe_def]
  have doy: "0 \<le> doy" "doy \<le> 365" and feb: "doy = 365 \<Longrightarrow> leapYear (yoe + 1)"
  proof -
    show "0 \<le> doy" using yc(3) by (simp add: doy_def)
    have "doy \<le> (if leapYear (yoe + 1) then 365 else 364)"
    proof (cases "yoe = 399")
      case True
      then show ?thesis using doe(2) by (simp add: doy_def daysBefore_def leapYear_def)
    next
      case False
      then show ?thesis using yc daysBefore_step [of yoe] by (simp add: doy_def split: if_splits)
    qed
    then show "doy \<le> 365" "doy = 365 \<Longrightarrow> leapYear (yoe + 1)" by (simp_all split: if_splits)
  qed
  have "doy \<in> set [0..365]" using doy by simp
  with month_days have "let mp = (5 * doy + 2) div 153; d = doy - (153 * mp + 2) div 5 + 1; m = (if mp < 10 then mp + 3 else mp - 9)
     in 0 \<le> mp \<and> mp \<le> 11 \<and> 1 \<le> d \<and> d \<le> (if m = 2 then (if doy = 365 then 29 else 28) else daysIn m 1)"
    unfolding list_all_iff by blast
  then have md: "0 \<le> mp" "mp \<le> 11" "1 \<le> d" "d \<le> (if m = 2 then (if doy = 365 then 29 else 28) else daysIn m 1)"
    unfolding Let_def civ mp_def [symmetric] by blast+
  show m: "1 \<le> m" "m \<le> 12" using md(1,2) unfolding civ(1) by (simp_all split: if_splits)
  show "1 \<le> d" by fact
  have leap: "leapYear (a + 400 * k) = leapYear a" for a k
  proof -
    have "(a + 4 * (100 * k)) mod 4 = a mod 4" "(a + 100 * (4 * k)) mod 100 = a mod 100" "(a + 400 * k) mod 400 = a mod 400"
      by (rule mod_mult_self2)+
    then show ?thesis by (simp add: leapYear_def)
  qed
  show "d \<le> daysIn m y"
  proof (cases "m = 2")
    case True
    then have "y = (yoe + 1) + 400 * era" using civ(3) by simp
    then have "leapYear y = leapYear (yoe + 1)" using leap [of "yoe + 1" era] by simp
    then show ?thesis using md(4) feb True by (auto simp: daysIn_def split: if_splits)
  qed (use md(4) in \<open>simp add: daysIn_def\<close>)
  have y': "(if m \<le> 2 then y - 1 else y) = yoe + era * 400" using civ(3) by simp
  have mp: "(if m > 2 then m - 3 else m + 9) = mp" using civ(1) md(1,2) by (simp split: if_splits)
  have "(yoe + era * 400) div 400 = era" "(yoe + era * 400) mod 400 = yoe" using yc(1,2) by simp_all
  then have "daysFromCivil y m d = era * 146097 + (daysBefore yoe + ((153 * mp + 2) div 5 + d - 1)) - 719468"
    by (simp add: daysFromCivil_def Let_def y' mp daysBefore_def)
  also have "\<dots> = days" by (simp add: civ(2) doy_def doe_def z_def)
  finally show "daysFromCivil y m d = days" .
qed


section \<open>The text\<close>

lemma length_digits [simp]: "length (digits k n) = k"
  by (induction k arbitrary: n) simp_all

lemma digits_are_digits: "list_all is_digit (digits k n)"
  by (induction k arbitrary: n) (simp_all add: is_digit_digit_char)

lemma dec_value_digits: "dec_value (digits k n) = n mod 10 ^ k"
proof (induction k arbitrary: n)
  case (Suc k)
  have "n mod (10 * 10 ^ k) = 10 * (n div 10 mod 10 ^ k) + n mod 10" by (simp add: mod_mult2_eq)
  then show ?case by (simp add: Suc dec_value_snoc digit_val_digit_char)
qed (simp add: dec_value_def)

lemma field_digits: "n < 10 ^ k \<Longrightarrow> lo \<le> n \<Longrightarrow> n \<le> hi \<Longrightarrow> field lo hi (digits k n) = Some n"
  by (simp add: field_def digits_are_digits dec_value_digits)

text \<open>A list of digits without its trailing zeros.\<close>

definition trimZeros :: "string \<Rightarrow> string" where
  "trimZeros ds = rev (dropWhile (\<lambda>c. c = CHR ''0'') (rev ds))"

lemma trimZeros_append: "trimZeros ds @ replicate (length ds - length (trimZeros ds)) (CHR ''0'') = ds"
proof -
  let ?z = "\<lambda>c. c = CHR ''0''"
  have tw: "takeWhile ?z xs = replicate (length (takeWhile ?z xs)) (CHR ''0'')" for xs
    by (induction xs) auto
  have "ds = rev (takeWhile ?z (rev ds) @ dropWhile ?z (rev ds))" by simp
  also have "\<dots> = trimZeros ds @ replicate (length (takeWhile ?z (rev ds))) (CHR ''0'')"
    unfolding rev_append trimZeros_def by (subst tw) simp
  finally have eq: "ds = trimZeros ds @ replicate (length (takeWhile ?z (rev ds))) (CHR ''0'')" .
  then have "length ds = length (trimZeros ds) + length (takeWhile ?z (rev ds))" by (metis length_append length_replicate)
  then show ?thesis using eq by simp
qed

lemma trimZeros_digits: "list_all is_digit ds \<Longrightarrow> list_all is_digit (trimZeros ds)"
  by (metis trimZeros_append list_all_append)

lemma trimZeros_Nil: "trimZeros ds = [] \<Longrightarrow> dec_value ds = 0"
proof -
  assume "trimZeros ds = []"
  then have "ds = replicate (length ds) (CHR ''0'')" using trimZeros_append [of ds] by simp
  moreover have "dec_value (replicate n (CHR ''0'')) = 0" for n
    by (induction n) (simp_all add: dec_value_def digit_val_def)
  ultimately show ?thesis by metis
qed

lemma nanoseconds_trim:
  assumes "length ds = 9"
  shows "nanoseconds (trimZeros ds) = dec_value ds"
proof -
  let ?t = "trimZeros ds"
  have le: "length ?t \<le> 9" using trimZeros_append [of ds] assms by (metis length_append le_add1)
  have "take 9 (?t @ replicate 9 (CHR ''0'')) = ?t @ replicate (9 - length ?t) (CHR ''0'')"
    using le by (simp add: min_def)
  also have "\<dots> = ds" using trimZeros_append [of ds] assms by simp
  finally show ?thesis by (simp add: nanoseconds_def)
qed

lemma fraction_text:
  assumes "ns < 1000000000"
  shows "(ns = 0 \<and> fraction ns = []) \<or>
    (\<exists>ds. fraction ns = CHR ''.'' # ds \<and> ds \<noteq> [] \<and> list_all is_digit ds \<and> nanoseconds ds = ns)"
proof (cases "ns = 0")
  case False
  have v: "dec_value (digits 9 ns) = ns" using assms by (simp add: dec_value_digits)
  then have "trimZeros (digits 9 ns) \<noteq> []" using trimZeros_Nil False by metis
  then show ?thesis
    using False v by (simp add: fraction_def trimZeros_def [symmetric] nanoseconds_trim trimZeros_digits digits_are_digits)
qed (simp add: fraction_def)

lemma list_of_2: "length xs = 2 \<Longrightarrow> \<exists>a b. xs = [a, b]"
  by (auto simp: numeral_eq_Suc length_Suc_conv)

lemma list_of_4: "length xs = 4 \<Longrightarrow> \<exists>a b c d. xs = [a, b, c, d]"
  by (auto simp: numeral_eq_Suc length_Suc_conv)

lemma parseZone_Z [simp]: "parseZone ''Z'' = Some 0"
  by (simp add: parseZone_def)

lemma parse_fields:
  assumes Y: "field 0 9999 Y = Some y" "length Y = 4" and M: "field 1 12 M = Some m" "length M = 2"
    and D: "field 1 (nat (daysIn (int m) (int y))) D = Some d" "length D = 2" and H: "field 0 23 H = Some h" "length H = 2"
    and I: "field 0 59 I = Some mi" "length I = 2" and S: "field 0 59 S = Some sec" "length S = 2"
    and ns: "ns < 1000000000"
  shows "parseRFC3339 (Y @ ''-'' @ M @ ''-'' @ D @ ''T'' @ H @ '':'' @ I @ '':'' @ S @ fraction ns @ ''Z'') =
    Some ((daysFromCivil (int y) (int m) (int d) * 86400 + int h * 3600 + int mi * 60 + int sec) * 1000000000 + int ns)"
proof -
  obtain y1 y2 y3 y4 where Y': "Y = [y1, y2, y3, y4]" using list_of_4 [OF Y(2)] by blast
  obtain m1 m2 where M': "M = [m1, m2]" using list_of_2 [OF M(2)] by blast
  obtain d1 d2 where D': "D = [d1, d2]" using list_of_2 [OF D(2)] by blast
  obtain h1 h2 where H': "H = [h1, h2]" using list_of_2 [OF H(2)] by blast
  obtain i1 i2 where I': "I = [i1, i2]" using list_of_2 [OF I(2)] by blast
  obtain s1 s2 where S': "S = [s1, s2]" using list_of_2 [OF S(2)] by blast
  have Z: "\<not> is_digit (CHR ''Z'')" by (simp add: is_digit_def)
  note f = Y(1) [unfolded Y'] M(1) [unfolded M'] D(1) [unfolded D'] H(1) [unfolded H'] I(1) [unfolded I'] S(1) [unfolded S']
  from fraction_text [OF ns] show ?thesis
  proof (elim disjE exE conjE)
    assume "ns = 0" "fraction ns = []"
    then show ?thesis unfolding Y' M' D' H' I' S' by (simp add: parseRFC3339_def f f [simplified])
  next
    fix ds assume ds: "fraction ns = CHR ''.'' # ds" "ds \<noteq> []" "list_all is_digit ds" "nanoseconds ds = ns"
    have "takeWhile is_digit (ds @ ''Z'') = ds" "dropWhile is_digit (ds @ ''Z'') = ''Z''"
      using ds(3) Z by (auto simp: list_all_iff takeWhile_append2 dropWhile_append2)
    then show ?thesis unfolding Y' M' D' H' I' S' by (simp add: parseRFC3339_def f f [simplified] ds)
  qed
qed

text \<open>Reading a printed time gives the time.\<close>

lemma parse_timeText:
  assumes "timeText t = Some s"
  shows "parseRFC3339 s = Some t"
proof -
  define sec where "sec = t div 1000000000"
  define ns where "ns = nat (t mod 1000000000)"
  define sod where "sod = nat (sec mod 86400)"
  obtain y m d where civ: "civil (sec div 86400) = (y, m, d)" by (cases "civil (sec div 86400)")
  note inv = civil_inverse [OF civ]
  have y: "0 \<le> y" "y \<le> 9999" and s: "s = digits 4 (nat y) @ ''-'' @ digits 2 (nat m) @ ''-'' @ digits 2 (nat d) @ ''T'' @
      digits 2 (sod div 3600) @ '':'' @ digits 2 (sod div 60 mod 60) @ '':'' @ digits 2 (sod mod 60) @ fraction ns @ ''Z''"
    using assms by (auto simp: timeText_def Let_def civ sec_def [symmetric] ns_def [symmetric] sod_def [symmetric] split: if_splits)
  have sod: "sod < 86400" unfolding sod_def by (simp add: nat_less_iff)
  have dim: "daysIn m y \<le> 31" by (simp add: daysIn_def)
  have nm: "int (nat y) = y" "int (nat m) = m" "int (nat d) = d" using y inv by simp_all
  have hh: "sod div 3600 \<le> 23" using sod by (simp add: less_mult_imp_div_less [of _ 24] less_Suc_eq_le [symmetric])
  have ss: "int sod = int (sod div 3600) * 3600 + int (sod div 60 mod 60) * 60 + int (sod mod 60)"
  proof -
    have "sod = sod div 60 * 60 + sod mod 60" by simp
    moreover have "sod div 60 = sod div 60 div 60 * 60 + sod div 60 mod 60" by simp
    moreover have "sod div 60 div 60 = sod div 3600" by (simp add: div_mult2_eq [symmetric])
    ultimately have "sod = (sod div 3600 * 60 + sod div 60 mod 60) * 60 + sod mod 60" by metis
    then have "int sod = int ((sod div 3600 * 60 + sod div 60 mod 60) * 60 + sod mod 60)" by (rule arg_cong)
    moreover have "x = (a * 60 + b) * 60 + c \<Longrightarrow> x = a * 3600 + b * 60 + c" for x a b c :: int by simp
    ultimately show ?thesis unfolding of_nat_add of_nat_mult of_nat_numeral by blast
  qed
  have "parseRFC3339 s = Some ((daysFromCivil (int (nat y)) (int (nat m)) (int (nat d)) * 86400 + int (sod div 3600) * 3600
      + int (sod div 60 mod 60) * 60 + int (sod mod 60)) * 1000000000 + int ns)"
    unfolding s
  proof (rule parse_fields)
    show "field 0 9999 (digits 4 (nat y)) = Some (nat y)" using y by (intro field_digits) auto
    show "field 1 12 (digits 2 (nat m)) = Some (nat m)" using inv(2,3) by (intro field_digits) auto
    show "field 1 (nat (daysIn (int (nat m)) (int (nat y)))) (digits 2 (nat d)) = Some (nat d)"
      using inv(4,5) dim unfolding nm by (intro field_digits) auto
    show "field 0 23 (digits 2 (sod div 3600)) = Some (sod div 3600)" using hh by (intro field_digits) auto
    show "field 0 59 (digits 2 (sod div 60 mod 60)) = Some (sod div 60 mod 60)"
      "field 0 59 (digits 2 (sod mod 60)) = Some (sod mod 60)"
      by (intro field_digits; simp add: less_Suc_eq_le [symmetric] order_less_trans [of _ 60])+
    show "ns < 1000000000" unfolding ns_def by (simp add: nat_less_iff)
  qed simp_all
  also have "\<dots> = Some ((daysFromCivil y m d * 86400 + int sod) * 1000000000 + int ns)" unfolding nm ss by (simp add: algebra_simps)
  also have "\<dots> = Some t"
  proof -
    have "sec div 86400 * 86400 + int sod = sec" unfolding sod_def by simp
    then show ?thesis unfolding inv(1) by (simp add: sec_def ns_def)
  qed
  finally show ?thesis .
qed

text \<open>Printed times contain no byte that needs escaping.\<close>

definition plainByte :: "char \<Rightarrow> bool" where
  "plainByte c \<longleftrightarrow> is_digit c \<or> c \<in> set ''-:.TZ''"

lemma timeText_plain:
  assumes "timeText t = Some s"
  shows "list_all plainByte s"
proof -
  have dg: "list_all plainByte xs" if "list_all is_digit xs" for xs
    using that by (simp add: list_all_iff plainByte_def)
  have fr: "list_all plainByte (fraction n)" for n
    using dg [OF trimZeros_digits [OF digits_are_digits [of 9 n]]]
    by (simp add: fraction_def trimZeros_def [symmetric] plainByte_def)
  show ?thesis
    using assms dg [OF digits_are_digits] fr
    by (auto simp: timeText_def Let_def split: prod.splits if_splits) (simp_all add: plainByte_def)
qed

end
