(* ===== verification/Go_Json_Laws.thy ===== *)
theory Go_Json_Laws
  imports Go_Rfc3339
begin

text \<open>
  Laws of the JSON model: reading a marshalled value gives its shape back, with any text after it
  (\<open>parse_marshal\<close>), and \<^verbatim>\<open>compact\<close>, which \<^verbatim>\<open>Marshal\<close> applies to raw messages, keeps a marshalled text
  (\<open>compact_marshal\<close>).
\<close>

section \<open>Definitions\<close>

text \<open>A text with its malformed bytes replaced by U+FFFD, as the decoder sees it.\<close>

fun coerceUTF8 :: "nat \<Rightarrow> string \<Rightarrow> string" where
  "coerceUTF8 0 s = []"
| "coerceUTF8 (Suc k) [] = []"
| "coerceUTF8 (Suc k) (c # cs) =
     (if byte c < 0x80 then c # coerceUTF8 k cs
      else if runeLen (c # cs) = 0 then encodeRune 0xFFFD @ coerceUTF8 k cs
      else take (runeLen (c # cs)) (c # cs) @ coerceUTF8 k (drop (runeLen (c # cs)) (c # cs)))"

definition validText :: "string \<Rightarrow> string" where
  "validText s = coerceUTF8 (length s) s"

fun shape :: "any \<Rightarrow> json" where
  "shape ANil = JNull"
| "shape (ABool b) = JBool b"
| "shape (AInt i) = JNum (itoa i)"
| "shape (AString s) = JStr (validText s)"
| "shape (ATime t) = JStr (the (timeText t))"
| "shape (ASlice vs) = JArr (map shape vs)"
| "shape (AMap kvs) = JObj (map (\<lambda>(k, j). (validText k, j)) (sortKeys (map (\<lambda>(k, v). (k, shape v)) kvs)))"
| "shape (AStruct kvs) = JObj (map (\<lambda>(k, v). (validText k, shape v)) kvs)"

fun nesting :: "any \<Rightarrow> nat" where
  "nesting (ASlice vs) = Suc (Max (insert 0 (set (map nesting vs))))"
| "nesting (AMap kvs) = Suc (Max (insert 0 (set (map (\<lambda>(k, v). nesting v) kvs))))"
| "nesting (AStruct kvs) = Suc (Max (insert 0 (set (map (\<lambda>(k, v). nesting v) kvs))))"
| "nesting v = 0"

text \<open>\<^verbatim>\<open>appendCompact\<close> with HTML escaping: white space outside strings goes, angle brackets, ampersands and the
  line separators U+2028 and U+2029 are escaped; a text that is no JSON value is refused.\<close>

datatype place = Outside | InString | Escaped

definition stepPlace :: "place \<Rightarrow> char \<Rightarrow> place" where
  "stepPlace p c =
     (case p of
        Outside \<Rightarrow> if c = CHR 0x22 then InString else Outside
      | InString \<Rightarrow> if c = CHR 0x22 then Outside else if c = CHR 0x5C then Escaped else InString
      | Escaped \<Rightarrow> InString)"

definition lineSeparator :: "string \<Rightarrow> bool" where
  "lineSeparator s \<longleftrightarrow> take 3 s = [CHR 0xE2, CHR 0x80, CHR 0xA8] \<or> take 3 s = [CHR 0xE2, CHR 0x80, CHR 0xA9]"

fun compactBytes :: "place \<Rightarrow> string \<Rightarrow> string" where
  "compactBytes p [] = []"
| "compactBytes p (c # cs) =
     (if lineSeparator (c # cs)
      then CHR 0x5C # ''u202'' @ [hexDigit (byte (cs ! 1) mod 16)] @ compactBytes (stepPlace p c) (drop 2 cs)
      else if byte c \<in> {0x3C, 0x3E, 0x26}
      then CHR 0x5C # ''u00'' @ [hexDigit (byte c div 16), hexDigit (byte c mod 16)] @ compactBytes (stepPlace p c) cs
      else (if p = Outside \<and> isSpace c then [] else [c]) @ compactBytes (stepPlace p c) cs)"

definition compactJSON :: "string \<Rightarrow> string option" where
  "compactJSON s = (case parsePrefix s of
       Some (_, rest) \<Rightarrow> if skipSpace rest = [] then Some (compactBytes Outside s) else None
     | None \<Rightarrow> None)"


section \<open>Strings\<close>

lemma runeLen_le: "runeLen s \<le> length s"
  by (auto simp: runeLen_def Let_def split: list.splits)

lemma runeLen_cases:
  assumes "runeLen s = n" and "n \<noteq> 0"
  obtains (one) c cs where "s = c # cs" "n = 1" "byte c < 0x80"
  | (two) c c1 cs where "s = c # c1 # cs" "n = 2" "0xC2 \<le> byte c" "byte c \<le> 0xDF" "isCont 0x80 0xBF c1"
  | (three) c c1 c2 cs where "s = c # c1 # c2 # cs" "n = 3" "0xE0 \<le> byte c" "byte c \<le> 0xEF"
      "isCont (if byte c = 0xE0 then 0xA0 else 0x80) (if byte c = 0xED then 0x9F else 0xBF) c1" "isCont 0x80 0xBF c2"
  | (four) c c1 c2 c3 cs where "s = c # c1 # c2 # c3 # cs" "n = 4" "0xF0 \<le> byte c" "byte c \<le> 0xF4"
      "isCont (if byte c = 0xF0 then 0x90 else 0x80) (if byte c = 0xF4 then 0x8F else 0xBF) c1"
      "isCont 0x80 0xBF c2" "isCont 0x80 0xBF c3"
proof -
  obtain c cs where s: "s = c # cs" using assms by (cases s) (simp_all add: runeLen_def)
  consider "byte c < 0x80" | "0xC2 \<le> byte c" "byte c \<le> 0xDF" | "0xE0 \<le> byte c" "byte c \<le> 0xEF"
    | "0xF0 \<le> byte c" "byte c \<le> 0xF4"
    | "\<not> byte c < 0x80" "\<not> (0xC2 \<le> byte c \<and> byte c \<le> 0xDF)" "\<not> (0xE0 \<le> byte c \<and> byte c \<le> 0xEF)"
      "\<not> (0xF0 \<le> byte c \<and> byte c \<le> 0xF4)"
    by linarith
  then show thesis
  proof cases
    case 1
    then show thesis using assms s one by (simp add: runeLen_def Let_def)
  next
    case 2
    then show thesis using assms s two by (cases cs) (auto simp: runeLen_def Let_def split: if_splits)
  next
    case 3
    obtain c1 c2 ds where cs: "cs = c1 # c2 # ds"
      using assms s 3 by (cases cs rule: remdups_adj.cases) (auto simp: runeLen_def Let_def)
    let ?ok = "isCont (if byte c = 0xE0 then 0xA0 else 0x80) (if byte c = 0xED then 0x9F else 0xBF) c1 \<and> isCont 0x80 0xBF c2"
    have "runeLen s = (if ?ok then 3 else 0)" unfolding s cs runeLen_def Let_def using 3 by simp
    then show thesis using assms 3 three [OF s [unfolded cs]] by (cases ?ok) simp_all
  next
    case 4
    obtain c1 c2 c3 ds where cs: "cs = c1 # c2 # c3 # ds"
    proof (cases cs)
      case (Cons a as)
      then show ?thesis using assms s 4 that
        by (cases as rule: remdups_adj.cases) (auto simp: runeLen_def Let_def)
    qed (use assms s 4 in \<open>simp add: runeLen_def Let_def\<close>)
    let ?ok = "isCont (if byte c = 0xF0 then 0x90 else 0x80) (if byte c = 0xF4 then 0x8F else 0xBF) c1 \<and>
      isCont 0x80 0xBF c2 \<and> isCont 0x80 0xBF c3"
    have "runeLen s = (if ?ok then 4 else 0)" unfolding s cs runeLen_def Let_def using 4 by simp
    then show thesis using assms 4 four [OF s [unfolded cs]] by (cases ?ok) simp_all
  next
    case 5
    then have "runeLen s = 0" by (simp only: s runeLen_def Let_def list.case if_False)
    then show thesis using assms by simp
  qed
qed

lemma runeLen_append:
  assumes "runeLen s = n" and "n \<noteq> 0"
  shows "runeLen (take n s @ t) = n"
  using assms
proof (cases rule: runeLen_cases)
  case (three c c1 c2 cs)
  then show ?thesis by (simp add: runeLen_def Let_def)
next
  case (four c c1 c2 c3 cs)
  then show ?thesis by (simp add: runeLen_def Let_def numeral_eq_Suc)
qed (simp_all add: runeLen_def Let_def)

lemma hexVal_hexDigit: "d < 16 \<Longrightarrow> hexVal (hexDigit d) = Some d"
  by (auto simp: hexVal_def hexDigit_def byte_def Let_def)


lemma byte_inject: "byte a = byte b \<longleftrightarrow> a = b"
  by (simp add: byte_def)

lemma char_of_byte [simp]: "char_of (byte c) = c"
  by (simp add: byte_def)

lemma byte_char_of: "n < 256 \<Longrightarrow> byte (char_of n) = n"
  by (simp add: byte_def)

lemma byte_eq_char:
  "byte c = 0x22 \<Longrightarrow> c = CHR 0x22" "byte c = 0x5C \<Longrightarrow> c = CHR 0x5C" "byte c = 8 \<Longrightarrow> c = CHR 0x08" "byte c = 12 \<Longrightarrow> c = CHR 0x0C"
  "byte c = 10 \<Longrightarrow> c = CHR 0x0A" "byte c = 13 \<Longrightarrow> c = CHR 0x0D" "byte c = 9 \<Longrightarrow> c = CHR 0x09"
  using byte_inject [of c "CHR 0x22"] byte_inject [of c "CHR 0x5C"] byte_inject [of c "CHR 0x08"] byte_inject [of c "CHR 0x0C"]
    byte_inject [of c "CHR 0x0A"] byte_inject [of c "CHR 0x0D"] byte_inject [of c "CHR 0x09"]
  by (simp_all add: byte_def)

lemma hex4_low:
  "b < 0x80 \<Longrightarrow> hex4 (CHR ''0'' # CHR ''0'' # hexDigit (b div 16) # hexDigit (b mod 16) # t) = Some (b, t)"
proof -
  assume b: "b < 0x80"
  have "hexVal (CHR ''0'') = Some 0" by (simp add: hexVal_def byte_def)
  moreover have "hexVal (hexDigit (b div 16)) = Some (b div 16)" "hexVal (hexDigit (b mod 16)) = Some (b mod 16)"
    using b by (intro hexVal_hexDigit; simp)+
  ultimately show ?thesis by (simp add: hex4_def)
qed

lemma parse_low_escape:
  assumes "byte c < 0x80"
  shows "parseString (Suc k) (CHR 0x5C # CHR ''u'' # CHR ''0'' # CHR ''0'' # hexDigit (byte c div 16) # hexDigit (byte c mod 16) # t) =
    map_option (\<lambda>(u, r). (c # u, r)) (parseString k t)"
proof -
  have "encodeRune (byte c) = [c]" using assms by (simp add: encodeRune_def Let_def)
  then show ?thesis using assms by (simp add: unicodeEscape_def hex4_low)
qed

lemma parse_escapeByte:
  assumes "byte c < 0x80"
  shows "parseString (Suc k) (escapeByte c @ t) = map_option (\<lambda>(u, r). (c # u, r)) (parseString k t)"
proof -
  let ?b = "byte c"
  consider "?b = 0x22" | "?b = 0x5C" | "?b = 8" | "?b = 12" | "?b = 10" | "?b = 13" | "?b = 9"
    | (low) "?b \<notin> {0x22, 0x5C, 8, 12, 10, 13, 9}" "?b < 0x20 \<or> ?b = 0x3C \<or> ?b = 0x3E \<or> ?b = 0x26"
    | (plain) "?b \<notin> {0x22, 0x5C, 8, 12, 10, 13, 9}" "\<not> (?b < 0x20 \<or> ?b = 0x3C \<or> ?b = 0x3E \<or> ?b = 0x26)"
    by blast
  then show ?thesis
  proof cases
    case low
    then have "escapeByte c = [CHR 0x5C, CHR ''u'', CHR ''0'', CHR ''0'', hexDigit (?b div 16), hexDigit (?b mod 16)]"
      by (simp add: escapeByte_def Let_def)
    then show ?thesis using parse_low_escape [OF assms] by simp
  next
    case plain
    then have "escapeByte c = [c]" by (simp add: escapeByte_def)
    moreover have "c \<noteq> CHR 0x22" "c \<noteq> CHR 0x5C" using plain(1) by (auto simp: byte_def)
    ultimately show ?thesis using plain assms by simp
  qed (drule byte_eq_char, simp add: escapeByte_def byte_def simpleEscape_def; fail)+
qed

lemma parse_replacement:
  "parseString (Suc k) (CHR 0x5C # ''ufffd'' @ t) = map_option (\<lambda>(u, r). (encodeRune 0xFFFD @ u, r)) (parseString k t)"
  by (simp add: unicodeEscape_def hex4_def hexVal_def byte_def)

lemma parse_separator:
  "parseString (Suc k) (CHR 0x5C # ''u2028'' @ t) = map_option (\<lambda>(u, r). ([CHR 0xE2, CHR 0x80, CHR 0xA8] @ u, r)) (parseString k t)"
  "parseString (Suc k) (CHR 0x5C # ''u2029'' @ t) = map_option (\<lambda>(u, r). ([CHR 0xE2, CHR 0x80, CHR 0xA9] @ u, r)) (parseString k t)"
proof -
  have "encodeRune 0x2028 = [CHR 0xE2, CHR 0x80, CHR 0xA8]" "encodeRune 0x2029 = [CHR 0xE2, CHR 0x80, CHR 0xA9]"
    by (simp_all add: encodeRune_def char_of_eq_iff)
  then show
    "parseString (Suc k) (CHR 0x5C # ''u2028'' @ t) = map_option (\<lambda>(u, r). ([CHR 0xE2, CHR 0x80, CHR 0xA8] @ u, r)) (parseString k t)"
    "parseString (Suc k) (CHR 0x5C # ''u2029'' @ t) = map_option (\<lambda>(u, r). ([CHR 0xE2, CHR 0x80, CHR 0xA9] @ u, r)) (parseString k t)"
    by (simp_all add: unicodeEscape_def hex4_def hexVal_def byte_def)
qed

lemma parse_rune:
  assumes "runeLen (c # cs) = n" and "n \<noteq> 0" and "\<not> byte c < 0x80"
  shows "parseString (Suc k) (take n (c # cs) @ t) = map_option (\<lambda>(u, r). (take n (c # cs) @ u, r)) (parseString k t)"
proof -
  obtain m where n: "n = Suc m" using assms(2) by (cases n) auto
  have len: "length (take n (c # cs)) = n" using runeLen_le [of "c # cs"] assms(1) by simp
  have rl: "runeLen (c # take m cs @ t) = n" using runeLen_append [OF assms(1,2), of t] n by simp
  have "c \<noteq> CHR 0x22" "c \<noteq> CHR 0x5C" "\<not> byte c < 0x20" using assms(3) by (auto simp: byte_def)
  then show ?thesis
    using assms(3) rl len by (simp add: n Let_def)
qed

lemma parse_quoteBody:
  "length s \<le> n \<Longrightarrow> length (quoteBody n s) < k \<Longrightarrow>
   parseString k (quoteBody n s @ CHR 0x22 # rest) = Some (coerceUTF8 n s, rest)"
proof (induction n s arbitrary: k rule: quoteBody.induct)
  case (1 s)
  then show ?case by (cases k) simp_all
next
  case (2 n)
  then show ?case by (cases k) simp_all
next
  case (3 n c cs)
  let ?r = "runeLen (c # cs)"
  obtain k' where k: "k = Suc k'" using "3.prems"(2) by (cases k) auto
  consider (ascii) "byte c < 0x80" | (bad) "\<not> byte c < 0x80" "?r = 0" | (rune) "\<not> byte c < 0x80" "?r \<noteq> 0" by blast
  then show ?case
  proof cases
    case ascii
    have "1 \<le> length (escapeByte c)" by (simp add: escapeByte_def Let_def)
    then have "parseString k' (quoteBody n cs @ CHR 0x22 # rest) = Some (coerceUTF8 n cs, rest)"
      using "3.IH"(1) [OF ascii, of k'] "3.prems" ascii k by simp
    then show ?thesis using parse_escapeByte [OF ascii, of k'] by (simp add: ascii k)
  next
    case bad
    then have "parseString k' (quoteBody n cs @ CHR 0x22 # rest) = Some (coerceUTF8 n cs, rest)"
      using "3.IH"(2) [OF bad, of k'] "3.prems" k by simp
    then show ?thesis using bad parse_replacement [of k'] by (simp add: k del: parseString.simps)
  next
    case rune
    define u where "u = (if take ?r (c # cs) = [CHR 0xE2, CHR 0x80, CHR 0xA8] then CHR 0x5C # ''u2028''
         else if take ?r (c # cs) = [CHR 0xE2, CHR 0x80, CHR 0xA9] then CHR 0x5C # ''u2029'' else take ?r (c # cs))"
    have q: "quoteBody (Suc n) (c # cs) = u @ quoteBody n (drop ?r (c # cs))"
      using rune by (simp add: Let_def u_def del: take_Suc_Cons)
    have u0: "u \<noteq> []" using rune(2) by (auto simp: u_def)
    have dl: "length (drop ?r (c # cs)) \<le> n" using "3.prems"(1) rune(2) by (cases ?r) auto
    have "length (quoteBody n (drop ?r (c # cs))) < k'" using "3.prems"(2) u0 unfolding k q by (cases u) auto
    then have IH: "parseString k' (quoteBody n (drop ?r (c # cs)) @ CHR 0x22 # rest) = Some (coerceUTF8 n (drop ?r (c # cs)), rest)"
      using "3.IH"(3) [OF rune refl refl dl] by blast
    have "parseString (Suc k') (u @ t) = map_option (\<lambda>(x, r). (take ?r (c # cs) @ x, r)) (parseString k' t)" for t
      unfolding u_def using parse_separator [of k' t] parse_rune [OF refl rune(2,1), of k' t] by (auto simp del: parseString.simps)
    then show ?thesis using IH rune unfolding k q append_assoc by simp
  qed
qed

lemma parse_quote:
  assumes "length (quoteBody (length s) s @ CHR 0x22 # rest) \<le> k"
  shows "parseString k (quoteBody (length s) s @ CHR 0x22 # rest) = Some (validText s, rest)"
  unfolding validText_def using assms by (intro parse_quoteBody) simp_all

lemma parse_plain:
  assumes "list_all plainByte s" and "length s < k"
  shows "parseString k (s @ CHR 0x22 # rest) = Some (s, rest)"
  using assms
proof (induction s arbitrary: k)
  case Nil
  then show ?case by (cases k) simp_all
next
  case (Cons c s)
  obtain k' where k: "k = Suc k'" using Cons.prems(2) by (cases k) auto
  have "c \<noteq> CHR 0x22" "c \<noteq> CHR 0x5C" "\<not> byte c < 0x20" "byte c < 0x80"
    using Cons.prems(1) by (auto simp: plainByte_def is_digit_def byte_def)
  then show ?case using Cons by (simp add: k)
qed

lemma validText_ascii: "list_all (\<lambda>c. byte c < 0x80) s \<Longrightarrow> validText s = s"
proof -
  have "list_all (\<lambda>c. byte c < 0x80) s \<Longrightarrow> length s \<le> n \<Longrightarrow> coerceUTF8 n s = s" for n
  proof (induction s arbitrary: n)
    case Nil
    show ?case by (cases n) simp_all
  next
    case (Cons c s)
    then show ?case by (cases n) auto
  qed
  then show "list_all (\<lambda>c. byte c < 0x80) s \<Longrightarrow> validText s = s" by (simp add: validText_def)
qed


section \<open>Numbers\<close>

text \<open>A text that cannot continue a number.\<close>

definition ends :: "string \<Rightarrow> bool" where
  "ends s \<longleftrightarrow> (case s of [] \<Rightarrow> True | c # _ \<Rightarrow> \<not> is_digit c \<and> c \<noteq> CHR ''.'' \<and> c \<noteq> CHR ''e'' \<and> c \<noteq> CHR ''E'')"

lemma ends_delim [simp]: "ends []" "ends (CHR '','' # s)" "ends (CHR ''}'' # s)" "ends (CHR '']'' # s)" "ends (CHR 0x0A # s)"
  by (simp_all add: ends_def is_digit_def)

lemma digit_char_zero: "d < 10 \<Longrightarrow> digit_char d = CHR ''0'' \<Longrightarrow> d = 0"
  using digit_val_digit_char [of d] by (simp add: digit_val_def)

lemma utoa_hd: "0 < n \<Longrightarrow> hd (utoa n) \<noteq> CHR ''0''"
proof (induction n rule: utoa.induct)
  case (1 n)
  show ?case
  proof (cases "n < 10")
    case True
    then show ?thesis using "1.prems" digit_char_zero [of n] by (auto simp: utoa.simps [of n])
  next
    case False
    then show ?thesis using "1.IH" utoa_digits [of "n div 10"] by (simp add: utoa.simps [of n])
  qed
qed

lemma spanDigits_append: "list_all is_digit ds \<Longrightarrow> ends rest \<Longrightarrow> spanDigits (ds @ rest) = (ds, rest)"
  by (induction ds) (auto simp: spanDigits_def ends_def split: list.splits)

lemma parseInteger_utoa:
  assumes "ends rest"
  shows "parseInteger (utoa n @ rest) = Some (utoa n, rest)"
proof (cases "n = 0")
  case True
  then show ?thesis by (simp add: utoa.simps [of 0] digit_char_def parseInteger_def char_of_eq_iff)
next
  case False
  obtain c cs where u: "utoa n = c # cs" using utoa_digits [of n] by (cases "utoa n") auto
  then have "c \<noteq> CHR ''0''" "is_digit c" using utoa_hd [of n] False utoa_digits [of n] by auto
  then show ?thesis
    using spanDigits_append [OF _ assms, of "utoa n"] utoa_digits [of n] by (simp add: u parseInteger_def)
qed

lemma parse_tail: "ends rest \<Longrightarrow> parseFraction rest = Some ([], rest)" "ends rest \<Longrightarrow> parseExponent rest = Some ([], rest)"
  by (auto simp: ends_def parseFraction_def parseExponent_def split: list.splits)

lemma utoa_first: "utoa n @ rest = c # cs \<Longrightarrow> is_digit c"
  using utoa_digits [of n] by (cases "utoa n") auto

lemma parseNumber_itoa:
  assumes "ends rest"
  shows "parseNumber (itoa i @ rest) = Some (itoa i, rest)"
proof (cases "i < 0")
  case True
  then show ?thesis
    using assms by (simp add: parseNumber_def itoa_def parseInteger_utoa parse_tail)
next
  case False
  obtain c cs where u: "utoa (nat i) @ rest = c # cs" using utoa_digits [of "nat i"] by (cases "utoa (nat i)") auto
  then have "c \<noteq> CHR ''-''" using utoa_first [OF u] by (auto simp: is_digit_def)
  then have "parseNumber (utoa (nat i) @ rest) = (case parseInteger (utoa (nat i) @ rest) of
        None \<Rightarrow> None
      | Some (i, s2) \<Rightarrow>
          (case parseFraction s2 of
             None \<Rightarrow> None
           | Some (f, s3) \<Rightarrow>
               (case parseExponent s3 of
                  None \<Rightarrow> None
                | Some (e, s4) \<Rightarrow> Some ([] @ i @ f @ e, s4))))"
    unfolding parseNumber_def u by simp
  then show ?thesis using False assms by (simp add: itoa_def parseInteger_utoa parse_tail)
qed

lemma itoa_first:
  obtains c cs where "itoa i = c # cs" and "is_digit c \<or> c = CHR ''-''"
  using utoa_digits [of "nat i"] by (cases "utoa (nat i)"; cases "i < 0") (auto simp: itoa_def)


section \<open>Values\<close>

text \<open>\<open>t\<close> is a text of the value \<open>j\<close>, at nesting depth \<open>d\<close> and before any text that cannot continue it.\<close>

definition parses :: "nat \<Rightarrow> string \<Rightarrow> json \<Rightarrow> bool" where
  "parses d t j \<longleftrightarrow> t \<noteq> [] \<and> \<not> isSpace (hd t) \<and> hd t \<notin> {CHR '']'', CHR ''}''} \<and>
     (\<forall>k rest. length t \<le> k \<longrightarrow> ends rest \<longrightarrow> parseValue k d (t @ rest) = Some (j, rest))"

lemma parsesD: "parses d t j \<Longrightarrow> length t \<le> k \<Longrightarrow> ends rest \<Longrightarrow> parseValue k d (t @ rest) = Some (j, rest)"
  by (simp add: parses_def)

lemma skipSpace_id: "s \<noteq> [] \<Longrightarrow> \<not> isSpace (hd s) \<Longrightarrow> skipSpace s = s"
  by (cases s) (simp_all add: skipSpace_def)

lemma parses_skip: "parses d t j \<Longrightarrow> skipSpace (t @ rest) = t @ rest"
  by (intro skipSpace_id) (auto simp: parses_def hd_append)

lemma not_space [simp]:
  "\<not> isSpace (CHR 0x22)" "\<not> isSpace (CHR '','')" "\<not> isSpace (CHR '':'')" "\<not> isSpace (CHR ''}'')" "\<not> isSpace (CHR '']'')"
  "\<not> isSpace (CHR ''{'')" "\<not> isSpace (CHR ''['')" "\<not> isSpace (CHR ''n'')" "\<not> isSpace (CHR ''t'')" "\<not> isSpace (CHR ''f'')"
  "\<not> isSpace (CHR ''-'')"
  by (simp_all add: isSpace_def byte_def)

lemma skipSpace_Cons: "\<not> isSpace c \<Longrightarrow> skipSpace (c # cs) = c # cs"
  by (simp add: skipSpace_def)

lemma parses_string:
  assumes "\<And>k rest. length (b @ CHR 0x22 # rest) \<le> k \<Longrightarrow> parseString k (b @ CHR 0x22 # rest) = Some (s, rest)"
  shows "parses d (CHR 0x22 # b @ [CHR 0x22]) (JStr s)"
proof -
  have "parseValue k d (CHR 0x22 # b @ CHR 0x22 # rest) = Some (JStr s, rest)" if k: "length b + 2 \<le> k" for k rest
  proof -
    obtain k' where "k = Suc k'" using k by (cases k) auto
    then show ?thesis using assms [of rest "length (b @ CHR 0x22 # rest)"] by (simp add: skipSpace_Cons)
  qed
  then show ?thesis by (simp add: parses_def)
qed

lemma parses_literal:
  "parses d ''null'' JNull" "parses d ''true'' (JBool True)" "parses d ''false'' (JBool False)"
proof -
  have "\<exists>k'. k = Suc k'" if "0 < k" for k :: nat using that by (cases k) auto
  then show "parses d ''null'' JNull" "parses d ''true'' (JBool True)" "parses d ''false'' (JBool False)"
    by (auto simp: parses_def skipSpace_Cons literal_def dest!: Suc_le_D)
qed

lemma parses_number: "parses d (itoa i) (JNum (itoa i))"
proof -
  obtain c cs where i: "itoa i = c # cs" and c: "is_digit c \<or> c = CHR ''-''" by (rule itoa_first)
  have cc: "\<not> isSpace c" "c \<notin> {CHR '']'', CHR ''}'', CHR 0x22, CHR ''{'', CHR ''['', CHR ''t'', CHR ''f'', CHR ''n''}"
    using c by (auto simp: is_digit_def isSpace_def byte_def)
  have "parseValue k d (itoa i @ rest) = Some (JNum (itoa i), rest)" if k: "length (itoa i) \<le> k" and e: "ends rest" for k rest
  proof -
    obtain k' where "k = Suc k'" using k i by (cases k) auto
    then show ?thesis using parseNumber_itoa [OF e, of i] cc by (simp add: i skipSpace_Cons)
  qed
  then show ?thesis using cc by (simp add: parses_def i)
qed

lemma parse_elements:
  assumes "list_all2 (parses d) ts js" and "ts \<noteq> []" and "length (sep_by '','' ts) < k"
  shows "parseElems k d (sep_by '','' ts @ CHR '']'' # rest) = Some (js, rest)"
  using assms
proof (induction ts js arbitrary: k rule: list_all2_induct)
  case (Cons t ts j js)
  obtain k' where k: "k = Suc k'" using Cons.prems by (cases k) auto
  show ?case
  proof (cases ts)
    case Nil
    then have "parseValue k' d (t @ CHR '']'' # rest) = Some (j, rest')" if "rest' = CHR '']'' # rest" for rest'
      using parsesD [OF Cons.hyps(1), of k' rest'] Cons.prems(2) that k by simp
    then show ?thesis using Nil Cons.hyps by (simp add: k skipSpace_Cons)
  next
    case (Cons u us)
    let ?r = "CHR '','' # sep_by '','' ts @ CHR '']'' # rest"
    have "parseValue k' d (t @ ?r) = Some (j, ?r)"
      using parsesD [OF Cons.hyps(1), of k' ?r] Cons.prems(2) k local.Cons by simp
    moreover have "parseElems k' d (sep_by '','' ts @ CHR '']'' # rest) = Some (js, rest)"
      using Cons.IH [of k'] Cons.prems(2) k local.Cons by simp
    ultimately show ?thesis by (simp add: k local.Cons skipSpace_Cons)
  qed
qed simp


lemma member_text:
  "objectText kts = ''{'' @ sep_by '','' (map (\<lambda>(k, t). quote k @ '':'' @ t) kts) @ ''}''"
  by (simp add: objectText_def)

lemma parse_members:
  assumes "list_all2 (\<lambda>(k, t) (n, j). n = validText k \<and> parses d t j) kts ms" and "kts \<noteq> []"
    and "length (sep_by '','' (map (\<lambda>(k, t). quote k @ '':'' @ t) kts)) < k"
  shows "parseMembers k d (sep_by '','' (map (\<lambda>(k, t). quote k @ '':'' @ t) kts) @ CHR ''}'' # rest) = Some (ms, rest)"
  using assms
proof (induction kts ms arbitrary: k rule: list_all2_induct)
  case (Cons kt kts nj ms)
  obtain key t where kt: "kt = (key, t)" by (cases kt)
  obtain j where nj: "nj = (validText key, j)" and p: "parses d t j" using Cons.hyps(1) by (cases nj) (simp add: kt)
  obtain k' where k: "k = Suc k'" using Cons.prems by (cases k) auto
  have len: "length t \<le> k'" using Cons.prems(2) by (cases kts) (simp_all add: kt k quote_def)
  define after where "after = (if kts = [] then CHR ''}'' # rest
    else CHR '','' # sep_by '','' (map (\<lambda>(k, t). quote k @ '':'' @ t) kts) @ CHR ''}'' # rest)"
  have e: "ends after" by (simp add: after_def)
  have body: "sep_by '','' (map (\<lambda>(k, t). quote k @ '':'' @ t) (kt # kts)) @ CHR ''}'' # rest =
      CHR 0x22 # quoteBody (length key) key @ CHR 0x22 # CHR '':'' # t @ after"
    by (cases kts) (simp_all add: kt quote_def after_def)
  have str: "parseString (length (quoteBody (length key) key @ CHR 0x22 # CHR '':'' # t @ after))
      (quoteBody (length key) key @ CHR 0x22 # CHR '':'' # t @ after) = Some (validText key, CHR '':'' # t @ after)"
    by (rule parse_quote) simp
  have val: "parseValue k' d (t @ after) = Some (j, after)" using parsesD [OF p len e] .
  show ?case
  proof (cases "kts = []")
    case True
    then show ?thesis
      using Cons.hyps(2) val str unfolding body by (simp add: k nj skipSpace_Cons after_def)
  next
    case False
    have "parseMembers k' d (sep_by '','' (map (\<lambda>(k, t). quote k @ '':'' @ t) kts) @ CHR ''}'' # rest) = Some (ms, rest)"
      using Cons.IH [of k'] Cons.prems(2) False by (cases kts) (simp_all add: k)
    then show ?thesis
      using False val str unfolding body by (simp add: k nj skipSpace_Cons after_def)
  qed
qed simp

lemma parses_array:
  assumes "list_all2 (parses (Suc d)) ts js" and "d < maxNestingDepth"
  shows "parses d (''['' @ sep_by '','' ts @ '']'') (JArr js)"
proof -
  have "parseValue k d (CHR ''['' # sep_by '','' ts @ CHR '']'' # rest) = Some (JArr js, rest)"
    if k: "length (sep_by '','' ts) + 2 \<le> k" for k rest
  proof -
    obtain k' where k': "k = Suc k'" using k by (cases k) auto
    show ?thesis
    proof (cases ts)
      case Nil
      then show ?thesis using assms by (simp add: k' skipSpace_Cons)
    next
      case (Cons t us)
      obtain j where p: "parses (Suc d) t j" using assms(1) by (auto simp: Cons list_all2_Cons1)
      obtain c cs where t: "t = c # cs" using p by (cases t) (simp_all add: parses_def)
      have c: "\<not> isSpace c" "c \<noteq> CHR '']''" using p by (simp_all add: t parses_def)
      obtain ds where sp: "sep_by '','' ts = c # ds" by (cases us) (simp_all add: Cons t)
      have "parseElems k' (Suc d) (sep_by '','' ts @ CHR '']'' # rest) = Some (js, rest)"
        using parse_elements [OF assms(1), of k' rest] k Cons by (simp add: k')
      then show ?thesis using assms(2) c by (simp add: k' skipSpace_Cons sp)
    qed
  qed
  then show ?thesis by (simp add: parses_def)
qed

lemma parses_object:
  assumes "list_all2 (\<lambda>(k, t) (n, j). n = validText k \<and> parses (Suc d) t j) kts ms" and "d < maxNestingDepth"
  shows "parses d (objectText kts) (JObj ms)"
proof -
  let ?b = "sep_by '','' (map (\<lambda>(k, t). quote k @ '':'' @ t) kts)"
  have "parseValue k d (CHR ''{'' # ?b @ CHR ''}'' # rest) = Some (JObj ms, rest)" if k: "length ?b + 2 \<le> k" for k rest
  proof -
    obtain k' where k': "k = Suc k'" using k by (cases k) auto
    show ?thesis
    proof (cases kts)
      case Nil
      then show ?thesis using assms by (simp add: k' skipSpace_Cons)
    next
      case (Cons x xs)
      obtain key t where x: "x = (key, t)" by (cases x)
      obtain ds where sp: "?b = CHR 0x22 # ds" by (cases xs) (simp_all add: Cons x quote_def)
      have "parseMembers k' (Suc d) (?b @ CHR ''}'' # rest) = Some (ms, rest)"
        using parse_members [OF assms(1), of k' rest] k Cons by (simp add: k')
      then show ?thesis using assms(2) unfolding sp by (simp add: k' skipSpace_Cons)
    qed
  qed
  then show ?thesis by (simp add: parses_def member_text)
qed


lemma sequence_opt_map: "sequence_opt (map f xs) = Some ys \<longleftrightarrow> list_all2 (\<lambda>x y. f x = Some y) xs ys"
proof (induction xs arbitrary: ys)
  case (Cons x xs)
  then show ?case by (cases "f x") (auto simp: list_all2_Cons1)
qed auto

lemma insertKey_map: "insertKey (k, f v) (map (\<lambda>(k, v). (k, f v)) kvs) = map (\<lambda>(k, v). (k, f v)) (insertKey (k, v) kvs)"
  by (induction kvs) auto

lemma sortKeys_map: "sortKeys (map (\<lambda>(k, v). (k, f v)) kvs) = map (\<lambda>(k, v). (k, f v)) (sortKeys kvs)"
  unfolding sortKeys_def by (induction kvs) (auto simp: insertKey_map)

lemma set_insertKey: "set (insertKey x kvs) = insert x (set kvs)"
  by (induction kvs) auto

lemma set_sortKeys [simp]: "set (sortKeys kvs) = set kvs"
  unfolding sortKeys_def by (induction kvs) (auto simp: set_insertKey)

text \<open>A map is written as the struct of its sorted entries.\<close>

lemma marshal_AMap: "marshal (AMap kvs) = marshal (AStruct (sortKeys kvs))"
  unfolding marshal.simps sortKeys_map map_map by (simp add: comp_def case_prod_unfold)

lemma shape_AMap: "shape (AMap kvs) = shape (AStruct (sortKeys kvs))"
  unfolding shape.simps sortKeys_map map_map by (simp add: comp_def case_prod_unfold)

lemma marshal_AStruct:
  "marshal (AStruct kvs) = Some t \<longleftrightarrow>
   (\<exists>kts. list_all2 (\<lambda>(k, v) (n, u). n = k \<and> marshal v = Some u) kvs kts \<and> t = objectText kts)"
proof -
  have eq: "(\<lambda>x y. (case x of (k, v) \<Rightarrow> map_option (Pair k) (marshal v)) = Some y) =
      (\<lambda>(k, v) (n, u). n = k \<and> marshal v = Some u)"
    by (auto simp: fun_eq_iff)
  show ?thesis unfolding marshal.simps map_option_eq_Some sequence_opt_map eq by blast
qed

lemma nesting_member: "(k, v) \<in> set kvs \<Longrightarrow> nesting v < nesting (AStruct kvs) \<and> nesting v < nesting (AMap kvs)"
proof -
  assume "(k, v) \<in> set kvs"
  then have "nesting v \<in> insert 0 ((\<lambda>(k, v). nesting v) ` set kvs)" by (force intro: image_eqI)
  then show ?thesis by (simp add: less_Suc_eq_le)
qed

lemma nesting_element: "v \<in> set vs \<Longrightarrow> nesting v < nesting (ASlice vs)"
  by (simp add: less_Suc_eq_le)

lemma parses_struct:
  assumes IH: "\<And>k v u. (k, v) \<in> set kvs \<Longrightarrow> marshal v = Some u \<Longrightarrow> parses (Suc d) u (shape v)"
    and t: "marshal (AStruct kvs) = Some t" and d: "d < maxNestingDepth"
  shows "parses d t (shape (AStruct kvs))"
proof -
  obtain kts where l: "list_all2 (\<lambda>(k, v) (n, u). n = k \<and> marshal v = Some u) kvs kts" and t': "t = objectText kts"
    using t unfolding marshal_AStruct by blast
  have "list_all2 (\<lambda>(k, t) (n, j). n = validText k \<and> parses (Suc d) t j) kts (map (\<lambda>(k, v). (validText k, shape v)) kvs)"
    using l IH by (auto simp: list_all2_conv_all_nth case_prod_beta) (metis nth_mem prod.collapse)
  from parses_object [OF this d] show ?thesis by (simp add: t')
qed

lemma parse_marshal:
  "marshal v = Some t \<Longrightarrow> d + nesting v \<le> maxNestingDepth \<Longrightarrow> parses d t (shape v)"
proof (induction v arbitrary: d t)
  case (ATime x)
  then obtain s where s: "timeText x = Some s" and t: "t = CHR 0x22 # s @ [CHR 0x22]" by auto
  show ?case
    using parses_string [OF parse_plain [OF timeText_plain [OF s]]] by (simp add: s t)
next
  case (AString s)
  then have t: "t = CHR 0x22 # quoteBody (length s) s @ [CHR 0x22]" by (simp add: quote_def)
  show ?case using parses_string [OF parse_quote, of s d] by (simp add: t)
next
  case (ASlice vs)
  obtain ts where ts: "list_all2 (\<lambda>v u. marshal v = Some u) vs ts" and t: "t = ''['' @ sep_by '','' ts @ '']''"
    using ASlice.prems(1) by (auto simp: sequence_opt_map)
  have "list_all2 (parses (Suc d)) ts (map shape vs)"
    unfolding list_all2_conv_all_nth
  proof (intro conjI allI impI)
    show "length ts = length (map shape vs)" using ts by (simp add: list_all2_lengthD)
    fix i assume i: "i < length ts"
    then have iv: "i < length vs" using ts by (simp add: list_all2_lengthD)
    have "marshal (vs ! i) = Some (ts ! i)" using ts i iv by (simp add: list_all2_conv_all_nth)
    moreover have "Suc d + nesting (vs ! i) \<le> maxNestingDepth"
      using nesting_element [OF nth_mem [OF iv]] ASlice.prems(2) by simp
    ultimately show "parses (Suc d) (ts ! i) (map shape vs ! i)" using ASlice.IH [OF nth_mem [OF iv]] iv by simp
  qed
  moreover have "d < maxNestingDepth" using ASlice.prems(2) by simp
  ultimately show ?case unfolding t using parses_array by simp
next
  case (AMap kvs)
  have "parses d t (shape (AStruct (sortKeys kvs)))"
  proof (rule parses_struct)
    fix k v u assume kv: "(k, v) \<in> set (sortKeys kvs)" and u: "marshal v = Some u"
    then have m: "(k, v) \<in> set kvs" by simp
    show "parses (Suc d) u (shape v)"
      using AMap.IH [OF m _ u, of "Suc d"] nesting_member [OF m] AMap.prems(2) by simp
  next
    show "marshal (AStruct (sortKeys kvs)) = Some t" using AMap.prems(1) by (simp only: marshal_AMap)
    show "d < maxNestingDepth" using AMap.prems(2) by simp
  qed
  then show ?case by (simp only: shape_AMap)
next
  case (AStruct kvs)
  show ?case
  proof (rule parses_struct)
    fix k v u assume m: "(k, v) \<in> set kvs" and u: "marshal v = Some u"
    show "parses (Suc d) u (shape v)"
      using AStruct.IH [OF m _ u, of "Suc d"] nesting_member [OF m] AStruct.prems(2) by simp
  qed (use AStruct.prems in auto)
qed (auto simp: parses_literal parses_number)

corollary parsePrefix_marshal:
  assumes "marshal v = Some t" and "nesting v \<le> maxNestingDepth" and "ends rest"
  shows "parsePrefix (t @ rest) = Some (shape v, rest)"
  unfolding parsePrefix_def using assms(2) by (intro parsesD [OF parse_marshal [OF assms(1), of 0] _ assms(3)]) simp_all


section \<open>Compaction\<close>

lemma compact_char:
  assumes "byte c \<notin> {0xE2, 0x3C, 0x3E, 0x26}" and "\<not> (p = Outside \<and> isSpace c)"
  shows "compactBytes p (c # cs) = c # compactBytes (stepPlace p c) cs"
proof -
  have "\<not> lineSeparator (c # cs)" using assms(1) by (auto simp: lineSeparator_def byte_def)
  then show ?thesis using assms by auto
qed

lemma hexDigit_range: "d < 16 \<Longrightarrow> 48 \<le> byte (hexDigit d) \<and> byte (hexDigit d) \<le> 102 \<and> byte (hexDigit d) \<notin> {0x3C, 0x3E, 0x5C}"
  by (auto simp: hexDigit_def byte_def)

text \<open>Runs of characters a string keeps.\<close>

definition stringSafe :: "char \<Rightarrow> bool" where
  "stringSafe c \<longleftrightarrow> byte c \<notin> {0x22, 0x5C, 0xE2, 0x3C, 0x3E, 0x26}"

lemma compact_safe: "list_all stringSafe s \<Longrightarrow> compactBytes InString (s @ rest) = s @ compactBytes InString rest"
proof (induction s)
  case (Cons c s)
  then have "compactBytes InString (c # s @ rest) = c # compactBytes (stepPlace InString c) (s @ rest)"
    by (intro compact_char) (auto simp: stringSafe_def)
  moreover have "stepPlace InString c = InString" using Cons.prems by (auto simp: stepPlace_def stringSafe_def byte_def)
  ultimately show ?case using Cons by simp
qed simp

lemma compact_escape:
  assumes "byte e \<notin> {0xE2, 0x3C, 0x3E, 0x26}" and "list_all stringSafe s"
  shows "compactBytes InString ((CHR 0x5C # e # s) @ rest) = (CHR 0x5C # e # s) @ compactBytes InString rest"
  using assms compact_char [of "CHR 0x5C" InString "e # s @ rest"] compact_char [of e Escaped "s @ rest"] compact_safe
  by (simp add: stepPlace_def byte_def del: compactBytes.simps)

lemma compact_escapeByte:
  assumes "byte c < 0x80"
  shows "compactBytes InString (escapeByte c @ rest) = escapeByte c @ compactBytes InString rest"
proof -
  let ?b = "byte c"
  consider "?b = 0x22" | "?b = 0x5C" | "?b = 8" | "?b = 12" | "?b = 10" | "?b = 13" | "?b = 9"
    | (low) "?b \<notin> {0x22, 0x5C, 8, 12, 10, 13, 9}" "?b < 0x20 \<or> ?b = 0x3C \<or> ?b = 0x3E \<or> ?b = 0x26"
    | (plain) "?b \<notin> {0x22, 0x5C, 8, 12, 10, 13, 9}" "\<not> (?b < 0x20 \<or> ?b = 0x3C \<or> ?b = 0x3E \<or> ?b = 0x26)"
    by blast
  then show ?thesis
  proof cases
    case low
    then have e: "escapeByte c = [CHR 0x5C, CHR ''u'', CHR ''0'', CHR ''0'', hexDigit (?b div 16), hexDigit (?b mod 16)]"
      by (simp add: escapeByte_def Let_def)
    have "stringSafe (hexDigit d)" if "d < 16" for d
      using hexDigit_range [OF that] by (auto simp: stringSafe_def)
    then have "list_all stringSafe [CHR ''0'', CHR ''0'', hexDigit (?b div 16), hexDigit (?b mod 16)]"
      using assms by (simp add: stringSafe_def byte_def)
    from compact_escape [OF _ this, of "CHR ''u''" rest] show ?thesis unfolding e by (simp add: byte_def)
  next
    case plain
    then have e: "escapeByte c = [c]" by (simp add: escapeByte_def)
    have "list_all stringSafe [c]" using plain assms by (simp add: stringSafe_def)
    from compact_safe [OF this] show ?thesis unfolding e .
  qed (use compact_escape [of _ "[]" rest] in \<open>simp add: escapeByte_def byte_def\<close>)+
qed


lemma compact_rune:
  assumes "runeLen (c # cs) = n" and "n \<noteq> 0" and "\<not> byte c < 0x80"
    and "take n (c # cs) \<notin> {[CHR 0xE2, CHR 0x80, CHR 0xA8], [CHR 0xE2, CHR 0x80, CHR 0xA9]}"
  shows "compactBytes InString (take n (c # cs) @ rest) = take n (c # cs) @ compactBytes InString rest"
proof -
  have cont: "stringSafe x" if "isCont lo hi x" "0x80 \<le> lo" "hi \<le> 0xBF" for lo hi x
    using that by (auto simp: isCont_def stringSafe_def)
  from assms(1,2) show ?thesis
  proof (cases rule: runeLen_cases)
    case (three a c1 c2 ds)
    have safe: "list_all stringSafe [c1, c2]" using three cont by (auto split: if_splits)
    have sep: "\<not> lineSeparator (c # c1 # c2 # rest)" using assms(4) three by (simp add: lineSeparator_def)
    have "byte c \<notin> {0x3C, 0x3E, 0x26}" "stepPlace InString c = InString"
      using assms(3) by (auto simp: stepPlace_def byte_def)
    then have "compactBytes InString (c # c1 # c2 # rest) = c # compactBytes InString ([c1, c2] @ rest)"
      using sep by simp
    then have "compactBytes InString (c # c1 # c2 # rest) = c # c1 # c2 # compactBytes InString rest"
      using compact_safe [OF safe] by (simp del: compactBytes.simps)
    then show ?thesis using three by (simp del: compactBytes.simps)
  next
    case (two a c1 ds)
    then have "list_all stringSafe (take n (c # cs))" using cont assms(3) by (auto simp: stringSafe_def)
    then show ?thesis by (rule compact_safe)
  next
    case (four a c1 c2 c3 ds)
    then have "take n (c # cs) = [a, c1, c2, c3]" by simp
    moreover have "list_all stringSafe [a, c1, c2, c3]" using four cont by (auto simp: stringSafe_def split: if_splits)
    ultimately show ?thesis using compact_safe by metis
  qed (use assms(3) in simp)
qed

lemma compact_quoteBody:
  "compactBytes InString (quoteBody n s @ rest) = quoteBody n s @ compactBytes InString rest"
proof (induction n s rule: quoteBody.induct)
  case (3 n c cs)
  let ?r = "runeLen (c # cs)"
  consider (ascii) "byte c < 0x80" | (bad) "\<not> byte c < 0x80" "?r = 0" | (rune) "\<not> byte c < 0x80" "?r \<noteq> 0" by blast
  then show ?case
  proof cases
    case ascii
    then show ?thesis using "3.IH"(1) compact_escapeByte [OF ascii] by simp
  next
    case bad
    have "list_all stringSafe ''fffd''" by (simp add: stringSafe_def byte_def)
    from compact_escape [OF _ this, of "CHR ''u''"] show ?thesis
      using "3.IH"(2) [OF bad] bad by (simp add: byte_def del: compactBytes.simps)
  next
    case rune
    define u where "u = (if take ?r (c # cs) = [CHR 0xE2, CHR 0x80, CHR 0xA8] then CHR 0x5C # ''u2028''
         else if take ?r (c # cs) = [CHR 0xE2, CHR 0x80, CHR 0xA9] then CHR 0x5C # ''u2029'' else take ?r (c # cs))"
    have q: "quoteBody (Suc n) (c # cs) = u @ quoteBody n (drop ?r (c # cs))"
      using rune by (simp add: Let_def u_def del: take_Suc_Cons)
    have safe: "list_all stringSafe ''2028''" "list_all stringSafe ''2029''" by (simp_all add: stringSafe_def byte_def)
    have "compactBytes InString (u @ t) = u @ compactBytes InString t" for t
      using compact_escape [OF _ safe(1), of "CHR ''u''" t] compact_escape [OF _ safe(2), of "CHR ''u''" t]
        compact_rune [OF refl rune(2,1), of t]
      by (simp add: u_def byte_def del: compactBytes.simps take_Suc_Cons)
    then show ?thesis using "3.IH"(3) [OF rune refl refl] unfolding q append_assoc by simp
  qed
qed simp_all

text \<open>\<open>t\<close> is kept, and the scan is outside strings after it.\<close>

definition compacts :: "string \<Rightarrow> bool" where
  "compacts t \<longleftrightarrow> (\<forall>rest. compactBytes Outside (t @ rest) = t @ compactBytes Outside rest)"

lemma compacts_Nil [simp]: "compacts []"
  by (simp add: compacts_def)

lemma compacts_append: "compacts s \<Longrightarrow> compacts t \<Longrightarrow> compacts (s @ t)"
  by (simp add: compacts_def)

lemma compacts_char:
  assumes "byte c \<notin> {0x22, 0xE2, 0x3C, 0x3E, 0x26}" and "\<not> isSpace c"
  shows "compacts [c]"
  using assms compact_char [of c Outside] by (auto simp: compacts_def stepPlace_def byte_def simp del: compactBytes.simps)

lemma compacts_chars: "list_all (\<lambda>c. byte c \<notin> {0x22, 0xE2, 0x3C, 0x3E, 0x26} \<and> \<not> isSpace c) s \<Longrightarrow> compacts s"
proof (induction s)
  case (Cons c s)
  then show ?case using compacts_append [of "[c]" s] compacts_char [of c] by auto
qed simp

lemma compacts_string:
  assumes "\<And>rest. compactBytes InString (b @ rest) = b @ compactBytes InString rest"
  shows "compacts (CHR 0x22 # b @ [CHR 0x22])"
  using assms compact_char [of "CHR 0x22"]
  by (simp add: compacts_def stepPlace_def byte_def del: compactBytes.simps)

lemma compacts_quote: "compacts (quote s)"
  unfolding quote_def by (rule compacts_string) (rule compact_quoteBody)

lemma compacts_itoa: "compacts (itoa i)"
proof -
  let ?ok = "\<lambda>c. byte c \<notin> {0x22, 0xE2, 0x3C, 0x3E, 0x26} \<and> \<not> isSpace c"
  have "?ok c" if "is_digit c" for c using that by (auto simp: is_digit_def byte_def isSpace_def)
  then have "list_all ?ok (utoa n)" for n using utoa_digits [of n] by (auto simp: list_all_iff)
  moreover have "?ok (CHR ''-'')" by (simp add: byte_def)
  ultimately show ?thesis by (intro compacts_chars) (simp add: itoa_def)
qed

lemma compacts_sep_by: "list_all compacts ts \<Longrightarrow> compacts (sep_by '','' ts)"
proof (induction ts rule: induct_list012)
  case (3 x y ys)
  have "compacts '',''" by (intro compacts_chars) (simp add: byte_def)
  then show ?case using 3 by (auto intro!: compacts_append simp del: append_Cons)
qed simp_all

lemma compacts_brackets:
  assumes "compacts t"
  shows "compacts (''['' @ t @ '']'')" "compacts (''{'' @ t @ ''}'')"
  using assms by (intro compacts_append; simp add: compacts_chars byte_def)+

lemma compacts_object: "list_all (\<lambda>(k, t). compacts t) kts \<Longrightarrow> compacts (objectText kts)"
proof -
  assume kts: "list_all (\<lambda>(k, t). compacts t) kts"
  have "compacts '':''" by (intro compacts_chars) (simp add: byte_def)
  then have "list_all compacts (map (\<lambda>(k, t). quote k @ '':'' @ t) kts)"
    using kts by (auto simp: list_all_iff intro!: compacts_append compacts_quote simp del: append_Cons)
  then show ?thesis unfolding member_text by (intro compacts_brackets compacts_sep_by)
qed

lemma compacts_marshal: "marshal v = Some t \<Longrightarrow> compacts t"
proof (induction v arbitrary: t)
  case (ABool b)
  then show ?case by (auto intro!: compacts_chars simp: byte_def isSpace_def)
next
  case ANil
  then show ?case by (auto intro!: compacts_chars simp: byte_def isSpace_def)
next
  case (ATime x)
  then obtain s where s: "timeText x = Some s" and t: "t = CHR 0x22 # s @ [CHR 0x22]" by auto
  have "list_all stringSafe s"
    using timeText_plain [OF s] by (auto simp: list_all_iff plainByte_def is_digit_def stringSafe_def byte_def)
  then show ?case unfolding t by (intro compacts_string compact_safe)
next
  case (ASlice vs)
  obtain ts where ts: "list_all2 (\<lambda>v u. marshal v = Some u) vs ts" and t: "t = ''['' @ sep_by '','' ts @ '']''"
    using ASlice.prems by (auto simp: sequence_opt_map)
  have "list_all compacts ts"
    unfolding list_all_length
  proof (intro allI impI)
    fix i assume i: "i < length ts"
    then have "vs ! i \<in> set vs" using ts by (simp add: list_all2_lengthD)
    from ASlice.IH [OF this list_all2_nthD2 [OF ts i]] show "compacts (ts ! i)" .
  qed
  then show ?case unfolding t by (intro compacts_brackets compacts_sep_by)
next
  case (AMap kvs)
  obtain kts where l: "list_all2 (\<lambda>(k, v) (n, u). n = k \<and> marshal v = Some u) (sortKeys kvs) kts" and t: "t = objectText kts"
    using AMap.prems unfolding marshal_AMap marshal_AStruct by blast
  have "list_all (\<lambda>(k, t). compacts t) kts"
    unfolding list_all_length
  proof (intro allI impI)
    fix i assume i: "i < length kts"
    then have "i < length (sortKeys kvs)" using l by (simp add: list_all2_lengthD)
    then have m: "sortKeys kvs ! i \<in> set kvs" using nth_mem by fastforce
    obtain k v where kv: "sortKeys kvs ! i = (k, v)" by (cases "sortKeys kvs ! i")
    have "marshal v = Some (snd (kts ! i))" using list_all2_nthD2 [OF l i] kv by (simp add: case_prod_beta)
    from AMap.IH [OF m [unfolded kv] _ this] show "case kts ! i of (k, t) \<Rightarrow> compacts t" by (simp add: case_prod_beta)
  qed
  then show ?case unfolding t by (rule compacts_object)
next
  case (AStruct kvs)
  obtain kts where l: "list_all2 (\<lambda>(k, v) (n, u). n = k \<and> marshal v = Some u) kvs kts" and t: "t = objectText kts"
    using AStruct.prems unfolding marshal_AStruct by blast
  have "list_all (\<lambda>(k, t). compacts t) kts"
    unfolding list_all_length
  proof (intro allI impI)
    fix i assume i: "i < length kts"
    then have m: "kvs ! i \<in> set kvs" using l by (simp add: list_all2_lengthD)
    obtain k v where kv: "kvs ! i = (k, v)" by (cases "kvs ! i")
    have "marshal v = Some (snd (kts ! i))" using list_all2_nthD2 [OF l i] kv by (simp add: case_prod_beta)
    from AStruct.IH [OF m [unfolded kv] _ this] show "case kts ! i of (k, t) \<Rightarrow> compacts t" by (simp add: case_prod_beta)
  qed
  then show ?case unfolding t by (rule compacts_object)
qed (auto simp: compacts_itoa compacts_quote)

corollary compact_marshal:
  assumes "marshal v = Some t" and "nesting v \<le> maxNestingDepth"
  shows "compactJSON t = Some t"
  using parsePrefix_marshal [OF assms, of "[]"] compacts_marshal [OF assms(1)]
  by (simp add: compactJSON_def compacts_def skipSpace_def) (metis append_Nil2 compactBytes.simps(1))

end
