(* ===== verification/Margin_Typed.thy ===== *)
theory Margin_Typed
  imports Margin_Service Go_Json_Laws
begin

text \<open>
  The wire format of the margin service: what a client that parses the body of an answer finds there.
\<close>

section \<open>Wire types\<close>

fun isString :: "json \<Rightarrow> bool" where
  "isString (JStr s) = True"
| "isString j = False"

text \<open>An object with exactly these members, all of them strings.\<close>

fun stringRecord :: "string list \<Rightarrow> json \<Rightarrow> bool" where
  "stringRecord names (JObj ms) = (map fst ms = names \<and> list_all (\<lambda>m. isString (snd m)) ms)"
| "stringRecord names j = False"

definition positionNames :: "string list" where
  "positionNames = [''symbol'', ''balance_raw'', ''price_usd'', ''value_usd'', ''collateral_factor'', ''weighted_usd'']"

definition reportNames :: "string list" where
  "reportNames = [''account'', ''gross_collateral_usd'', ''weighted_collateral_usd'', ''debt_usd'', ''health_factor'', ''status'']"

fun reportType :: "json \<Rightarrow> bool" where
  "reportType (JObj ms) =
     (ms \<noteq> [] \<and> stringRecord reportNames (JObj (butlast ms)) \<and> fst (last ms) = ''positions'' \<and>
      (case snd (last ms) of JArr ps \<Rightarrow> list_all (stringRecord positionNames) ps | _ \<Rightarrow> False))"
| "reportType j = False"

definition errorType :: "json \<Rightarrow> bool" where
  "errorType j = stringRecord [''error''] j"


section \<open>Laws\<close>

lemma position_shape: "stringRecord positionNames (shape (position_any p))"
  by (simp add: position_any_def positionNames_def validText_ascii byte_def)

lemma report_shape: "reportType (shape (report_any r))"
  by (simp add: report_any_def reportNames_def validText_ascii byte_def list_all_iff position_shape)

lemma error_shape: "errorType (shape (AMap [(''error'', AString msg)]))"
  by (simp add: errorType_def sortKeys_def validText_ascii byte_def)

lemma sequence_opt_Some: "list_all (\<lambda>x. x \<noteq> None) xs \<Longrightarrow> sequence_opt xs \<noteq> None"
  by (induction xs) auto

lemma marshal_position: "marshal (position_any p) \<noteq> None"
  by (simp add: position_any_def)

lemma marshal_report: "marshal (report_any r) \<noteq> None"
proof -
  have "sequence_opt (map marshal (map position_any ps)) \<noteq> None" for ps
    by (rule sequence_opt_Some) (use marshal_position in \<open>simp add: list_all_iff\<close>)
  then obtain ts where "sequence_opt (map marshal (map position_any (re_Positions r))) = Some ts" by blast
  then show ?thesis by (simp add: report_any_def)
qed

lemma nesting_report: "nesting (report_any r) \<le> 3"
proof -
  have "nesting (position_any p) = 1" for p by (simp add: position_any_def)
  then have "Max (insert 0 (set (map nesting (map position_any ps)))) \<le> 1" for ps by auto
  then show ?thesis by (simp add: report_any_def)
qed

lemma jsonBody_parses:
  assumes "marshal v \<noteq> None" and "nesting v \<le> maxNestingDepth"
  shows "parsePrefix (jsonBody v) = Some (shape v, [CHR 0x0A])"
proof -
  obtain t where t: "marshal v = Some t" using assms(1) by blast
  show ?thesis using parsePrefix_marshal [OF t assms(2), of "[CHR 0x0A]"] by (simp add: jsonBody_def t)
qed


section \<open>Properties\<close>

text \<open>C24. The answers of the margin service are typed: whatever the account, the query, the engine and the outcome of its
  reads, the body of the answer to \<^verbatim>\<open>GET /margin/{address}\<close> is one JSON value, which for status 200 is a report
  (six string members and the positions, each of six strings) and for every other status an object with the single
  string member \<^verbatim>\<open>error\<close>.\<close>

theorem margin_answer_typed:
  assumes "rq_Method r = ''GET''" and "plainSegment a"
    and "rq_URL r = \<lparr>u_Scheme = [], u_Host = [], u_Path = ''/margin/'' @ a, u_RawPath = [], u_RawQuery = q\<rparr>" and "fresh s"
  shows "\<exists>s' j. marginService eth code engine r s = (Ok (), s') \<and> parsePrefix (w_Body (sv_w s')) = Some (j, [CHR 0x0A]) \<and>
    (if w_code (sv_w s') = Some 200 then reportType j else errorType j)"
proof -
  obtain answer v n where ans: "marginAnswer eth engine a q (sv_state s) = (answer, v, n)" by (cases "marginAnswer eth engine a q (sv_state s)")
  consider rep where "answer = 200" "v = report_any rep" | msg where "answer \<noteq> 200" "v = AMap [(''error'', AString msg)]"
    using ans by (auto simp: marginAnswer_def Let_def split: if_splits option.splits prod.splits result.splits)
  then have "marshal v \<noteq> None \<and> nesting v \<le> maxNestingDepth \<and> (if answer = 200 then reportType (shape v) else errorType (shape v))"
  proof cases
    case (1 rep)
    then show ?thesis using marshal_report nesting_report [of rep] report_shape by (simp add: maxNestingDepth_def)
  next
    case (2 msg)
    have "marshal (AMap [(''error'', AString msg)]) \<noteq> None" by (simp add: sortKeys_def)
    then show ?thesis using 2 error_shape [of msg] by (simp add: maxNestingDepth_def del: marshal.simps shape.simps)
  qed
  moreover obtain s' where "marginService eth code engine r s = (Ok (), s')" "w_code (sv_w s') = Some answer" "w_Body (sv_w s') = jsonBody v"
    using margin_service_run [OF assms ans, of code] by blast
  ultimately show ?thesis using jsonBody_parses [of v] by auto
qed

theorem margin_answer_typed_witness:
  "\<exists>s' j. marginService demoMarginEth 301 (NewEngine (snapshotReader (\<lambda>_. 3)) (snapshotOracle (\<lambda>_. \<lparr>pr_Value = 1, pr_Decimals = 0\<rparr>)) (marginConfig []))
      (demoMarginRequest ''debt_usd=2'')
      \<lparr>sv_state = [], sv_clock = (\<lambda>n. \<lparr>wall = 0, mono = 0\<rparr>), sv_random = (\<lambda>n. 0), sv_log = [], sv_w = newWriter\<rparr> = (Ok (), s') \<and>
    parsePrefix (w_Body (sv_w s')) = Some (j, [CHR 0x0A]) \<and> (if w_code (sv_w s') = Some 200 then reportType j else errorType j)"
proof (rule margin_answer_typed)
  show "plainSegment ''0xab''" by code_simp
qed (simp_all add: demoMarginRequest_def fresh_def newWriter_def)

end
