(* ===== verification/Rate_Limit.thy ===== *)
theory Rate_Limit
  imports Go_Http
begin

text \<open>
  \<^verbatim>\<open>internal/gateway/ratelimit.go\<close>: the \<^verbatim>\<open>Limiter\<close> interface and the in-memory token bucket. Amounts are
  \<^verbatim>\<open>float64\<close> values; \<open>fused\<close> says whether the compiler combines the multiplication and the addition of the
  refill into one operation, which the language leaves open. The clock reading is an argument.
\<close>

section \<open>Definitions\<close>

record 'l Limiter =
  Allow :: "instant \<Rightarrow> string \<Rightarrow> ('l, bool) eff"

record bucket =
  bk_tokens :: rat
  bk_last :: instant

record RateLimiter =
  rl_rate :: rat
  rl_burst :: rat
  rl_buckets :: "string \<rightharpoonup> bucket"

definition NewRateLimiter :: "rat \<Rightarrow> rat \<Rightarrow> RateLimiter" where
  "NewRateLimiter rate burst = \<lparr>rl_rate = rate, rl_burst = burst, rl_buckets = Map.empty\<rparr>"

text \<open>\<^verbatim>\<open>min(rl.burst, b.tokens+now.Sub(b.last).Seconds()*rl.rate)\<close>\<close>

definition refill :: "bool \<Rightarrow> RateLimiter \<Rightarrow> instant \<Rightarrow> bucket \<Rightarrow> rat" where
  "refill fused rl now b =
     (let earned = Seconds (time_Sub now (bk_last b)) * rl_rate rl in
      min (rl_burst rl) (fl (bk_tokens b + (if fused then earned else fl earned))))"

definition rl_Allow :: "bool \<Rightarrow> instant \<Rightarrow> string \<Rightarrow> (RateLimiter, bool) eff" where
  "rl_Allow fused now key rl =
     (case rl_buckets rl key of
        None \<Rightarrow>
          (Ok True, rl\<lparr>rl_buckets := (rl_buckets rl)(key \<mapsto> \<lparr>bk_tokens = fl (rl_burst rl - 1), bk_last = now\<rparr>)\<rparr>)
      | Some b \<Rightarrow>
          (let tokens = refill fused rl now b in
           if tokens < 1
           then (Ok False, rl\<lparr>rl_buckets := (rl_buckets rl)(key \<mapsto> \<lparr>bk_tokens = tokens, bk_last = now\<rparr>)\<rparr>)
           else (Ok True, rl\<lparr>rl_buckets := (rl_buckets rl)(key \<mapsto> \<lparr>bk_tokens = fl (tokens - 1), bk_last = now\<rparr>)\<rparr>)))"

definition memLimiter :: "bool \<Rightarrow> RateLimiter Limiter" where
  "memLimiter fused = \<lparr>Allow = rl_Allow fused\<rparr>"


section \<open>Sequences of requests\<close>

text \<open>The decisions on a sequence of requests (clock reading and key).\<close>

fun serve :: "bool \<Rightarrow> (instant \<times> string) list \<Rightarrow> RateLimiter \<Rightarrow> bool list \<times> RateLimiter" where
  "serve fused [] rl = ([], rl)"
| "serve fused ((now, key) # rs) rl =
     (case rl_Allow fused now key rl of
        (res, rl') \<Rightarrow> (case serve fused rs rl' of (bs, rl'') \<Rightarrow> ((res = Ok True) # bs, rl'')))"

text \<open>The decisions that concern one key.\<close>

definition decisionsFor :: "string \<Rightarrow> (instant \<times> string) list \<Rightarrow> bool list \<Rightarrow> bool list" where
  "decisionsFor key rs bs = map snd (filter (\<lambda>(r, b). snd r = key) (zip rs bs))"

definition requestsFor :: "string \<Rightarrow> (instant \<times> string) list \<Rightarrow> (instant \<times> string) list" where
  "requestsFor key rs = filter (\<lambda>r. snd r = key) rs"

definition admitted :: "bool list \<Rightarrow> nat" where
  "admitted bs = length (filter id bs)"

text \<open>The parameters are sensible (\<open>burst\<close> is a float), and every bucket holds between zero and
  \<open>burst\<close> tokens.\<close>

definition buckets_ok :: "RateLimiter \<Rightarrow> bool" where
  "buckets_ok rl \<longleftrightarrow> 0 \<le> rl_rate rl \<and> 1 \<le> rl_burst rl \<and> fl (rl_burst rl) = rl_burst rl \<and>
     (\<forall>b \<in> ran (rl_buckets rl). 0 \<le> bk_tokens b \<and> bk_tokens b \<le> rl_burst rl)"

lemma ulp_pos: "0 < ulp" "ulp \<le> 1 / 8"
  by (simp_all add: ulp_def)

lemma admitted_simps [simp]: "admitted [] = 0" "admitted (b # bs) = (if b then 1 else 0) + admitted bs"
  by (simp_all add: admitted_def)

subsection \<open>Isolation of keys\<close>

text \<open>A step depends on, and changes, the bucket of its own key only.\<close>

lemma rl_Allow_local:
  assumes "rl_rate rl = rl_rate rl2" "rl_burst rl = rl_burst rl2" "rl_buckets rl key = rl_buckets rl2 key"
  shows "fst (rl_Allow fused now key rl) = fst (rl_Allow fused now key rl2)"
    and "rl_buckets (snd (rl_Allow fused now key rl)) key = rl_buckets (snd (rl_Allow fused now key rl2)) key"
  using assms by (auto simp: rl_Allow_def refill_def Let_def split: option.splits)

lemma rl_Allow_params:
  "rl_Allow fused now key rl = (res, rl') \<Longrightarrow> rl_rate rl' = rl_rate rl \<and> rl_burst rl' = rl_burst rl"
  by (auto simp: rl_Allow_def Let_def split: option.splits if_splits)

lemma rl_Allow_other: "k \<noteq> key \<Longrightarrow> rl_buckets (snd (rl_Allow fused now key rl)) k = rl_buckets rl k"
  by (auto simp: rl_Allow_def Let_def split: option.splits)

lemma serve_Cons_eq:
  "serve fused ((now, key) # rs) rl =
     (let (res, rl') = rl_Allow fused now key rl; (bs, rl'') = serve fused rs rl' in ((res = Ok True) # bs, rl''))"
  by (simp split: prod.splits)

lemma length_serve [simp]: "length (fst (serve fused rs rl)) = length rs"
  by (induction rs arbitrary: rl) (auto split: prod.splits, metis fst_conv)

text \<open>Decisions for a key are those of a limiter that sees that key's requests alone.\<close>

lemma serve_isolated:
  assumes "rl_rate rl = rl_rate rl2" "rl_burst rl = rl_burst rl2" "rl_buckets rl key = rl_buckets rl2 key"
  shows "decisionsFor key rs (fst (serve fused rs rl)) = fst (serve fused (requestsFor key rs) rl2)"
  using assms
proof (induction rs arbitrary: rl rl2)
  case Nil
  then show ?case by (simp add: decisionsFor_def requestsFor_def)
next
  case (Cons r rs)
  obtain now k where r: "r = (now, k)" by (cases r)
  obtain res rl' where step: "rl_Allow fused now k rl = (res, rl')" by (cases "rl_Allow fused now k rl")
  show ?case
  proof (cases "k = key")
    case True
    obtain res2 rl2' where step2: "rl_Allow fused now key rl2 = (res2, rl2')" by (cases "rl_Allow fused now key rl2")
    have same: "res = res2" "rl_buckets rl' key = rl_buckets rl2' key"
      using rl_Allow_local [of rl rl2 key fused now] Cons.prems step step2 True by simp_all
    have "rl_rate rl' = rl_rate rl2'" "rl_burst rl' = rl_burst rl2'"
      using rl_Allow_params [OF step] rl_Allow_params [OF step2] Cons.prems by simp_all
    from Cons.IH [OF this same(2)] show ?thesis
      using r True step step2 same(1) by (auto simp: decisionsFor_def requestsFor_def split: prod.splits)
  next
    case False
    have "rl_rate rl' = rl_rate rl2" "rl_burst rl' = rl_burst rl2" "rl_buckets rl' key = rl_buckets rl2 key"
      using rl_Allow_params [OF step] rl_Allow_other [of key k fused now rl] Cons.prems step False by auto
    from Cons.IH [OF this] show ?thesis
      using r False step by (auto simp: decisionsFor_def requestsFor_def split: prod.splits)
  qed
qed


subsection \<open>Tokens\<close>

lemma time_Sub_nonneg: "mono t \<le> mono u \<Longrightarrow> 0 \<le> time_Sub u t \<and> time_Sub u t \<le> mono u - mono t"
  by (auto simp: time_Sub_def minDuration_def maxDuration_def)

text \<open>One refill adds at most the elapsed time times the rate, up to rounding.\<close>

definition slack :: "RateLimiter \<Rightarrow> rat" where
  "slack rl = ulp * (2 * rl_burst rl + 8 * rl_rate rl + 4)"

definition earnable :: "RateLimiter \<Rightarrow> instant \<Rightarrow> instant \<Rightarrow> rat" where
  "earnable rl t u = rl_rate rl * (of_int (mono u - mono t) / 10 ^ 9) * (1 + ulp) ^ 3"

lemma refill_bounds:
  assumes "buckets_ok rl" and "0 \<le> bk_tokens b" and "bk_tokens b \<le> rl_burst rl" and "mono (bk_last b) \<le> mono now"
  shows "0 \<le> refill fused rl now b" and "refill fused rl now b \<le> rl_burst rl"
    and "refill fused rl now b \<le> bk_tokens b + earnable rl (bk_last b) now + ulp * (rl_burst rl + 8 * rl_rate rl + 4)"
proof -
  let ?B = "rl_burst rl" and ?r = "rl_rate rl" and ?t = "bk_tokens b"
  let ?d = "time_Sub now (bk_last b)"
  let ?S = "of_int (mono now - mono (bk_last b)) / 10 ^ 9 :: rat"
  have rB: "0 \<le> ?r" "1 \<le> ?B" using assms(1) by (simp_all add: buckets_ok_def)
  have d: "0 \<le> ?d" "?d \<le> mono now - mono (bk_last b)" using time_Sub_nonneg [OF assms(4)] by simp_all
  have u: "0 < ulp" "ulp \<le> 1 / 8" by (rule ulp_pos)+
  have "(of_int ?d :: rat) \<le> of_int (mono now - mono (bk_last b))" using d(2) by (simp only: of_int_le_iff)
  then have "of_int ?d / 10 ^ 9 \<le> ?S" by (rule divide_right_mono) simp
  then have "of_int ?d / 10 ^ 9 * (1 + ulp) \<le> ?S * (1 + ulp)" using u(1) by (intro mult_right_mono) simp_all
  then have sf: "Seconds ?d \<le> ?S * (1 + ulp) + 4 * ulp" using Seconds_le [OF d(1)] by linarith
  let ?e = "Seconds ?d * ?r"
  have e0: "0 \<le> ?e" using Seconds_nonneg [OF d(1)] rB by simp
  have e: "?e \<le> ?r * ?S * (1 + ulp) + 4 * ulp * ?r"
    using mult_right_mono [OF sf rB(1)] by (simp add: algebra_simps)
  let ?p = "if fused then ?e else fl ?e"
  have p0: "0 \<le> ?p" using e0 fl_nonneg by simp
  have p: "?p \<le> ?e * (1 + ulp) + ulp"
  proof (cases fused)
    case True
    have "0 \<le> ?e * ulp" using e0 u(1) by simp
    then show ?thesis using True u(1) by (simp add: distrib_left)
  next
    case False
    then show ?thesis using fl_le [OF e0] by (simp add: algebra_simps)
  qed
  show "0 \<le> refill fused rl now b"
    using rB fl_nonneg [of "?t + ?p"] assms(2) p0 by (simp add: refill_def Let_def)
  show "refill fused rl now b \<le> ?B" by (simp add: refill_def Let_def)
  have "refill fused rl now b \<le> fl (?t + ?p)" by (simp add: refill_def Let_def)
  also have "\<dots> \<le> (?t + ?p) * (1 + ulp) + ulp"
    using fl_le [of "?t + ?p"] assms(2) p0 by (simp add: algebra_simps)
  also have "\<dots> = ?t + ulp * ?t + ?p * (1 + ulp) + ulp" by (simp add: algebra_simps)
  also have "\<dots> \<le> ?t + ulp * ?B + (?r * ?S * (1 + ulp) ^ 3 + 8 * ulp * ?r + 2 * ulp) + ulp"
  proof -
    have 1: "ulp * ?t \<le> ulp * ?B" using assms(3) u(1) by simp
    have "?e * (1 + ulp) \<le> (?r * ?S * (1 + ulp) + 4 * ulp * ?r) * (1 + ulp)"
      using e u(1) by (intro mult_right_mono) simp_all
    then have "?p \<le> (?r * ?S * (1 + ulp) + 4 * ulp * ?r) * (1 + ulp) + ulp" using p by linarith
    then have "?p * (1 + ulp) \<le> ((?r * ?S * (1 + ulp) + 4 * ulp * ?r) * (1 + ulp) + ulp) * (1 + ulp)"
      using u(1) by (intro mult_right_mono) simp_all
    also have "\<dots> = ?r * ?S * (1 + ulp) ^ 3 + 4 * ulp * ?r * (1 + ulp) ^ 2 + ulp * (1 + ulp)"
      by (simp add: algebra_simps power2_eq_square power3_eq_cube)
    also have "\<dots> \<le> ?r * ?S * (1 + ulp) ^ 3 + 4 * ulp * ?r * 2 + ulp * 2"
    proof -
      have "(1 + ulp) ^ 2 \<le> (1 + 1 / 8 :: rat) ^ 2" using u by (intro power_mono) simp_all
      then have "(1 + ulp) ^ 2 \<le> 2" by (simp add: power2_eq_square)
      then have "4 * ulp * ?r * (1 + ulp) ^ 2 \<le> 4 * ulp * ?r * 2" using u(1) rB(1) by (intro mult_left_mono) simp_all
      moreover have "ulp * (1 + ulp) \<le> ulp * 2" using u by (intro mult_left_mono) simp_all
      ultimately show ?thesis by linarith
    qed
    finally have 2: "?p * (1 + ulp) \<le> ?r * ?S * (1 + ulp) ^ 3 + 8 * ulp * ?r + 2 * ulp" by simp
    from 1 2 show ?thesis by linarith
  qed
  also have "\<dots> \<le> ?t + earnable rl (bk_last b) now + ulp * (?B + 8 * ?r + 4)"
    using u(1) by (simp add: earnable_def algebra_simps)
  finally show "refill fused rl now b \<le> ?t + earnable rl (bk_last b) now + ulp * (?B + 8 * ?r + 4)" .
qed


lemma slack_nonneg: "buckets_ok rl \<Longrightarrow> 0 \<le> slack rl"
  using ulp_pos(1) by (simp add: slack_def buckets_ok_def)

lemma take_token:
  assumes "buckets_ok rl" and "1 \<le> t" and "t \<le> rl_burst rl"
  shows "0 \<le> fl (t - 1)" and "fl (t - 1) \<le> rl_burst rl" and "1 + fl (t - 1) \<le> t + ulp * rl_burst rl"
proof -
  show "0 \<le> fl (t - 1)" using assms(2) by (simp add: fl_nonneg)
  have "fl (t - 1) \<le> t - 1 + ulp * t" using fl_le [of "t - 1"] assms(2) by simp
  moreover have "ulp * t \<le> ulp * rl_burst rl" using assms(3) ulp_pos(1) by simp
  ultimately show le: "1 + fl (t - 1) \<le> t + ulp * rl_burst rl" by linarith
  have "fl (t - 1) \<le> fl (rl_burst rl)" using assms(3) by (intro fl_mono) simp
  then show "fl (t - 1) \<le> rl_burst rl" using assms(1) by (simp add: buckets_ok_def)
qed

text \<open>A step keeps the invariant; an admitted request is paid for by the bucket.\<close>

definition clockBefore :: "RateLimiter \<Rightarrow> instant \<Rightarrow> bool" where
  "clockBefore rl now \<longleftrightarrow> (\<forall>b \<in> ran (rl_buckets rl). mono (bk_last b) \<le> mono now)"

lemma ran_update: "b \<in> ran (m(k \<mapsto> v)) \<Longrightarrow> b = v \<or> b \<in> ran m"
  by (auto simp: ran_def split: if_splits)

lemma rl_Allow_step:
  assumes ok: "buckets_ok rl" and clk: "clockBefore rl now" and step: "rl_Allow fused now key rl = (res, rl')"
  obtains b' where "rl' = rl\<lparr>rl_buckets := (rl_buckets rl)(key \<mapsto> b')\<rparr>" and "bk_last b' = now"
    and "0 \<le> bk_tokens b'" and "bk_tokens b' \<le> rl_burst rl"
    and "(if res = Ok True then 1 else 0) + bk_tokens b' \<le> rl_burst rl + slack rl"
    and "\<And>b. rl_buckets rl key = Some b \<Longrightarrow>
      (if res = Ok True then 1 else 0) + bk_tokens b' \<le> bk_tokens b + earnable rl (bk_last b) now + slack rl"
    and "\<exists>a. res = Ok a"
proof -
  have rB: "0 \<le> rl_rate rl" "1 \<le> rl_burst rl" using ok by (simp_all add: buckets_ok_def)
  have sl: "ulp * rl_burst rl \<le> slack rl" "ulp * (rl_burst rl + 8 * rl_rate rl + 4) + ulp * rl_burst rl = slack rl"
    using rB ulp_pos(1) by (simp_all add: slack_def algebra_simps)
  show thesis
  proof (cases "rl_buckets rl key")
    case None
    then show thesis
      using step sl(1) take_token [OF ok rB(2) order.refl]
      by (intro that [of "\<lparr>bk_tokens = fl (rl_burst rl - 1), bk_last = now\<rparr>"]) (auto simp: rl_Allow_def)
  next
    case (Some b)
    then have b: "0 \<le> bk_tokens b" "bk_tokens b \<le> rl_burst rl" "mono (bk_last b) \<le> mono now"
      using ok clk by (auto simp: buckets_ok_def clockBefore_def ran_def)
    let ?t = "refill fused rl now b"
    note rf = refill_bounds [OF ok b, of fused]
    show thesis
    proof (cases "?t < 1")
      case True
      have "0 \<le> ulp * rl_burst rl" using rB(2) ulp_pos(1) by simp
      then show thesis
        using step Some True rf sl
        by (intro that [of "\<lparr>bk_tokens = ?t, bk_last = now\<rparr>"]) (auto simp: rl_Allow_def Let_def)
    next
      case False
      then have "1 \<le> ?t" by simp
      from take_token [OF ok this rf(2)] show thesis
        using step Some False rf sl
        by (intro that [of "\<lparr>bk_tokens = fl (?t - 1), bk_last = now\<rparr>"]) (auto simp: rl_Allow_def Let_def)
    qed
  qed
qed

lemma rl_Allow_invariant:
  assumes "buckets_ok rl" and "clockBefore rl now" and "rl_Allow fused now key rl = (res, rl')"
  shows "buckets_ok rl' \<and> clockBefore rl' now"
proof -
  obtain b' where b': "rl' = rl\<lparr>rl_buckets := (rl_buckets rl)(key \<mapsto> b')\<rparr>" "bk_last b' = now"
    "0 \<le> bk_tokens b'" "bk_tokens b' \<le> rl_burst rl"
    using rl_Allow_step [OF assms] by metis
  then show ?thesis
    using assms(1,2) by (auto simp: buckets_ok_def clockBefore_def dest!: ran_update)
qed

lemma clockBefore_mono: "clockBefore rl now \<Longrightarrow> mono now \<le> mono t \<Longrightarrow> clockBefore rl t"
  by (fastforce simp: clockBefore_def)

text \<open>Requests with a clock that does not run backwards.\<close>

definition inOrder :: "(instant \<times> string) list \<Rightarrow> bool" where
  "inOrder rs \<longleftrightarrow> sorted (map (mono \<circ> fst) rs)"

lemma earnable_add: "earnable rl t u + earnable rl u v = earnable rl t v"
  by (simp add: earnable_def algebra_simps add_divide_distrib diff_divide_distrib)

lemma serve_one_key:
  assumes "buckets_ok rl" and "clockBefore rl t0" and "rl_buckets rl key = Some b" and "bk_last b = t0"
    and "sorted (mono t0 # map (mono \<circ> fst) rs)" and "\<forall>r \<in> set rs. snd r = key"
  shows "of_nat (admitted (fst (serve fused rs rl)))
    \<le> bk_tokens b + earnable rl t0 (last (t0 # map fst rs)) + of_nat (length rs) * slack rl"
  using assms
proof (induction rs arbitrary: rl t0 b)
  case Nil
  then show ?case by (auto simp: buckets_ok_def earnable_def ran_def)
next
  case (Cons r rs)
  obtain now where r: "r = (now, key)" using Cons.prems(6) by (cases r) auto
  obtain res rl' where step: "rl_Allow fused now key rl = (res, rl')" by (cases "rl_Allow fused now key rl")
  have clk: "clockBefore rl now" using clockBefore_mono [OF Cons.prems(2)] Cons.prems(5) r by simp
  obtain b' where b': "rl' = rl\<lparr>rl_buckets := (rl_buckets rl)(key \<mapsto> b')\<rparr>" "bk_last b' = now"
    "(if res = Ok True then 1 else 0) + bk_tokens b' \<le> bk_tokens b + earnable rl t0 now + slack rl"
    using rl_Allow_step [OF Cons.prems(1) clk step] Cons.prems(3,4) by metis
  have inv: "buckets_ok rl'" "clockBefore rl' now" using rl_Allow_invariant [OF Cons.prems(1) clk step] by simp_all
  have par: "slack rl' = slack rl" "\<And>t u. earnable rl' t u = earnable rl t u"
    using b'(1) by (simp_all add: slack_def earnable_def)
  have "of_nat (admitted (fst (serve fused rs rl')))
      \<le> bk_tokens b' + earnable rl now (last (now # map fst rs)) + of_nat (length rs) * slack rl"
    using Cons.IH [OF inv, of b'] b'(1,2) Cons.prems(5,6) r par by simp
  moreover have "admitted (fst (serve fused (r # rs) rl)) = (if res = Ok True then 1 else 0) + admitted (fst (serve fused rs rl'))"
    using r step by (auto split: prod.splits)
  ultimately show ?case
    using b'(3) earnable_add [of rl t0 now "last (now # map fst rs)"] r
    by (simp add: algebra_simps split: if_splits)
qed


lemma serve_first_key:
  assumes "buckets_ok rl" and "clockBefore rl t0" and "sorted (mono t0 # map (mono \<circ> fst) rs)"
    and "\<forall>r \<in> set rs. snd r = key"
  shows "of_nat (admitted (fst (serve fused ((t0, key) # rs) rl)))
    \<le> rl_burst rl + earnable rl t0 (last (t0 # map fst rs)) + of_nat (Suc (length rs)) * slack rl"
proof -
  obtain res rl' where step: "rl_Allow fused t0 key rl = (res, rl')" by (cases "rl_Allow fused t0 key rl")
  obtain b' where b': "rl' = rl\<lparr>rl_buckets := (rl_buckets rl)(key \<mapsto> b')\<rparr>" "bk_last b' = t0"
    "(if res = Ok True then 1 else 0) + bk_tokens b' \<le> rl_burst rl + slack rl"
    using rl_Allow_step [OF assms(1,2) step] by metis
  have inv: "buckets_ok rl'" "clockBefore rl' t0" using rl_Allow_invariant [OF assms(1,2) step] by simp_all
  have par: "slack rl' = slack rl" "\<And>t u. earnable rl' t u = earnable rl t u"
    using b'(1) by (simp_all add: slack_def earnable_def)
  have "of_nat (admitted (fst (serve fused rs rl')))
      \<le> bk_tokens b' + earnable rl t0 (last (t0 # map fst rs)) + of_nat (length rs) * slack rl"
    using serve_one_key [OF inv _ _ assms(3,4), of b'] b'(1,2) par by simp
  moreover have "admitted (fst (serve fused ((t0, key) # rs) rl)) =
      (if res = Ok True then 1 else 0) + admitted (fst (serve fused rs rl'))"
    using step by (auto split: prod.splits)
  ultimately show ?thesis using b'(3) by (simp add: algebra_simps split: if_splits)
qed

lemma serve_burst_step:
  assumes "0 < n" and "n < 2 ^ 53"
  shows "fl (of_int n - 1) = (of_int (n - 1) :: rat)" and "fl (of_int n) = (of_int n :: rat)"
  using assms fl_of_int [of "n - 1"] fl_of_int [of n] by simp_all

lemma Seconds_0 [simp]: "Seconds 0 = 0"
  using Seconds_whole [of 0] by simp

text \<open>A bucket that holds \<open>k\<close> whole tokens admits exactly \<open>k\<close> of the requests made at one instant.\<close>

lemma serve_instant:
  assumes "rl_buckets rl key = Some \<lparr>bk_tokens = of_nat k, bk_last = t\<rparr>" and "of_nat k \<le> rl_burst rl" and "k < 2 ^ 53"
  shows "fst (serve fused (replicate n (t, key)) rl) = replicate (min n k) True @ replicate (n - k) False"
  using assms
proof (induction n arbitrary: rl k)
  case (Suc n)
  let ?b = "\<lparr>bk_tokens = of_nat k, bk_last = t\<rparr>"
  have 0: "time_Sub t t = 0" by (simp add: time_Sub_def minDuration_def maxDuration_def)
  have exact: "fl (of_nat k :: rat) = of_nat k" using fl_of_int [of "int k"] Suc.prems(3) by simp
  have rf: "refill fused rl t ?b = of_nat k"
    using Suc.prems(2) exact by (simp add: refill_def 0)
  show ?case
  proof (cases k)
    case 0
    let ?rl' = "rl\<lparr>rl_buckets := (rl_buckets rl)(key \<mapsto> ?b)\<rparr>"
    have "rl_Allow fused t key rl = (Ok False, ?rl')"
      using Suc.prems(1) rf 0 by (simp add: rl_Allow_def)
    moreover have "fst (serve fused (replicate n (t, key)) ?rl') = replicate n False"
      using Suc.IH [of ?rl' 0] Suc.prems(2) 0 by simp
    ultimately show ?thesis using 0 by (auto split: prod.splits)
  next
    case (Suc j)
    let ?b' = "\<lparr>bk_tokens = of_nat j, bk_last = t\<rparr>"
    let ?rl' = "rl\<lparr>rl_buckets := (rl_buckets rl)(key \<mapsto> ?b')\<rparr>"
    have j: "fl (of_nat k - 1) = (of_nat j :: rat)"
      using fl_of_int [of "int j"] Suc.prems(3) Suc by simp
    have "rl_Allow fused t key rl = (Ok True, ?rl')"
      using Suc.prems(1) rf j Suc by (simp add: rl_Allow_def Let_def)
    moreover have "fst (serve fused (replicate n (t, key)) ?rl') = replicate (min n j) True @ replicate (n - j) False"
      using Suc.IH [of ?rl' j] Suc.prems(2,3) Suc by simp
    ultimately show ?thesis using Suc by (auto split: prod.splits)
  qed
qed simp


section \<open>Properties\<close>

text \<open>C9. In any stretch of traffic the in-memory limiter admits, for one key, at most \<open>burst\<close> requests
  plus what the rate earns between the key's first and last request, up to floating-point rounding
  (a relative error below \<open>2 ^ -50\<close> on the earned amount, and a fixed error of a few units of
  \<open>2 ^ -53\<close> per request), whatever the other keys do and however the refill is compiled.\<close>

theorem rate_limit_window:
  assumes "buckets_ok rl" and "inOrder rs" and "\<forall>r \<in> set rs. clockBefore rl (fst r)"
    and "requestsFor key rs \<noteq> []"
  shows "of_nat (admitted (decisionsFor key rs (fst (serve fused rs rl))))
    \<le> rl_burst rl
      + rl_rate rl * (of_int (mono (fst (last (requestsFor key rs))) - mono (fst (hd (requestsFor key rs)))) / 10 ^ 9)
          * (1 + 1 / 2 ^ 53) ^ 3
      + of_nat (length (requestsFor key rs)) * (2 * rl_burst rl + 8 * rl_rate rl + 4) / 2 ^ 53"
proof -
  obtain r rs' where q: "requestsFor key rs = r # rs'" using assms(4) by (cases "requestsFor key rs") auto
  have sub: "set (r # rs') \<subseteq> set rs" "\<forall>x \<in> set (r # rs'). snd x = key"
    unfolding q [symmetric] by (auto simp: requestsFor_def)
  obtain t0 where r: "r = (t0, key)" using sub(2) by (cases r) auto
  have "sorted (map (mono \<circ> fst) (requestsFor key rs))"
    using assms(2) unfolding inOrder_def requestsFor_def by (rule sorted_filter)
  then have srt: "sorted (mono t0 # map (mono \<circ> fst) rs')" using q r by simp
  have clk: "clockBefore rl t0" using assms(3) sub(1) r by auto
  have lst: "last (t0 # map fst rs') = fst (last (requestsFor key rs))" using q r by (simp add: last_map)
  have "decisionsFor key rs (fst (serve fused rs rl)) = fst (serve fused ((t0, key) # rs') rl)"
    using serve_isolated [of rl rl key rs fused] q r by simp
  then show ?thesis
    using serve_first_key [OF assms(1) clk srt, of key fused] sub(2) lst q r
    by (simp add: earnable_def slack_def ulp_def)
qed

theorem rate_limit_window_witness:
  "(let t = \<lambda>n. \<lparr>wall = 0, mono = n * Second\<rparr>; rl = NewRateLimiter 20 40;
        rs = [(t 0, ''a''), (t 1, ''b''), (t 2, ''a'')]
    in buckets_ok rl \<and> inOrder rs \<and> requestsFor ''a'' rs \<noteq> [] \<and>
      of_nat (admitted (decisionsFor ''a'' rs (fst (serve False rs rl))))
        \<le> (40 :: rat) + 20 * 2 * (1 + 1 / 2 ^ 53) ^ 3 + 2 * (2 * 40 + 8 * 20 + 4) / 2 ^ 53)"
proof -
  let ?t = "\<lambda>n. \<lparr>wall = 0, mono = n * Second\<rparr>"
  let ?rs = "[(?t 0, ''a''), (?t 1, ''b''), (?t 2, ''a'')]"
  have ok: "buckets_ok (NewRateLimiter 20 40)"
    using fl_of_int [of 40] by (simp add: buckets_ok_def NewRateLimiter_def)
  have ord: "inOrder ?rs" by (simp add: inOrder_def Second_def)
  have req: "requestsFor ''a'' ?rs = [(?t 0, ''a''), (?t 2, ''a'')]" by (simp add: requestsFor_def)
  have clk: "\<forall>r \<in> set ?rs. clockBefore (NewRateLimiter 20 40) (fst r)" by (simp add: clockBefore_def NewRateLimiter_def)
  have par: "rl_burst (NewRateLimiter 20 40) = 40" "rl_rate (NewRateLimiter 20 40) = 20" by (simp_all add: NewRateLimiter_def)
  have el: "of_int (mono (fst (last (requestsFor ''a'' ?rs))) - mono (fst (hd (requestsFor ''a'' ?rs)))) / 10 ^ 9 = (2 :: rat)"
    "of_nat (length (requestsFor ''a'' ?rs)) = (2 :: rat)" "requestsFor ''a'' ?rs \<noteq> []"
    unfolding req by (simp_all add: Second_def)
  from rate_limit_window [OF ok ord clk el(3), of False] show ?thesis
    unfolding Let_def par el(1,2) using ok ord el(3) by blast
qed

text \<open>C35. On a fresh limiter with an integral burst, of any number of requests a client sends at one
  instant exactly the first \<open>burst\<close> are admitted.\<close>

theorem rate_limit_burst:
  assumes "1 \<le> B" and "B < 2 ^ 53"
  shows "fst (serve fused (replicate n (t, key)) (NewRateLimiter rate (of_nat B)))
    = replicate (min n B) True @ replicate (n - B) False"
proof (cases n)
  case (Suc m)
  let ?rl = "NewRateLimiter rate (of_nat B)"
  let ?rl' = "?rl\<lparr>rl_buckets := (rl_buckets ?rl)(key \<mapsto> \<lparr>bk_tokens = of_nat (B - 1), bk_last = t\<rparr>)\<rparr>"
  have "fl (of_nat B - 1) = (of_nat (B - 1) :: rat)"
    using fl_of_int [of "int (B - 1)"] assms by (simp add: of_nat_diff)
  then have "rl_Allow fused t key ?rl = (Ok True, ?rl')"
    by (simp add: rl_Allow_def NewRateLimiter_def)
  then have "fst (serve fused (replicate n (t, key)) ?rl) = True # fst (serve fused (replicate m (t, key)) ?rl')"
    using Suc by (simp split: prod.split)
  moreover have "fst (serve fused (replicate m (t, key)) ?rl') = replicate (min m (B - 1)) True @ replicate (m - (B - 1)) False"
    using assms by (intro serve_instant) (simp_all add: NewRateLimiter_def of_nat_diff)
  moreover have "min n B = Suc (min m (B - 1))" "n - B = m - (B - 1)" using assms(1) Suc by auto
  ultimately show ?thesis by (simp only: replicate_Suc append_Cons)
qed simp

theorem rate_limit_burst_witness:
  "fst (serve True (replicate 3 (\<lparr>wall = 0, mono = 0\<rparr>, ''k'')) (NewRateLimiter 20 2)) = [True, True, False]"
proof -
  have "replicate (min 3 2) True @ replicate (3 - 2) False = [True, True, False]" by (simp add: eval_nat_numeral)
  moreover have "(1 :: nat) \<le> 2" "(2 :: nat) < 2 ^ 53" "of_nat 2 = (2 :: rat)" by simp_all
  ultimately show ?thesis
    using rate_limit_burst [of 2 True 3 "\<lparr>wall = 0, mono = 0\<rparr>" "''k''" 20] by metis
qed

end
