(* ===== verification/Gateway.thy ===== *)
theory Gateway
  imports Go_Mux Go_Proxy Rate_Limit
begin

text \<open>
  Package \<^verbatim>\<open>internal/gateway\<close> (\<^verbatim>\<open>gateway.go\<close>): token endpoint, rate limit, token check and the reverse proxies.
  The gateway's own state is the limiter and the network behind the transport. \<^verbatim>\<open>url.Parse\<close> and the transport
  are arguments.
\<close>

section \<open>Definitions\<close>

record Client =
  cli_Secret :: string
  cli_Role :: string

record 'l GatewayConfig =
  gc_Auth :: Authenticator
  gc_Clients :: "string \<rightharpoonup> Client"
  gc_UserURL :: string
  gc_WalletURL :: string
  gc_MarginURL :: string
  gc_RateLimit :: "'l Limiter option"

record ('l, 'u) Gateway =
  gw_cfg :: "'l GatewayConfig"
  gw_userProxy :: "('l \<times> 'u) handler"
  gw_walletProxy :: "('l \<times> 'u) handler"
  gw_marginProxy :: "('l \<times> 'u) handler"

text \<open>The director \<^verbatim>\<open>newProxy\<close> installs.\<close>

definition proxyDirector :: "URL \<Rightarrow> Request \<Rightarrow> Request" where
  "proxyDirector target r =
     (let u = rewriteRequestURL target (rq_URL r) in
      r\<lparr>rq_URL := u\<lparr>u_Path := TrimPrefix (u_Path u) ''/api/v1''\<rparr>, rq_Host := u_Host target\<rparr>)"

definition newProxy :: "(Request \<Rightarrow> ('u, Response) eff) \<Rightarrow> URL \<Rightarrow> ('l \<times> 'u) handler" where
  "newProxy transport target = ReverseProxy (proxyDirector target) (\<lambda>out. on_snd (transport out))"

definition NewGateway ::
  "(string \<Rightarrow> URL result) \<Rightarrow> (Request \<Rightarrow> ('u, Response) eff) \<Rightarrow> 'l GatewayConfig \<Rightarrow> ('l, 'u) Gateway result" where
  "NewGateway url_Parse transport cfg =
     bind_result (url_Parse (gc_UserURL cfg)) (\<lambda>uu.
     bind_result (url_Parse (gc_WalletURL cfg)) (\<lambda>wu.
     bind_result (url_Parse (gc_MarginURL cfg)) (\<lambda>mu.
       Ok \<lparr>gw_cfg = cfg, gw_userProxy = newProxy transport uu, gw_walletProxy = newProxy transport wu,
           gw_marginProxy = newProxy transport mu\<rparr>)))"

definition tokenRequest :: "string list" where
  "tokenRequest = [''client_id'', ''client_secret'']"

definition token_any :: "Token \<Rightarrow> any" where
  "token_any t = AStruct [(''access_token'', AString (tk_AccessToken t)), (''token_type'', AString (tk_TokenType t)),
     (''expires_in'', AInt (tk_ExpiresIn t)), (''role'', AString (tk_Role t))]"

definition issueToken :: "Jwt \<Rightarrow> ('l, 'u) Gateway \<Rightarrow> 's handler" where
  "issueToken jwt g r =
     (case DecodeJSON tokenRequest r of
        Ok req \<Rightarrow>
          (case gc_Clients (gw_cfg g) (req ''client_id'') of
             None \<Rightarrow> Error 401 ''invalid client credentials''
           | Some client \<Rightarrow>
               if cli_Secret client \<noteq> req ''client_secret'' then Error 401 ''invalid client credentials''
               else on_err (Issue jwt (gc_Auth (gw_cfg g)) (req ''client_id'') (cli_Role client))
                      (\<lambda>e. Error 500 ''could not issue token'')
                      (\<lambda>tok. JSON 200 (token_any tok)))
      | _ \<Rightarrow> Error 400 ''invalid request body'')"

definition clientIP :: "Request \<Rightarrow> string" where
  "clientIP r =
     (case Cut (rq_RemoteAddr r) (CHR '':'') of
        (host, _, True) \<Rightarrow> host
      | _ \<Rightarrow> rq_RemoteAddr r)"

text \<open>\<^verbatim>\<open>g.cfg.RateLimit == nil || g.cfg.RateLimit.Allow(r.Context(), clientIP(r))\<close>\<close>

definition underLimit :: "('l, 'u) Gateway \<Rightarrow> Request \<Rightarrow> (('l \<times> 'u) srv, bool) eff" where
  "underLimit g r =
     (case gc_RateLimit (gw_cfg g) of
        None \<Rightarrow> ret True
      | Some l \<Rightarrow> bnd time_Now (\<lambda>now. on_state (on_fst (Allow l now (clientIP r)))))"

definition authed :: "Jwt \<Rightarrow> ('l, 'u) Gateway \<Rightarrow> ('l \<times> 'u) handler \<Rightarrow> ('l \<times> 'u) handler" where
  "authed jwt g next r =
     bnd (underLimit g r) (\<lambda>allowed.
       if \<not> allowed then Error 429 ''rate limit exceeded''
       else case CutPrefix (header_Get (rq_Header r) ''Authorization'') ''Bearer '' of
           (raw, ok) \<Rightarrow>
             if \<not> ok then Error 401 ''missing bearer token''
             else on_err (Verify jwt (gc_Auth (gw_cfg g)) raw)
                    (\<lambda>e. Error 401 ''invalid or expired token'')
                    (\<lambda>claims. next (r\<lparr>rq_Header :=
                       header_Set HeaderRole (cl_Role claims) (header_Set HeaderSubject (cl_Subject claims) (rq_Header r))\<rparr>)))"

definition gatewayRoutes :: "Jwt \<Rightarrow> ('l, 'u) Gateway \<Rightarrow> ('l \<times> 'u) route list" where
  "gatewayRoutes jwt g =
     (let v1 = [Lit ''api'', Lit ''v1''] in
      [\<lparr>ro_method = ''GET'', ro_segs = [Lit ''healthz''], ro_handler = healthz\<rparr>,
       \<lparr>ro_method = ''POST'', ro_segs = v1 @ [Lit ''auth'', Lit ''token''], ro_handler = issueToken jwt g\<rparr>,
       \<lparr>ro_method = [], ro_segs = v1 @ [Lit ''users''], ro_handler = authed jwt g (gw_userProxy g)\<rparr>,
       \<lparr>ro_method = [], ro_segs = v1 @ [Lit ''users'', Multi], ro_handler = authed jwt g (gw_userProxy g)\<rparr>,
       \<lparr>ro_method = [], ro_segs = v1 @ [Lit ''wallets''], ro_handler = authed jwt g (gw_walletProxy g)\<rparr>,
       \<lparr>ro_method = [], ro_segs = v1 @ [Lit ''wallets'', Multi], ro_handler = authed jwt g (gw_walletProxy g)\<rparr>,
       \<lparr>ro_method = [], ro_segs = v1 @ [Lit ''margin'', Multi], ro_handler = authed jwt g (gw_marginProxy g)\<rparr>])"

definition GatewayHandler :: "Jwt \<Rightarrow> int \<Rightarrow> ('l, 'u) Gateway \<Rightarrow> ('l \<times> 'u) handler" where
  "GatewayHandler jwt redirectCode g = ServeMux redirectCode (gatewayRoutes jwt g)"


section \<open>Laws\<close>

lemma keeps_issueToken [keeps]: "keeps_state (issueToken jwt g r)"
  unfolding issueToken_def by (auto split: result.splits option.splits intro!: keeps)

text \<open>The upstream only sees requests that the proxy prepared.\<close>

lemma keeps_copyAnswer [keeps]: "keeps_state (copyAnswer res)"
proof -
  let ?w = "if rs_Body res = [] then ret () else Write (rs_Body res) :: ('a srv, unit) eff"
  have w: "keeps_state ?w" by (simp add: keeps)
  have "keeps_state (\<lambda>s. case ?w s of
       (Ok _, s') \<Rightarrow> if rs_truncated res then (Panic ''net/http: abort Handler'', s') else (Ok (), s')
     | (_, s') \<Rightarrow> (Panic ''net/http: abort Handler'', s'))"
    unfolding keeps_state_def
  proof
    fix s :: "'a srv"
    obtain x t where xt: "?w s = (x, t)" by (cases "?w s")
    from keeps_stateD [OF w this] xt
    show "sv_state (snd (case ?w s of
       (Ok _, s') \<Rightarrow> if rs_truncated res then (Panic ''net/http: abort Handler'', s') else (Ok (), s')
     | (_, s') \<Rightarrow> (Panic ''net/http: abort Handler'', s'))) = sv_state s"
      by (cases x) simp_all
  qed
  then show ?thesis unfolding copyAnswer_def by (intro keeps) auto
qed

lemma keeps_proxyError [keeps]: "keeps_state proxyError"
  unfolding proxyError_def by (intro keeps)

lemma keeps_handleUpgrade [keeps]: "keeps_state (handleUpgrade up res)"
proof -
  let ?m = "bnd (header_edit (\<lambda>h. copyHeader h (rs_Header res))) (\<lambda>_. WriteHeader 101) :: ('a srv, unit) eff"
  have "keeps_state ?m" by (intro keeps)
  moreover have "keeps_state (proxyError :: ('a srv, unit) eff)" by (rule keeps_proxyError)
  ultimately show ?thesis unfolding keeps_state_def handleUpgrade_def Let_def by simp
qed

lemma ReverseProxy_calls:
  assumes Some: "outgoing director r = Some out" and run: "ReverseProxy director rt r s = (res, s')"
  shows "sv_state s' = snd (rt out (sv_state s))"
proof -
  obtain a st where rt: "rt out (sv_state s) = (a, st)" by (cases "rt out (sv_state s)")
  let ?s = "s\<lparr>sv_state := st\<rparr>"
  have on: "on_state (rt out) s = (a, ?s)" using rt by (simp add: on_state_def)
  have "sv_state s' = sv_state ?s"
  proof (cases a)
    case (Ok x)
    show ?thesis
    proof (cases "rs_StatusCode x = 101")
      case True
      then have "handleUpgrade (upgradeType (rq_Header out)) x ?s = (res, s')"
        using run Some on Ok by (simp add: ReverseProxy_def)
      from keeps_stateD [OF keeps_handleUpgrade this] show ?thesis .
    next
      case False
      then have "copyAnswer x ?s = (res, s')" using run Some on Ok by (simp add: ReverseProxy_def)
      from keeps_stateD [OF keeps_copyAnswer this] show ?thesis .
    qed
  next
    case (Err e)
    then have "proxyError ?s = (res, s')" using run Some on by (simp add: ReverseProxy_def)
    from keeps_stateD [OF keeps_proxyError this] show ?thesis .
  next
    case (Panic p)
    then show ?thesis using run Some on by (simp add: ReverseProxy_def)
  qed
  then show ?thesis using rt by simp
qed

lemma ReverseProxy_state:
  assumes "ReverseProxy director rt r s = (res, s')"
  shows "sv_state s' = sv_state s \<or>
    (\<exists>out. outgoing director r = Some out \<and> sv_state s' = snd (rt out (sv_state s)))"
proof (cases "outgoing director r")
  case None
  then have "proxyError s = (res, s')" using assms by (simp add: ReverseProxy_def)
  from keeps_stateD [OF keeps_proxyError this] show ?thesis by simp
qed (use ReverseProxy_calls assms in blast)

end
