(* ===== verification/Gateway_Props.thy ===== *)
theory Gateway_Props
  imports Gateway
begin

text \<open>
  What the gateway guarantees: nothing reaches an upstream without a verified token and the limiter's
  consent, and the identity headers that reach it are the verified ones; tokens are issued to registered
  clients only and are accepted until they expire.
\<close>

lemma CutPrefix_True: "CutPrefix s p = (raw, True) \<longleftrightarrow> s = p @ raw"
  by (auto simp: append_eq_conv_conj) (metis append_take_drop_id)

lemma underLimit_outcome:
  assumes "underLimit g r s = (res, s1)"
  shows "snd (sv_state s1) = snd (sv_state s)" and "\<exists>k. \<forall>n. sv_clock s1 n = sv_clock s (n + k)"
    and "res = Ok True \<Longrightarrow> gc_RateLimit (gw_cfg g) = Some l \<Longrightarrow>
      fst (Allow l (sv_clock s 0) (clientIP r) (fst (sv_state s))) = Ok True"
    and "sv_w s1 = sv_w s"
proof -
  have "snd (sv_state s1) = snd (sv_state s) \<and> (\<exists>k. \<forall>n. sv_clock s1 n = sv_clock s (n + k)) \<and> sv_w s1 = sv_w s \<and>
    (res = Ok True \<longrightarrow> gc_RateLimit (gw_cfg g) = Some l \<longrightarrow>
      fst (Allow l (sv_clock s 0) (clientIP r) (fst (sv_state s))) = Ok True)"
  proof (cases "gc_RateLimit (gw_cfg g)")
    case None
    then show ?thesis using assms by (auto simp: underLimit_def ret_def intro: exI [of _ 0])
  next
    case (Some l')
    obtain x l2 where al: "Allow l' (sv_clock s 0) (clientIP r) (fst (sv_state s)) = (x, l2)"
      by (cases "Allow l' (sv_clock s 0) (clientIP r) (fst (sv_state s))")
    then have "res = x" "s1 = s\<lparr>sv_clock := \<lambda>n. sv_clock s (Suc n), sv_state := (l2, snd (sv_state s))\<rparr>"
      using assms Some by (auto simp: underLimit_def on_state_def on_fst_def split: prod.splits)
    then show ?thesis using Some al by (auto intro: exI [of _ 1])
  qed
  then show "snd (sv_state s1) = snd (sv_state s)" "\<exists>k. \<forall>n. sv_clock s1 n = sv_clock s (n + k)"
    "res = Ok True \<Longrightarrow> gc_RateLimit (gw_cfg g) = Some l \<Longrightarrow>
      fst (Allow l (sv_clock s 0) (clientIP r) (fst (sv_state s))) = Ok True" "sv_w s1 = sv_w s"
    by auto
qed

text \<open>Every way through \<^verbatim>\<open>authed\<close>.\<close>

lemma authed_cases:
  assumes "authed jwt g next r s = (res, s')"
  shows "snd (sv_state s') = snd (sv_state s) \<or>
    (\<exists>raw claims s1 s2. underLimit g r s = (Ok True, s1) \<and>
       header_Get (rq_Header r) ''Authorization'' = ''Bearer '' @ raw \<and>
       Verify jwt (gc_Auth (gw_cfg g)) raw s1 = (Ok claims, s2) \<and>
       next (r\<lparr>rq_Header := header_Set HeaderRole (cl_Role claims)
         (header_Set HeaderSubject (cl_Subject claims) (rq_Header r))\<rparr>) s2 = (res, s'))"
proof -
  obtain u s1 where u: "underLimit g r s = (u, s1)" by (cases "underLimit g r s")
  note s1 = underLimit_outcome(1) [OF u]
  show ?thesis
  proof (cases u)
    case (Ok allowed)
    show ?thesis
    proof (cases allowed)
      case False
      then have "Error 429 ''rate limit exceeded'' s1 = (res, s')" using assms u Ok by (simp add: authed_def)
      from keeps_stateD [OF keeps_JSON(2) this] s1 show ?thesis by simp
    next
      case True
      obtain raw ok where cut: "CutPrefix (header_Get (rq_Header r) ''Authorization'') ''Bearer '' = (raw, ok)"
        by (cases "CutPrefix (header_Get (rq_Header r) ''Authorization'') ''Bearer ''")
      show ?thesis
      proof (cases ok)
        case False
        then have "Error 401 ''missing bearer token'' s1 = (res, s')"
          using assms u Ok True cut by (simp add: authed_def del: CutPrefix.simps)
        from keeps_stateD [OF keeps_JSON(2) this] s1 show ?thesis by simp
      next
        case ok: True
        obtain v s2 where v: "Verify jwt (gc_Auth (gw_cfg g)) raw s1 = (v, s2)"
          by (cases "Verify jwt (gc_Auth (gw_cfg g)) raw s1")
        have s2: "sv_state s2 = sv_state s1" by (rule keeps_stateD [OF keeps_Verify v])
        have run: "(case v of Ok claims \<Rightarrow> next (r\<lparr>rq_Header := header_Set HeaderRole (cl_Role claims)
             (header_Set HeaderSubject (cl_Subject claims) (rq_Header r))\<rparr>) s2
           | Err e \<Rightarrow> Error 401 ''invalid or expired token'' s2 | Panic p \<Rightarrow> (Panic p, s2)) = (res, s')"
          using assms u Ok True cut ok v by (simp add: authed_def on_err_def del: CutPrefix.simps)
        show ?thesis
        proof (cases v)
          case (Ok claims)
          then show ?thesis using run u \<open>u = Ok allowed\<close> True cut ok v by (auto simp: CutPrefix_True simp del: CutPrefix.simps)
        next
          case (Err e)
          then have "Error 401 ''invalid or expired token'' s2 = (res, s')" using run by simp
          from keeps_stateD [OF keeps_JSON(2) this] s1 s2 show ?thesis by simp
        next
          case (Panic p)
          then show ?thesis using run s1 s2 by simp
        qed
      qed
    qed
  qed (use assms u s1 in \<open>simp_all add: authed_def\<close>)
qed

text \<open>The routes of the gateway: the two public ones, and proxies behind \<^verbatim>\<open>authed\<close>.\<close>

lemma gatewayRoutes_cases:
  assumes "NewGateway parse transport cfg = Ok g" and "ro \<in> set (gatewayRoutes jwt g)"
  shows "ro_handler ro = healthz \<or> ro_handler ro = issueToken jwt g \<or>
    (\<exists>target. ro_handler ro = authed jwt g (newProxy transport target))"
  using assms by (auto simp: gatewayRoutes_def Let_def NewGateway_def)

lemma snd_on_snd: "snd (snd (on_snd m st)) = snd (m (snd st))"
  by (cases st) (simp add: on_snd_def split: prod.splits)

lemma newProxy_state:
  assumes "newProxy transport target r s = (res, s')"
  shows "snd (sv_state s') = snd (sv_state s) \<or>
    (\<exists>out. outgoing (proxyDirector target) r = Some out \<and> snd (sv_state s') = snd (transport out (snd (sv_state s))))"
  using ReverseProxy_state [OF assms [unfolded newProxy_def]] by (metis snd_on_snd)

lemma proxyDirector_Header [simp]: "rq_Header (proxyDirector target r) = rq_Header r"
  by (simp add: proxyDirector_def Let_def)

lemma identityHeaders:
  "(header_Set HeaderRole role (header_Set HeaderSubject sub h)) ''X-Auth-Role'' = Some [role]"
  "(header_Set HeaderRole role (header_Set HeaderSubject sub h)) ''X-Auth-Subject'' = Some [sub]"
  by (simp_all add: header_Set_def HeaderRole_def HeaderSubject_def)


text \<open>What a change of the network behind the gateway implies.\<close>

lemma upstream_authenticated:
  assumes "jwt_lawful jwt" and "NewGateway parse transport cfg = Ok g" and "au_issuer (gc_Auth cfg) \<noteq> []"
    and "GatewayHandler jwt code g r s = (res, s')" and "snd (sv_state s') \<noteq> snd (sv_state s)"
  shows "\<exists>tok c out. header_Get (rq_Header r) ''Authorization'' = ''Bearer '' @ tok \<and>
    jwt_carries jwt ''HS256'' (au_secret (gc_Auth cfg)) tok c \<and> cl_Issuer c = au_issuer (gc_Auth cfg) \<and>
    (\<exists>n. timely c (wall (sv_clock s n))) \<and>
    (\<forall>l. gc_RateLimit cfg = Some l \<longrightarrow> fst (Allow l (sv_clock s 0) (clientIP r) (fst (sv_state s))) = Ok True) \<and>
    snd (sv_state s') = snd (transport out (snd (sv_state s))) \<and>
    rq_Header out ''X-Auth-Role'' \<in> {None, Some [cl_Role c]} \<and>
    rq_Header out ''X-Auth-Subject'' \<in> {None, Some [cl_Subject c]}"
proof -
  have cfg: "gw_cfg g = cfg" using assms(2) by (auto simp: NewGateway_def)
  obtain ro ms where ro: "ro \<in> set (gatewayRoutes jwt g)" and run: "ro_handler ro (r\<lparr>rq_pathValues := ms\<rparr>) s = (res, s')"
    using ServeMux_cases [OF assms(4) [unfolded GatewayHandler_def]] assms(5) by metis
  have not_public: "ro_handler ro \<noteq> healthz" "ro_handler ro \<noteq> issueToken jwt g"
    using keeps_stateD [OF keeps_healthz, of "r\<lparr>rq_pathValues := ms\<rparr>" s res s']
      keeps_stateD [OF keeps_issueToken, of jwt g "r\<lparr>rq_pathValues := ms\<rparr>" s res s'] run assms(5) by auto
  then obtain target where au: "authed jwt g (newProxy transport target) (r\<lparr>rq_pathValues := ms\<rparr>) s = (res, s')"
    using gatewayRoutes_cases [OF assms(2) ro] run by auto
  let ?r = "r\<lparr>rq_pathValues := ms\<rparr>"
  obtain raw c s1 s2 where ul: "underLimit g ?r s = (Ok True, s1)"
    and tok: "header_Get (rq_Header r) ''Authorization'' = ''Bearer '' @ raw"
    and v: "Verify jwt (gc_Auth cfg) raw s1 = (Ok c, s2)"
    and px: "newProxy transport target (?r\<lparr>rq_Header := header_Set HeaderRole (cl_Role c)
         (header_Set HeaderSubject (cl_Subject c) (rq_Header r))\<rparr>) s2 = (res, s')"
    using authed_cases [OF au] assms(5) cfg by auto
  note vs = Verify_sound [OF assms(1,3) v]
  have st: "snd (sv_state s2) = snd (sv_state s)" using vs underLimit_outcome(1) [OF ul] by simp
  obtain k where k: "\<And>n. sv_clock s1 n = sv_clock s (n + k)" using underLimit_outcome(2) [OF ul] by auto
  obtain out where out: "outgoing (proxyDirector target) (?r\<lparr>rq_Header := header_Set HeaderRole (cl_Role c)
         (header_Set HeaderSubject (cl_Subject c) (rq_Header r))\<rparr>) = Some out"
    and st': "snd (sv_state s') = snd (transport out (snd (sv_state s)))"
    using newProxy_state [OF px] st assms(5) by auto
  have hd: "rq_Header out ''X-Auth-Role'' \<in> {None, Some [cl_Role c]}" "rq_Header out ''X-Auth-Subject'' \<in> {None, Some [cl_Subject c]}"
    using outgoing_header [OF out, of "''X-Auth-Role''"] outgoing_header [OF out, of "''X-Auth-Subject''"]
    by (auto simp: identityHeaders)
  have lim: "\<forall>l. gc_RateLimit cfg = Some l \<longrightarrow> fst (Allow l (sv_clock s 0) (clientIP r) (fst (sv_state s))) = Ok True"
    using underLimit_outcome(3) [OF ul] cfg by (simp add: clientIP_def)
  show ?thesis using tok vs k [of 0] lim st' hd by auto
qed


section \<open>Properties\<close>

text \<open>C3. Nothing reaches an upstream service unless the limiter allowed the client and the request carries
  a bearer token that verifies under HS256 with the gateway's secret, names its issuer and has not
  expired; the identity headers the upstream sees are the subject and role of that token or are absent,
  never a value of the client.\<close>

theorem gateway_upstream_authenticated:
  assumes "jwt_lawful jwt" and "NewGateway parse transport cfg = Ok g" and "au_issuer (gc_Auth cfg) \<noteq> []"
    and "GatewayHandler jwt code g r s = (res, s')" and "snd (sv_state s') \<noteq> snd (sv_state s)"
  shows "\<exists>tok c out. header_Get (rq_Header r) ''Authorization'' = ''Bearer '' @ tok \<and>
    jwt_carries jwt ''HS256'' (au_secret (gc_Auth cfg)) tok c \<and> cl_Issuer c = au_issuer (gc_Auth cfg) \<and>
    (\<exists>n. timely c (wall (sv_clock s n))) \<and>
    (\<forall>l. gc_RateLimit cfg = Some l \<longrightarrow> fst (Allow l (sv_clock s 0) (clientIP r) (fst (sv_state s))) = Ok True) \<and>
    snd (sv_state s') = snd (transport out (snd (sv_state s))) \<and>
    rq_Header out ''X-Auth-Role'' \<in> {None, Some [cl_Role c]} \<and>
    rq_Header out ''X-Auth-Subject'' \<in> {None, Some [cl_Subject c]}"
  using assms by (rule upstream_authenticated)


text \<open>A library that knows one token, one route through the gateway and a network that counts requests,
  for the witnesses.\<close>

definition oneTokenJwt :: "Claims \<Rightarrow> string \<Rightarrow> string \<Rightarrow> Jwt" where
  "oneTokenJwt c key tok =
     \<lparr>jwt_NewNumericDate = (\<lambda>t. t div Second * Second),
      jwt_SignedString = (\<lambda>alg cl k. if alg = ''HS256'' \<and> cl = c \<and> k = key then Ok tok else Err (Opaque ''cannot sign'')),
      jwt_ParseWithClaims = (\<lambda>t kf iss ms now.
        if t = tok \<and> ''HS256'' \<in> set ms \<and> kf ''HS256'' = Ok key \<and> cl_Issuer c = iss \<and> timely c now
        then Ok (c, True) else Err (Opaque ''token is unverifiable'')),
      jwt_isHMAC = (\<lambda>alg. alg = ''HS256''),
      jwt_carries = (\<lambda>alg k t cl. alg = ''HS256'' \<and> k = key \<and> t = tok \<and> cl = c)\<rparr>"

lemma oneTokenJwt_lawful: "jwt_lawful (oneTokenJwt c key tok)"
  by (auto simp: jwt_lawful_def oneTokenJwt_def split: if_splits)

definition adminClaims :: Claims where
  "adminClaims = \<lparr>cl_Role = ''admin'', cl_Issuer = ''platform'', cl_Subject = ''admin-client'',
     cl_IssuedAt = Some 0, cl_ExpiresAt = Some (3600 * Second), cl_NotBefore = None\<rparr>"

definition demoJwt :: Jwt where
  "demoJwt = oneTokenJwt adminClaims ''s3cret'' ''tok''"

definition demoAuth :: Authenticator where
  "demoAuth = NewAuthenticator ''s3cret'' ''platform'' (3600 * Second)"

definition demoURL :: "string \<Rightarrow> URL" where
  "demoURL host = \<lparr>u_Scheme = ''http'', u_Host = host, u_Path = [], u_RawPath = [], u_RawQuery = []\<rparr>"

definition demoConfig :: "RateLimiter GatewayConfig" where
  "demoConfig = \<lparr>gc_Auth = demoAuth, gc_Clients = [''admin-client'' \<mapsto> \<lparr>cli_Secret = ''pw'', cli_Role = ''admin''\<rparr>],
     gc_UserURL = ''user'', gc_WalletURL = ''wallet'', gc_MarginURL = ''margin'', gc_RateLimit = Some (memLimiter False)\<rparr>"

definition countingNetwork :: "Request \<Rightarrow> (nat, Response) eff" where
  "countingNetwork out u = (Ok \<lparr>rs_StatusCode = 200, rs_Header = Map.empty, rs_Body = [], rs_truncated = False\<rparr>, Suc u)"

definition demoGateway :: "(RateLimiter, nat) Gateway" where
  "demoGateway = \<lparr>gw_cfg = demoConfig, gw_userProxy = newProxy countingNetwork (demoURL ''user''),
     gw_walletProxy = newProxy countingNetwork (demoURL ''wallet''), gw_marginProxy = newProxy countingNetwork (demoURL ''margin'')\<rparr>"

definition demoRequest :: "string \<Rightarrow> string \<Rightarrow> Request" where
  "demoRequest method path = \<lparr>rq_Method = method, rq_URL = \<lparr>u_Scheme = [], u_Host = [], u_Path = path, u_RawPath = [], u_RawQuery = []\<rparr>,
     rq_Header = [''Authorization'' \<mapsto> [''Bearer tok''], ''X-Auth-Role'' \<mapsto> [''root'']], rq_Body = [], rq_Host = ''gateway'',
     rq_RemoteAddr = ''10.0.0.9:4711'', rq_requestID = None, rq_pathValues = []\<rparr>"

definition demoSrv :: "'s \<Rightarrow> 's srv" where
  "demoSrv st = \<lparr>sv_state = st, sv_clock = (\<lambda>n. \<lparr>wall = 0, mono = 0\<rparr>), sv_random = (\<lambda>n. 0), sv_log = [], sv_w = newWriter\<rparr>"

lemma demoGateway_New: "NewGateway (\<lambda>h. Ok (demoURL h)) countingNetwork demoConfig = Ok demoGateway"
  by (simp add: NewGateway_def demoGateway_def demoConfig_def)

lemma users_route: "routesTo (gatewayRoutes jwt g) ''GET'' ''/api/v1/users'' [] [Lit ''api'', Lit ''v1'', Lit ''users''] []"
  by code_simp

lemma users_handler:
  assumes "rq_Method r = ''GET''" and "rq_URL r = \<lparr>u_Scheme = [], u_Host = [], u_Path = ''/api/v1/users'', u_RawPath = [], u_RawQuery = []\<rparr>"
  shows "GatewayHandler jwt code g r = authed jwt g (gw_userProxy g) (r\<lparr>rq_pathValues := []\<rparr>)"
proof -
  obtain ro where ro: "findHandler (gatewayRoutes jwt g) ''GET''
      \<lparr>u_Scheme = [], u_Host = [], u_Path = ''/api/v1/users'', u_RawPath = [], u_RawQuery = []\<rparr> = Handle ro []"
    "ro \<in> set (gatewayRoutes jwt g)" "ro_segs ro = [Lit ''api'', Lit ''v1'', Lit ''users'']"
    using routesTo_Handle [OF users_route] by metis
  then have "ro_handler ro = authed jwt g (gw_userProxy g)" by (auto simp: gatewayRoutes_def Let_def)
  then show ?thesis using ro(1) assms by (simp add: GatewayHandler_def ServeMux_def)
qed

text \<open>A request with a good token from a client below its limit is forwarded.\<close>

lemma authed_forward:
  assumes "underLimit g r s = (Ok True, s1)" and "header_Get (rq_Header r) ''Authorization'' = ''Bearer '' @ tok"
    and "Verify jwt (gc_Auth (gw_cfg g)) tok s1 = (Ok c, s2)"
  shows "authed jwt g next r s = next (r\<lparr>rq_Header := header_Set HeaderRole (cl_Role c)
         (header_Set HeaderSubject (cl_Subject c) (rq_Header r))\<rparr>) s2"
  using assms by (simp add: authed_def on_err_def)

lemma demo_underLimit:
  "\<exists>l. underLimit demoGateway (demoRequest m p) (demoSrv (NewRateLimiter 20 40, u)) =
     (Ok True, (demoSrv (l, u)))"
  by (simp add: underLimit_def demoGateway_def demoConfig_def memLimiter_def on_state_def on_fst_def rl_Allow_def
      NewRateLimiter_def demoSrv_def)

lemma demo_Verify: "Verify demoJwt demoAuth ''tok'' (demoSrv st) = (Ok adminClaims, demoSrv st)"
proof -
  have "Verify demoJwt demoAuth ''tok'' (demoSrv st) =
      (Ok adminClaims, (demoSrv st)\<lparr>sv_clock := \<lambda>n. sv_clock (demoSrv st) (Suc n)\<rparr>)"
    by (rule Verify_complete)
       (simp_all add: demoJwt_def oneTokenJwt_lawful, simp_all add: oneTokenJwt_def demoAuth_def NewAuthenticator_def
         adminClaims_def timely_def demoSrv_def Second_def)
  then show ?thesis by (simp add: demoSrv_def)
qed

lemma demo_auth_header: "header_Get (rq_Header (demoRequest m p)) ''Authorization'' = ''Bearer '' @ ''tok''"
  by (simp add: demoRequest_def header_Get_def)

theorem gateway_upstream_authenticated_witness:
  "\<exists>tok c (out :: Request). header_Get (rq_Header (demoRequest ''GET'' ''/api/v1/users'')) ''Authorization'' = ''Bearer '' @ tok \<and>
    jwt_carries demoJwt ''HS256'' ''s3cret'' tok c \<and>
    rq_Header out ''X-Auth-Role'' \<in> {None, Some [cl_Role c]} \<and>
    snd (sv_state (snd (GatewayHandler demoJwt 301 demoGateway (demoRequest ''GET'' ''/api/v1/users'')
      (demoSrv (NewRateLimiter 20 40, 0))))) = 1"
proof -
  let ?r = "demoRequest ''GET'' ''/api/v1/users''" and ?s = "demoSrv (NewRateLimiter 20 40, 0)"
  obtain res s' where run: "GatewayHandler demoJwt 301 demoGateway ?r ?s = (res, s')"
    by (cases "GatewayHandler demoJwt 301 demoGateway ?r ?s")
  obtain l where ul: "underLimit demoGateway ?r ?s = (Ok True, demoSrv (l, 0))" using demo_underLimit by blast
  have r: "rq_Method ?r = ''GET''" "?r\<lparr>rq_pathValues := []\<rparr> = ?r"
    "rq_URL ?r = \<lparr>u_Scheme = [], u_Host = [], u_Path = ''/api/v1/users'', u_RawPath = [], u_RawQuery = []\<rparr>"
    by (simp_all add: demoRequest_def)
  have cfg: "gw_cfg demoGateway = demoConfig" "gc_Auth demoConfig = demoAuth" by (simp_all add: demoGateway_def demoConfig_def)
  let ?r' = "?r\<lparr>rq_Header := header_Set HeaderRole (cl_Role adminClaims)
         (header_Set HeaderSubject (cl_Subject adminClaims) (rq_Header ?r))\<rparr>"
  have "gw_userProxy demoGateway ?r' (demoSrv (l, 0)) = (res, s')"
    using run authed_forward [OF ul demo_auth_header demo_Verify [folded cfg(2), folded cfg(1)]]
    unfolding users_handler [OF r(1,3)] r(2) by simp
  moreover have "gw_userProxy demoGateway = ReverseProxy (proxyDirector (demoURL ''user'')) (\<lambda>out. on_snd (countingNetwork out))"
    by (simp add: demoGateway_def newProxy_def)
  moreover have "\<exists>out. outgoing (proxyDirector (demoURL ''user'')) ?r' = Some out"
    by (simp add: outgoing_def Let_def upgradeType_def containsToken_def header_values_def demoRequest_def header_Set_def
        HeaderRole_def HeaderSubject_def isPrint_def)
  ultimately have one: "snd (sv_state s') = 1"
    using ReverseProxy_calls by (fastforce simp: demoSrv_def on_snd_def countingNetwork_def)
  have iss: "au_issuer (gc_Auth demoConfig) \<noteq> []" and sec: "au_secret (gc_Auth demoConfig) = ''s3cret''"
    and chg: "snd (sv_state s') \<noteq> snd (sv_state ?s)"
    using one by (simp_all add: demoConfig_def demoAuth_def NewAuthenticator_def demoSrv_def)
  have lw: "jwt_lawful demoJwt" unfolding demoJwt_def by (rule oneTokenJwt_lawful)
  have eq: "snd (sv_state (snd (GatewayHandler demoJwt 301 demoGateway ?r ?s))) = 1" using one run by simp
  from gateway_upstream_authenticated [OF lw demoGateway_New iss run chg] show ?thesis
    unfolding eq sec by blast
qed


text \<open>C19. A token the authenticator issues is accepted by \<^verbatim>\<open>Verify\<close> until the whole second of its expiry, and
  carries the subject and role it was issued for.\<close>

theorem issued_token_accepted:
  assumes "jwt_lawful jwt" and "Issue jwt a subject role s = (Ok t, s1)"
    and "wall (sv_clock s2 0) < (wall (sv_clock s 0) + au_expiry a) div Second * Second"
  shows "\<exists>c s3. Verify jwt a (tk_AccessToken t) s2 = (Ok c, s3) \<and> cl_Subject c = subject \<and> cl_Role c = role"
proof -
  obtain c where c: "jwt_carries jwt ''HS256'' (au_secret a) (tk_AccessToken t) c" "cl_Issuer c = au_issuer a"
    "cl_Subject c = subject" "cl_Role c = role" "cl_NotBefore c = None"
    "cl_ExpiresAt c = Some ((wall (sv_clock s 0) + au_expiry a) div Second * Second)"
    using Issue_Ok [OF assms(1,2)] by blast
  then have "timely c (wall (sv_clock s2 0))" using assms(3) by (simp add: timely_def)
  from Verify_complete [OF assms(1) c(1,2) this] c(3,4) show ?thesis by blast
qed

lemma demo_Issue:
  "Issue demoJwt demoAuth ''admin-client'' ''admin'' (demoSrv st) =
     (Ok \<lparr>tk_AccessToken = ''tok'', tk_TokenType = ''Bearer'', tk_ExpiresIn = 3600, tk_Role = ''admin''\<rparr>, demoSrv st)"
proof -
  have "Seconds (3600 * Second) = of_int 3600" using Seconds_whole [of 3600] by simp
  then have "truncate_float (Seconds (3600 * Second)) = 3600" by (simp add: truncate_float_def)
  then show ?thesis
    by (simp add: Issue_def Let_def demoJwt_def oneTokenJwt_def demoAuth_def NewAuthenticator_def adminClaims_def demoSrv_def
        wrap_eff_def lift_def ret_def bnd_def Second_def)
qed

theorem issued_token_accepted_witness:
  "\<exists>c s3. Verify demoJwt demoAuth ''tok'' (demoSrv ()) = (Ok c, s3) \<and> cl_Subject c = ''admin-client'' \<and> cl_Role c = ''admin''"
proof -
  have lw: "jwt_lawful demoJwt" unfolding demoJwt_def by (rule oneTokenJwt_lawful)
  have "wall (sv_clock (demoSrv ()) 0) < (wall (sv_clock (demoSrv ()) 0) + au_expiry demoAuth) div Second * Second"
    by (simp add: demoSrv_def demoAuth_def NewAuthenticator_def Second_def)
  from issued_token_accepted [OF lw demo_Issue this] show ?thesis by simp
qed

lemma Issue_outcome:
  "\<exists>x. Issue jwt a subject role s = (x, s\<lparr>sv_clock := \<lambda>n. sv_clock s (Suc n)\<rparr>)"
  by (simp add: Issue_def Let_def wrap_eff_def lift_def ret_def bnd_def split: prod.splits result.splits)

text \<open>C18. The token endpoint answers 200 only to a registered client that presents its secret; the token in
  the answer is issued for that client's name with the role it is registered for.\<close>

theorem issueToken_only_registered:
  assumes "fresh s" and "issueToken jwt g r s = (res, s')" and "w_code (sv_w s') = Some 200"
  shows "\<exists>req client t. DecodeJSON tokenRequest r = Ok req \<and>
    gc_Clients (gw_cfg g) (req ''client_id'') = Some client \<and> cli_Secret client = req ''client_secret'' \<and>
    fst (Issue jwt (gc_Auth (gw_cfg g)) (req ''client_id'') (cli_Role client) s) = Ok t \<and>
    w_Body (sv_w s') = the (marshal (token_any t)) @ [CHR 0x0A]"
proof (cases "DecodeJSON tokenRequest r")
  case (Ok req)
  show ?thesis
  proof (cases "gc_Clients (gw_cfg g) (req ''client_id'')")
    case None
    then show ?thesis using assms Ok by (auto simp: issueToken_def Error_fresh answered_def)
  next
    case (Some client)
    show ?thesis
    proof (cases "cli_Secret client = req ''client_secret''")
      case False
      then show ?thesis using assms Ok Some by (auto simp: issueToken_def Error_fresh answered_def)
    next
      case True
      let ?s = "s\<lparr>sv_clock := \<lambda>n. sv_clock s (Suc n)\<rparr>"
      obtain x where iss: "Issue jwt (gc_Auth (gw_cfg g)) (req ''client_id'') (cli_Role client) s = (x, ?s)"
        using Issue_outcome by blast
      have fr: "fresh ?s" using assms(1) by (simp add: fresh_def)
      show ?thesis
      proof (cases x)
        case x: (Ok t)
        have "marshal (token_any t) \<noteq> None" by (simp add: token_any_def)
        moreover have "s' = ?s\<lparr>sv_w := answered 200 (token_any t) (sv_w ?s)\<rparr>"
          using assms(2) Ok Some True iss x by (simp add: issueToken_def on_err_def JSON_fresh [OF fr])
        ultimately have "w_Body (sv_w s') = the (marshal (token_any t)) @ [CHR 0x0A]"
          by (auto simp: answered_def)
        then show ?thesis using Ok Some True iss x by auto
      next
        case (Err e)
        then show ?thesis
          using assms(2,3) Ok Some True iss by (auto simp: issueToken_def on_err_def Error_fresh [OF fr] answered_def)
      next
        case (Panic p)
        then show ?thesis
          using assms Ok Some True iss by (auto simp: issueToken_def on_err_def fresh_def)
      qed
    qed
  qed
qed (use assms in \<open>auto simp: issueToken_def Error_fresh answered_def\<close>)

definition credentialsBody :: string where
  "credentialsBody = (let q = [CHR 0x22] in
     ''{'' @ q @ ''client_id'' @ q @ '':'' @ q @ ''admin-client'' @ q @ '','' @ q @ ''client_secret'' @ q @ '': '' @ q @ ''pw'' @ q @ ''}'')"

lemma DecodeJSON_small:
  "length (rq_Body r) \<le> 1000 \<Longrightarrow>
   DecodeJSON names r = (case parsePrefix (rq_Body r) of None \<Rightarrow> Err (Opaque ''json: syntax error'')
      | Some (j, rest) \<Rightarrow> (case storeStruct names j of None \<Rightarrow> Err (Opaque ''json: cannot unmarshal'') | Some v \<Rightarrow> Ok v))"
  by (auto simp: DecodeJSON_def maxBody_def split: option.splits)

lemma credentials_decoded:
  "map_option (\<lambda>(j, rest). map_option (\<lambda>v. (v ''client_id'', v ''client_secret'')) (storeStruct tokenRequest j)) (parsePrefix credentialsBody)
     = Some (Some (''admin-client'', ''pw''))"
  by code_simp


lemma demo_fresh: "fresh (demoSrv st)"
  by (simp add: fresh_def demoSrv_def newWriter_def)

definition tokenPost :: Request where
  "tokenPost = (demoRequest ''POST'' ''/api/v1/auth/token'')\<lparr>rq_Body := credentialsBody\<rparr>"

lemma tokenPost_decoded:
  "\<exists>req. DecodeJSON tokenRequest tokenPost = Ok req \<and> req ''client_id'' = ''admin-client'' \<and> req ''client_secret'' = ''pw''"
proof -
  have "length (rq_Body tokenPost) \<le> 1000" by (simp add: tokenPost_def credentialsBody_def)
  moreover have "rq_Body tokenPost = credentialsBody" by (simp add: tokenPost_def)
  ultimately show ?thesis using credentials_decoded by (auto simp: DecodeJSON_small)
qed

theorem issueToken_only_registered_witness:
  "\<exists>req client t s'. issueToken demoJwt demoGateway tokenPost (demoSrv ()) = (Ok (), s') \<and> w_code (sv_w s') = Some 200 \<and>
    DecodeJSON tokenRequest tokenPost = Ok req \<and> gc_Clients (gw_cfg demoGateway) (req ''client_id'') = Some client \<and>
    cli_Secret client = req ''client_secret'' \<and> w_Body (sv_w s') = the (marshal (token_any t)) @ [CHR 0x0A]"
proof -
  obtain req where req: "DecodeJSON tokenRequest tokenPost = Ok req" "req ''client_id'' = ''admin-client''" "req ''client_secret'' = ''pw''"
    using tokenPost_decoded by blast
  have cl: "gc_Clients (gw_cfg demoGateway) ''admin-client'' = Some \<lparr>cli_Secret = ''pw'', cli_Role = ''admin''\<rparr>"
    "gc_Auth (gw_cfg demoGateway) = demoAuth"
    by (simp_all add: demoGateway_def demoConfig_def)
  have run: "\<exists>s'. issueToken demoJwt demoGateway tokenPost (demoSrv ()) = (Ok (), s') \<and> w_code (sv_w s') = Some 200"
    using req cl by (simp add: issueToken_def on_err_def demo_Issue JSON_fresh [OF demo_fresh] answered_def)
  then obtain s' where run: "issueToken demoJwt demoGateway tokenPost (demoSrv ()) = (Ok (), s')" and ok: "w_code (sv_w s') = Some 200"
    by blast
  from issueToken_only_registered [OF demo_fresh run ok] run ok show ?thesis by blast
qed

text \<open>The limiter's key for an IPv6 client is only the part of the address before its first colon, so
  clients whose addresses agree in the first group share one bucket.\<close>

theorem clientIP_merges_ipv6:
  "CHR '':'' \<notin> set grp \<Longrightarrow> rq_RemoteAddr r = ''['' @ grp @ '':'' @ rest \<Longrightarrow> rq_RemoteAddr r' = ''['' @ grp @ '':'' @ rest' \<Longrightarrow>
   clientIP r = ''['' @ grp \<and> clientIP r = clientIP r'"
  using Cut_append [of "CHR '':''" "''['' @ grp" rest] Cut_append [of "CHR '':''" "''['' @ grp" rest']
  by (simp add: clientIP_def)

theorem clientIP_merges_ipv6_witness:
  "clientIP ((demoRequest ''GET'' ''/'')\<lparr>rq_RemoteAddr := ''[2001:db8::1]:4711''\<rparr>) = ''[2001'' \<and>
   clientIP ((demoRequest ''GET'' ''/'')\<lparr>rq_RemoteAddr := ''[2001:db8::1]:4711''\<rparr>) =
   clientIP ((demoRequest ''GET'' ''/'')\<lparr>rq_RemoteAddr := ''[2001:4860::8888]:80''\<rparr>)"
  using clientIP_merges_ipv6 [of "''2001''" "(demoRequest ''GET'' ''/'')\<lparr>rq_RemoteAddr := ''[2001:db8::1]:4711''\<rparr>" "''db8::1]:4711''"
      "(demoRequest ''GET'' ''/'')\<lparr>rq_RemoteAddr := ''[2001:4860::8888]:80''\<rparr>" "''4860::8888]:80''"]
  by auto

end
