(* ===== verification/User_Store.thy ===== *)
theory User_Store
  imports Go_Pgx "HOL-Library.Multiset"
begin

text \<open>
  \<^verbatim>\<open>internal/user\<close>: the \<^verbatim>\<open>Store\<close> interface with its in-memory and its Postgres implementation, and the
  contract (locale \<open>user_store\<close>) the service relies on. Slices that may be nil are options. A Go map is an
  association list whose iteration order, which the language leaves open, is an argument (\<open>iter\<close>); the
  same argument stands for the order of rows with equal sort keys.
\<close>

section \<open>Definitions\<close>

definition ErrNotFound :: error where "ErrNotFound = Sentinel ''user not found''"
definition ErrConflict :: error where "ErrConflict = Sentinel ''email already registered''"

record User =
  us_ID :: string
  us_Email :: string
  us_CreatedAt :: int

record 's UserStore =
  user_Create :: "User \<Rightarrow> ('s, unit) eff"
  user_Get :: "string \<Rightarrow> ('s, User) eff"
  user_List :: "('s, User list option) eff"

subsection \<open>In memory\<close>

record UserMemStore =
  um_users :: "(string \<times> User) list"

definition NewUserMemStore :: UserMemStore where
  "NewUserMemStore = \<lparr>um_users = []\<rparr>"

fun assign :: "'k \<Rightarrow> 'v \<Rightarrow> ('k \<times> 'v) list \<Rightarrow> ('k \<times> 'v) list" where
  "assign k v [] = [(k, v)]"
| "assign k v (e # es) = (if fst e = k then (k, v) # es else e # assign k v es)"

definition mem_user_Create :: "User \<Rightarrow> (UserMemStore, unit) eff" where
  "mem_user_Create u m =
     (if \<exists>e \<in> set (um_users m). us_Email (snd e) = us_Email u then (Err ErrConflict, m)
      else (Ok (), m\<lparr>um_users := assign (us_ID u) u (um_users m)\<rparr>))"

definition mem_user_Get :: "string \<Rightarrow> (UserMemStore, User) eff" where
  "mem_user_Get i m =
     (case map_of (um_users m) i of
        None \<Rightarrow> (Err ErrNotFound, m)
      | Some u \<Rightarrow> (Ok u, m))"

definition mem_user_List :: "((string \<times> User) list \<Rightarrow> (string \<times> User) list) \<Rightarrow> (UserMemStore, User list option) eff" where
  "mem_user_List iter m = (Ok (Some (map snd (iter (um_users m)))), m)"

definition memUserStore :: "((string \<times> User) list \<Rightarrow> (string \<times> User) list) \<Rightarrow> UserMemStore UserStore" where
  "memUserStore iter = \<lparr>user_Create = mem_user_Create, user_Get = mem_user_Get, user_List = mem_user_List iter\<rparr>"

subsection \<open>Postgres\<close>

text \<open>The rows of table \<^verbatim>\<open>users\<close> and the faults of the coming round trips.\<close>

record UserPgDB =
  up_rows :: "User list"
  up_faults :: "fault list"

text \<open>The INSERT statement under the table's constraints (primary key \<^verbatim>\<open>id\<close>, unique \<^verbatim>\<open>email\<close>).\<close>

definition insertUser :: "User \<Rightarrow> User list \<Rightarrow> User list result" where
  "insertUser u rows =
     bind_result (textArg (us_ID u)) (\<lambda>i.
     bind_result (textArg (us_Email u)) (\<lambda>em.
       if i \<in> us_ID ` set rows \<or> em \<in> us_Email ` set rows
       then Err (PgError ''23505'' ''duplicate key value violates unique constraint'')
       else Ok (rows @ [\<lparr>us_ID = i, us_Email = em, us_CreatedAt = timestamptzArg (us_CreatedAt u)\<rparr>])))"

fun isUniqueViolation :: "error \<Rightarrow> bool" where
  "isUniqueViolation (PgError c m) = (c = ''23505'')"
| "isUniqueViolation (Wrap p e) = isUniqueViolation e"
| "isUniqueViolation (Sentinel m) = False"
| "isUniqueViolation (Opaque m) = False"

definition pg_user_Create :: "User \<Rightarrow> (UserPgDB, unit) eff" where
  "pg_user_Create u db =
     (case popFault (up_faults db) of (f, fs) \<Rightarrow>
        let db' = db\<lparr>up_faults := fs\<rparr>;
            (r, db'') = (case insertUser u (up_rows db) of
               Ok rows \<Rightarrow> (case f of NoFault \<Rightarrow> (Ok (), db'\<lparr>up_rows := rows\<rparr>)
                   | FailBefore \<Rightarrow> (Err connErr, db')
                   | FailAfter \<Rightarrow> (Err connErr, db'\<lparr>up_rows := rows\<rparr>))
             | Err e \<Rightarrow> (if f = NoFault then Err e else Err connErr, db')
             | Panic p \<Rightarrow> (Panic p, db'))
        in case r of
             Err e \<Rightarrow> (Err (if isUniqueViolation e then ErrConflict else e), db'')
           | _ \<Rightarrow> (r, db''))"

definition pg_user_Get :: "string \<Rightarrow> (UserPgDB, User) eff" where
  "pg_user_Get i db =
     (case popFault (up_faults db) of (f, fs) \<Rightarrow>
        let r = (if f \<noteq> NoFault then Err connErr
                 else bind_result (textArg i) (\<lambda>i'.
                   case filter (\<lambda>u. us_ID u = i') (up_rows db) of [] \<Rightarrow> Err ErrNoRows | u # us \<Rightarrow> Ok u))
        in (case r of Err e \<Rightarrow> Err (if errors_Is e ErrNoRows then ErrNotFound else e) | _ \<Rightarrow> r, db\<lparr>up_faults := fs\<rparr>))"

text \<open>\<^verbatim>\<open>var out []User\<close> stays nil when there are no rows.\<close>

definition pg_user_List :: "(User list \<Rightarrow> User list) \<Rightarrow> (UserPgDB, User list option) eff" where
  "pg_user_List iter db =
     (case popFault (up_faults db) of (f, fs) \<Rightarrow>
        (if f \<noteq> NoFault then Err connErr
         else Ok (let out = sort_key us_CreatedAt (iter (up_rows db)) in if out = [] then None else Some out),
         db\<lparr>up_faults := fs\<rparr>))"

definition pgUserStore :: "(User list \<Rightarrow> User list) \<Rightarrow> UserPgDB UserStore" where
  "pgUserStore iter = \<lparr>user_Create = pg_user_Create, user_Get = pg_user_Get, user_List = pg_user_List iter\<rparr>"


section \<open>The contract\<close>

text \<open>
  \<open>users s\<close> is the set of stored users and \<open>stored u\<close> the form in which \<open>u\<close> is kept. Emails and identifiers
  are unique. A \<open>Create\<close> that succeeds adds the user, and only when its email is new; one that fails with an
  error other than \<^verbatim>\<open>ErrConflict\<close> may still have added it (the connection was lost after the commit); one
  that fails with \<^verbatim>\<open>ErrConflict\<close> adds nothing.
\<close>

definition add_user :: "User \<Rightarrow> User set \<Rightarrow> User set" where
  "add_user u us = insert u {v \<in> us. us_ID v \<noteq> us_ID u}"

definition unique_users :: "User set \<Rightarrow> bool" where
  "unique_users us \<longleftrightarrow> finite us \<and> inj_on us_ID us \<and> inj_on us_Email us"

locale user_store =
  fixes store :: "'s UserStore" and users :: "'s \<Rightarrow> User set" and ok :: "'s \<Rightarrow> bool" and stored :: "User \<Rightarrow> User"
  assumes stored_keys: "us_ID (stored u) = us_ID u" "us_Email (stored u) = us_Email u"
    and unique: "ok s \<Longrightarrow> unique_users (users s)"
    and create_ok: "ok s \<Longrightarrow> user_Create store u s = (Ok x, s') \<Longrightarrow>
      ok s' \<and> us_Email u \<notin> us_Email ` users s \<and> users s' = add_user (stored u) (users s)"
    and create_err: "ok s \<Longrightarrow> user_Create store u s = (Err e, s') \<Longrightarrow>
      ok s' \<and> (users s' = users s \<or> e \<noteq> ErrConflict \<and> us_Email u \<notin> us_Email ` users s \<and> users s' = add_user (stored u) (users s))"
    and create_panic: "user_Create store u s \<noteq> (Panic p, s')"
    and create_conflict: "ok s \<Longrightarrow> us_Email u \<in> us_Email ` users s \<Longrightarrow> fst (user_Create store u s) \<noteq> Ok ()"
    and get_ok: "ok s \<Longrightarrow> user_Get store i s = (Ok u, s') \<Longrightarrow> ok s' \<and> users s' = users s \<and> u \<in> users s \<and> us_ID u = i"
    and get_err: "ok s \<Longrightarrow> user_Get store i s = (Err e, s') \<Longrightarrow>
      ok s' \<and> users s' = users s \<and> (e = ErrNotFound \<longrightarrow> i \<notin> us_ID ` users s)"
    and get_panic: "user_Get store i s \<noteq> (Panic p, s')"
    and list_ok: "ok s \<Longrightarrow> user_List store s = (Ok l, s') \<Longrightarrow>
      ok s' \<and> users s' = users s \<and> distinct (case l of None \<Rightarrow> [] | Some xs \<Rightarrow> xs) \<and>
      set (case l of None \<Rightarrow> [] | Some xs \<Rightarrow> xs) = users s"
    and list_err: "ok s \<Longrightarrow> user_List store s = (Err e, s') \<Longrightarrow> ok s' \<and> users s' = users s"
    and list_panic: "user_List store s \<noteq> (Panic p, s')"


subsection \<open>The in-memory store\<close>

definition mem_users :: "UserMemStore \<Rightarrow> User set" where
  "mem_users m = snd ` set (um_users m)"

definition mem_user_ok :: "((string \<times> User) list \<Rightarrow> (string \<times> User) list) \<Rightarrow> UserMemStore \<Rightarrow> bool" where
  "mem_user_ok iter m \<longleftrightarrow> (\<forall>xs. mset (iter xs) = mset xs) \<and> distinct (map fst (um_users m)) \<and>
     (\<forall>e \<in> set (um_users m). us_ID (snd e) = fst e) \<and> inj_on us_Email (mem_users m)"

lemma set_assign: "distinct (map fst xs) \<Longrightarrow> set (assign k v xs) = insert (k, v) {e \<in> set xs. fst e \<noteq> k}"
  by (induction xs) (auto simp: image_iff)

lemma distinct_assign: "distinct (map fst xs) \<Longrightarrow> distinct (map fst (assign k v xs))"
  by (induction xs) (auto simp: set_assign image_iff)

lemma mem_user_ids: "mem_user_ok iter m \<Longrightarrow> u \<in> mem_users m \<longleftrightarrow> (us_ID u, u) \<in> set (um_users m)"
proof
  assume ok: "mem_user_ok iter m" and "u \<in> mem_users m"
  then obtain a where a: "(a, u) \<in> set (um_users m)" by (auto simp: mem_users_def)
  then have "us_ID u = a" using ok by (auto simp: mem_user_ok_def)
  then show "(us_ID u, u) \<in> set (um_users m)" using a by simp
qed (auto simp: mem_users_def intro: image_eqI [of _ _ "(us_ID u, u)"])

lemma inj_on_add:
  assumes "inj_on f us" and "f u \<notin> f ` us"
  shows "inj_on f (insert u {v \<in> us. P v})"
proof -
  have "inj_on f {v \<in> us. P v}" using assms(1) by (rule inj_on_subset) auto
  moreover have "f u \<notin> f ` ({v \<in> us. P v} - {u})" using assms(2) by blast
  ultimately show ?thesis by (simp only: inj_on_insert) simp
qed

lemma mem_create_users:
  assumes "mem_user_ok iter m"
  shows "mem_users (m\<lparr>um_users := assign (us_ID u) u (um_users m)\<rparr>) = add_user u (mem_users m)"
proof -
  have ids: "\<forall>e \<in> set (um_users m). us_ID (snd e) = fst e" and d: "distinct (map fst (um_users m))"
    using assms by (simp_all add: mem_user_ok_def)
  have "snd ` {e \<in> set (um_users m). fst e \<noteq> us_ID u} = {v \<in> snd ` set (um_users m). us_ID v \<noteq> us_ID u}" (is "?A = ?B")
  proof (intro set_eqI iffI)
    fix v assume "v \<in> ?A"
    then show "v \<in> ?B" using ids by auto
  next
    fix v assume "v \<in> ?B"
    then obtain a where a: "(a, v) \<in> set (um_users m)" and v: "us_ID v \<noteq> us_ID u" by auto
    have "us_ID v = a" using bspec [OF ids a] by simp
    then show "v \<in> ?A" using a v by (intro image_eqI [of _ _ "(a, v)"]) auto
  qed
  then show ?thesis by (simp add: mem_users_def add_user_def set_assign [OF d])
qed

lemma mem_create_ok:
  assumes "mem_user_ok iter m" and "us_Email u \<notin> us_Email ` mem_users m"
  shows "mem_user_ok iter (m\<lparr>um_users := assign (us_ID u) u (um_users m)\<rparr>)"
proof -
  have "inj_on us_Email (mem_users (m\<lparr>um_users := assign (us_ID u) u (um_users m)\<rparr>))"
    unfolding mem_create_users [OF assms(1)] add_user_def
    using assms by (intro inj_on_add) (simp_all add: mem_user_ok_def)
  then show ?thesis using assms(1) by (auto simp: mem_user_ok_def distinct_assign set_assign)
qed

lemma mem_user_unique:
  assumes "mem_user_ok iter m"
  shows "unique_users (mem_users m)"
proof -
  have "u = v" if "u \<in> mem_users m" "v \<in> mem_users m" "us_ID u = us_ID v" for u v
    using that assms eq_key_imp_eq_value [of "um_users m" "us_ID u" u v]
    unfolding mem_user_ids [OF assms] by (simp add: mem_user_ok_def)
  then have "inj_on us_ID (mem_users m)" by (rule inj_onI)
  moreover have "finite (mem_users m)" by (simp add: mem_users_def)
  ultimately show ?thesis using assms by (simp add: unique_users_def mem_user_ok_def)
qed

interpretation memu: user_store "memUserStore iter" mem_users "mem_user_ok iter" id for iter
proof
  show "us_ID (id u) = us_ID u" "us_Email (id u) = us_Email u" for u by simp_all
  show "mem_user_ok iter s \<Longrightarrow> unique_users (mem_users s)" for s
    using mem_user_unique .
  show "mem_user_ok iter s \<Longrightarrow> user_Create (memUserStore iter) u s = (Ok x, s') \<Longrightarrow>
      mem_user_ok iter s' \<and> us_Email u \<notin> us_Email ` mem_users s \<and> mem_users s' = add_user (id u) (mem_users s)" for s u x s'
  proof -
    assume ok: "mem_user_ok iter s" and c: "user_Create (memUserStore iter) u s = (Ok x, s')"
    then have new: "us_Email u \<notin> us_Email ` mem_users s" and s': "s' = s\<lparr>um_users := assign (us_ID u) u (um_users s)\<rparr>"
      by (auto simp: memUserStore_def mem_user_Create_def mem_users_def image_iff split: if_splits)
    show ?thesis using mem_create_ok [OF ok new] mem_create_users [OF ok] new s' by simp
  qed
  show "mem_user_ok iter s \<Longrightarrow> user_Create (memUserStore iter) u s = (Err e, s') \<Longrightarrow>
      mem_user_ok iter s' \<and> (mem_users s' = mem_users s \<or> e \<noteq> ErrConflict \<and> us_Email u \<notin> us_Email ` mem_users s \<and>
        mem_users s' = add_user (id u) (mem_users s))" for s u e s'
    by (auto simp: memUserStore_def mem_user_Create_def split: if_splits)
  show "user_Create (memUserStore iter) u s \<noteq> (Panic p, s')" for u s p s'
    by (simp add: memUserStore_def mem_user_Create_def)
  show "us_Email u \<in> us_Email ` mem_users s \<Longrightarrow> fst (user_Create (memUserStore iter) u s) \<noteq> Ok ()" for u s
    by (simp add: memUserStore_def mem_user_Create_def mem_users_def image_iff) (metis snd_conv)
  show "mem_user_ok iter s \<Longrightarrow> user_Get (memUserStore iter) i s = (Ok u, s') \<Longrightarrow>
      mem_user_ok iter s' \<and> mem_users s' = mem_users s \<and> u \<in> mem_users s \<and> us_ID u = i" for s i u s'
    using map_of_SomeD [of "um_users s" i u] mem_user_ids [of iter s u]
    by (auto simp: memUserStore_def mem_user_Get_def mem_user_ok_def split: option.splits)
  show "mem_user_ok iter s \<Longrightarrow> user_Get (memUserStore iter) i s = (Err e, s') \<Longrightarrow>
      mem_user_ok iter s' \<and> mem_users s' = mem_users s \<and> (e = ErrNotFound \<longrightarrow> i \<notin> us_ID ` mem_users s)" for s i e s'
    by (auto simp: memUserStore_def mem_user_Get_def mem_user_ids map_of_eq_None_iff image_iff split: option.splits) (metis fst_conv)
  show "user_Get (memUserStore iter) i s \<noteq> (Panic p, s')" for i s p s'
    by (simp add: memUserStore_def mem_user_Get_def split: option.splits)
  show "mem_user_ok iter s \<Longrightarrow> user_List (memUserStore iter) s = (Ok l, s') \<Longrightarrow>
      mem_user_ok iter s' \<and> mem_users s' = mem_users s \<and> distinct (case l of None \<Rightarrow> [] | Some xs \<Rightarrow> xs) \<and>
      set (case l of None \<Rightarrow> [] | Some xs \<Rightarrow> xs) = mem_users s" for s l s'
  proof -
    assume ok: "mem_user_ok iter s" and l: "user_List (memUserStore iter) s = (Ok l, s')"
    have perm: "mset (map snd (iter (um_users s))) = mset (map snd (um_users s))"
      using ok by (simp add: mem_user_ok_def)
    have "distinct (map snd (um_users s))"
      using ok by (auto simp: mem_user_ok_def distinct_map inj_on_def) (metis fst_conv snd_conv)
    with perm have "distinct (map snd (iter (um_users s)))" by (metis mset_eq_imp_distinct_iff)
    moreover have "set (map snd (iter (um_users s))) = mem_users s"
      using perm by (metis mset_eq_setD mem_users_def set_map)
    ultimately show ?thesis using ok l by (auto simp: memUserStore_def mem_user_List_def)
  qed
  show "mem_user_ok iter s \<Longrightarrow> user_List (memUserStore iter) s = (Err e, s') \<Longrightarrow> mem_user_ok iter s' \<and> mem_users s' = mem_users s"
    for s e s' by (simp add: memUserStore_def mem_user_List_def)
  show "user_List (memUserStore iter) s \<noteq> (Panic p, s')" for s p s'
    by (simp add: memUserStore_def mem_user_List_def)
qed


subsection \<open>The Postgres store\<close>

definition pg_stored :: "User \<Rightarrow> User" where
  "pg_stored u = u\<lparr>us_CreatedAt := timestamptzArg (us_CreatedAt u)\<rparr>"

definition pg_user_set :: "UserPgDB \<Rightarrow> User set" where
  "pg_user_set db = set (up_rows db)"

definition pg_user_ok :: "(User list \<Rightarrow> User list) \<Rightarrow> UserPgDB \<Rightarrow> bool" where
  "pg_user_ok iter db \<longleftrightarrow> (\<forall>xs. mset (iter xs) = mset xs) \<and>
     distinct (map us_ID (up_rows db)) \<and> distinct (map us_Email (up_rows db))"

lemma textArg_Ok: "textArg s = Ok t \<Longrightarrow> t = s"
  by (auto simp: textArg_def split: if_splits)

lemma textArg_Err: "textArg s = Err e \<Longrightarrow> \<not> isUniqueViolation e \<and> e \<noteq> ErrConflict \<and> e \<noteq> ErrNotFound \<and> \<not> errors_Is e ErrNoRows"
  by (auto simp: textArg_def ErrConflict_def ErrNotFound_def ErrNoRows_def split: if_splits)

lemma textArg_Panic: "textArg s \<noteq> Panic p"
  by (simp add: textArg_def)

lemma insertUser_Ok:
  assumes "insertUser u rows = Ok rows'"
  shows "rows' = rows @ [pg_stored u] \<and> us_ID u \<notin> us_ID ` set rows \<and> us_Email u \<notin> us_Email ` set rows"
  using assms by (auto simp: insertUser_def pg_stored_def dest!: textArg_Ok split: if_splits)

lemma insertUser_Panic: "insertUser u rows \<noteq> Panic p"
  by (cases "textArg (us_ID u)"; cases "textArg (us_Email u)") (auto simp: insertUser_def textArg_Panic)

text \<open>Every outcome of an INSERT round trip.\<close>

lemma pg_user_Create_cases:
  assumes "pg_user_Create u db = (r, db')"
  obtains (unchanged) e where "r = Err e" and "up_rows db' = up_rows db"
  | (inserted) rows where "insertUser u (up_rows db) = Ok rows" and "up_rows db' = rows" and "r = Ok () \<or> r = Err connErr"
proof -
  obtain f fs where f: "popFault (up_faults db) = (f, fs)" by (cases "popFault (up_faults db)")
  have ce: "\<not> isUniqueViolation connErr" by (simp add: connErr_def)
  show thesis
  proof (cases "insertUser u (up_rows db)")
    case (Ok rows)
    show thesis
    proof (cases f)
      case NoFault
      then show thesis using inserted [OF Ok] assms f Ok by (auto simp: pg_user_Create_def Let_def)
    next
      case FailBefore
      then show thesis using unchanged assms f Ok by (auto simp: pg_user_Create_def Let_def)
    next
      case FailAfter
      then show thesis using inserted [OF Ok] assms f Ok ce by (auto simp: pg_user_Create_def Let_def)
    qed
  next
    case (Err e)
    then show thesis using unchanged assms f by (cases "f = NoFault") (auto simp: pg_user_Create_def Let_def)
  qed (simp add: insertUser_Panic)
qed

lemma pg_insert_ok:
  assumes "pg_user_ok iter db" and "insertUser u (up_rows db) = Ok rows" and "up_rows db' = rows"
  shows "pg_user_ok iter db' \<and> us_Email u \<notin> us_Email ` pg_user_set db \<and>
    pg_user_set db' = add_user (pg_stored u) (pg_user_set db)"
proof -
  have new: "rows = up_rows db @ [pg_stored u]" "us_ID u \<notin> us_ID ` set (up_rows db)" "us_Email u \<notin> us_Email ` set (up_rows db)"
    using insertUser_Ok [OF assms(2)] by simp_all
  have keys: "us_ID (pg_stored u) = us_ID u" "us_Email (pg_stored u) = us_Email u" by (simp_all add: pg_stored_def)
  have "{v \<in> set (up_rows db). us_ID v \<noteq> us_ID u} = set (up_rows db)" using new(2) by (auto simp: image_iff)
  then show ?thesis using assms(1,3) new keys by (simp add: pg_user_ok_def pg_user_set_def add_user_def)
qed

lemma pg_user_Create_Ok:
  assumes "pg_user_ok iter s" and "pg_user_Create u s = (Ok x, s')"
  shows "pg_user_ok iter s' \<and> us_Email u \<notin> us_Email ` pg_user_set s \<and> pg_user_set s' = add_user (pg_stored u) (pg_user_set s)"
  using assms(2)
proof (cases rule: pg_user_Create_cases)
  case (inserted rows)
  from pg_insert_ok [OF assms(1) this(1,2)] show ?thesis .
qed simp

lemma pg_user_Create_Err:
  assumes "pg_user_ok iter s" and "pg_user_Create u s = (Err e, s')"
  shows "pg_user_ok iter s' \<and> (pg_user_set s' = pg_user_set s \<or> e \<noteq> ErrConflict \<and> us_Email u \<notin> us_Email ` pg_user_set s \<and>
    pg_user_set s' = add_user (pg_stored u) (pg_user_set s))"
  using assms(2)
proof (cases rule: pg_user_Create_cases)
  case (unchanged e')
  then show ?thesis using assms(1) by (simp add: pg_user_ok_def pg_user_set_def)
next
  case (inserted rows)
  then show ?thesis using pg_insert_ok [OF assms(1) inserted(1,2)] by (auto simp: connErr_def ErrConflict_def)
qed

text \<open>Every outcome of a SELECT by identifier.\<close>

lemma pg_user_Get_cases:
  assumes "pg_user_Get i db = (r, db')"
  obtains (found) u where "r = Ok u" and "u \<in> set (up_rows db)" and "us_ID u = i" and "up_rows db' = up_rows db"
  | (missing) "r = Err ErrNotFound" and "i \<notin> us_ID ` set (up_rows db)" and "up_rows db' = up_rows db"
  | (failed) e where "r = Err e" and "e \<noteq> ErrNotFound" and "up_rows db' = up_rows db"
proof -
  obtain f fs where f: "popFault (up_faults db) = (f, fs)" by (cases "popFault (up_faults db)")
  have ce: "\<not> errors_Is connErr ErrNoRows" "connErr \<noteq> ErrNotFound" by (simp_all add: connErr_def ErrNoRows_def ErrNotFound_def)
  have run: thesis if "f \<noteq> NoFault" using failed [of connErr] assms f ce that
    by (auto simp: pg_user_Get_def Let_def split: result.splits)
  show thesis
  proof (cases "textArg i")
    case (Ok i')
    then have i: "i' = i" by (rule textArg_Ok)
    show thesis
    proof (cases "filter (\<lambda>u. us_ID u = i) (up_rows db)")
      case Nil
      then have "i \<notin> us_ID ` set (up_rows db)" by (auto simp: filter_empty_conv)
      then show thesis using run missing assms f Ok i Nil
        by (cases "f = NoFault") (auto simp: pg_user_Get_def Let_def)
    next
      case (Cons v vs)
      then have "v \<in> set (up_rows db)" "us_ID v = i" by (auto dest!: filter_eq_ConsD)
      then show thesis using run found [of v] assms f Ok i Cons
        by (cases "f = NoFault") (auto simp: pg_user_Get_def Let_def)
    qed
  next
    case (Err e')
    then show thesis using run failed [of e'] assms f textArg_Err [OF Err]
      by (cases "f = NoFault") (auto simp: pg_user_Get_def Let_def)
  qed (simp add: textArg_Panic)
qed

lemma pg_user_List_Ok:
  assumes "pg_user_ok iter s" and "pg_user_List iter s = (Ok l, s')"
  shows "pg_user_ok iter s' \<and> pg_user_set s' = pg_user_set s \<and> distinct (case l of None \<Rightarrow> [] | Some xs \<Rightarrow> xs) \<and>
    set (case l of None \<Rightarrow> [] | Some xs \<Rightarrow> xs) = pg_user_set s"
proof -
  let ?out = "sort_key us_CreatedAt (iter (up_rows s))"
  have perm: "mset ?out = mset (up_rows s)" using assms(1) by (simp add: pg_user_ok_def)
  have "distinct (up_rows s)" using assms(1) by (auto simp: pg_user_ok_def distinct_map)
  with perm have "distinct ?out" by (metis mset_eq_imp_distinct_iff)
  moreover have "set ?out = pg_user_set s" using perm by (metis mset_eq_setD pg_user_set_def)
  moreover have "(case l of None \<Rightarrow> [] | Some xs \<Rightarrow> xs) = ?out"
    using assms(2) by (auto simp: pg_user_List_def Let_def split: prod.splits if_splits)
  ultimately show ?thesis using assms by (auto simp: pg_user_List_def pg_user_ok_def pg_user_set_def split: prod.splits)
qed

lemmas pg_calls = pgUserStore_def pg_user_ok_def pg_user_set_def

interpretation pgu: user_store "pgUserStore iter" pg_user_set "pg_user_ok iter" pg_stored for iter
proof
  show "us_ID (pg_stored u) = us_ID u" "us_Email (pg_stored u) = us_Email u" for u by (simp_all add: pg_stored_def)
  show "pg_user_ok iter s \<Longrightarrow> unique_users (pg_user_set s)" for s
    by (simp add: unique_users_def pg_user_ok_def pg_user_set_def distinct_map)
  show "pg_user_ok iter s \<Longrightarrow> user_Create (pgUserStore iter) u s = (Ok x, s') \<Longrightarrow>
      pg_user_ok iter s' \<and> us_Email u \<notin> us_Email ` pg_user_set s \<and> pg_user_set s' = add_user (pg_stored u) (pg_user_set s)" for s u x s'
    using pg_user_Create_Ok by (simp add: pgUserStore_def)
  show "pg_user_ok iter s \<Longrightarrow> user_Create (pgUserStore iter) u s = (Err e, s') \<Longrightarrow>
      pg_user_ok iter s' \<and> (pg_user_set s' = pg_user_set s \<or> e \<noteq> ErrConflict \<and> us_Email u \<notin> us_Email ` pg_user_set s \<and>
        pg_user_set s' = add_user (pg_stored u) (pg_user_set s))" for s u e s'
    using pg_user_Create_Err by (simp add: pgUserStore_def)
  show "user_Create (pgUserStore iter) u s \<noteq> (Panic p, s')" for u s p s'
    by (auto simp: pgUserStore_def elim!: pg_user_Create_cases)
  show "pg_user_ok iter s \<Longrightarrow> us_Email u \<in> us_Email ` pg_user_set s \<Longrightarrow> fst (user_Create (pgUserStore iter) u s) \<noteq> Ok ()" for u s
    using pg_user_Create_Ok [of iter s u "()" "snd (pg_user_Create u s)"]
    by (cases "pg_user_Create u s") (auto simp: pgUserStore_def)
  show "pg_user_ok iter s \<Longrightarrow> user_Get (pgUserStore iter) i s = (Ok u, s') \<Longrightarrow>
      pg_user_ok iter s' \<and> pg_user_set s' = pg_user_set s \<and> u \<in> pg_user_set s \<and> us_ID u = i" for s i u s'
    by (auto simp: pg_calls elim!: pg_user_Get_cases)
  show "pg_user_ok iter s \<Longrightarrow> user_Get (pgUserStore iter) i s = (Err e, s') \<Longrightarrow>
      pg_user_ok iter s' \<and> pg_user_set s' = pg_user_set s \<and> (e = ErrNotFound \<longrightarrow> i \<notin> us_ID ` pg_user_set s)" for s i e s'
    by (auto simp: pg_calls elim!: pg_user_Get_cases)
  show "user_Get (pgUserStore iter) i s \<noteq> (Panic p, s')" for i s p s'
    by (auto simp: pgUserStore_def elim!: pg_user_Get_cases)
  show "pg_user_ok iter s \<Longrightarrow> user_List (pgUserStore iter) s = (Ok l, s') \<Longrightarrow>
      pg_user_ok iter s' \<and> pg_user_set s' = pg_user_set s \<and> distinct (case l of None \<Rightarrow> [] | Some xs \<Rightarrow> xs) \<and>
      set (case l of None \<Rightarrow> [] | Some xs \<Rightarrow> xs) = pg_user_set s" for s l s'
    using pg_user_List_Ok by (simp add: pgUserStore_def)
  show "pg_user_ok iter s \<Longrightarrow> user_List (pgUserStore iter) s = (Err e, s') \<Longrightarrow> pg_user_ok iter s' \<and> pg_user_set s' = pg_user_set s"
    for s e s' by (auto simp: pg_calls pg_user_List_def split: prod.splits)
  show "user_List (pgUserStore iter) s \<noteq> (Panic p, s')" for s p s'
    by (simp add: pgUserStore_def pg_user_List_def split: prod.splits)
qed

end
