(* ===== verification/User.thy ===== *)
theory User
  imports User_Store Go_Mux
begin

text \<open>
  \<^verbatim>\<open>internal/user/user.go\<close>: registration and the HTTP routes of the user service over any store and bus. The
  address check of \<^verbatim>\<open>net/mail\<close> and the formatting of sixteen random bytes as a UUID are arguments.
\<close>

section \<open>Definitions\<close>

record ('st, 'b) UserService =
  svc_store :: "'st UserStore"
  svc_bus :: "'b Bus"

definition NewUserService :: "'st UserStore \<Rightarrow> 'b Bus \<Rightarrow> ('st, 'b) UserService" where
  "NewUserService store bus = \<lparr>svc_store = store, svc_bus = bus\<rparr>"

definition user_any :: "User \<Rightarrow> any" where
  "user_any u = AStruct [(''id'', AString (us_ID u)), (''email'', AString (us_Email u)), (''created_at'', ATime (us_CreatedAt u))]"

definition Register ::
  "(string \<Rightarrow> bool) \<Rightarrow> (u8 list \<Rightarrow> string) \<Rightarrow> ('st, 'b) UserService \<Rightarrow> string \<Rightarrow> (('st \<times> 'b) srv, User) eff" where
  "Register mail_ok uuid svc email =
     (if \<not> mail_ok email then raise (Opaque ''invalid email'')
      else bnd (rand_Read 16) (\<lambda>b. bnd time_Now (\<lambda>now.
        let u = \<lparr>us_ID = uuid b, us_Email = email, us_CreatedAt = wall now\<rparr> in
        bnd (on_state (on_fst (user_Create (svc_store svc) u))) (\<lambda>_.
        bnd (on_state (on_snd (ignore_err (Publish (svc_bus svc) SubjectUserCreated (user_any u))))) (\<lambda>_.
        ret u)))))"

definition registerRequest :: "string list" where
  "registerRequest = [''email'']"

definition postUsers ::
  "(string \<Rightarrow> bool) \<Rightarrow> (u8 list \<Rightarrow> string) \<Rightarrow> ('st, 'b) UserService \<Rightarrow> ('st \<times> 'b) handler" where
  "postUsers mail_ok uuid svc r =
     (case DecodeJSON registerRequest r of
        Ok req \<Rightarrow>
          on_err (Register mail_ok uuid svc (req ''email''))
            (\<lambda>e. if errors_Is e ErrConflict then Error 409 ''email already registered'' else Error 400 (Error_text e))
            (\<lambda>u. JSON 201 (user_any u))
      | _ \<Rightarrow> Error 400 ''invalid request body'')"

definition getUser :: "('st, 'b) UserService \<Rightarrow> ('st \<times> 'b) handler" where
  "getUser svc r =
     on_err (on_state (on_fst (user_Get (svc_store svc) (PathValue r ''id''))))
       (\<lambda>e. Error 404 ''user not found'')
       (\<lambda>u. JSON 200 (user_any u))"

definition listUsers :: "('st, 'b) UserService \<Rightarrow> ('st \<times> 'b) handler" where
  "listUsers svc r =
     on_err (on_state (on_fst (user_List (svc_store svc))))
       (\<lambda>e. Error 500 ''could not list users'')
       (\<lambda>us. JSON 200 (case us of None \<Rightarrow> ANil | Some xs \<Rightarrow> ASlice (map user_any xs)))"

definition userRoutes ::
  "(string \<Rightarrow> bool) \<Rightarrow> (u8 list \<Rightarrow> string) \<Rightarrow> ('st, 'b) UserService \<Rightarrow> ('st \<times> 'b) route list" where
  "userRoutes mail_ok uuid svc =
     [\<lparr>ro_method = ''GET'', ro_segs = [Lit ''healthz''], ro_handler = healthz\<rparr>,
      \<lparr>ro_method = ''POST'', ro_segs = [Lit ''users''], ro_handler = postUsers mail_ok uuid svc\<rparr>,
      \<lparr>ro_method = ''GET'', ro_segs = [Lit ''users'', Wild ''id''], ro_handler = getUser svc\<rparr>,
      \<lparr>ro_method = ''GET'', ro_segs = [Lit ''users''], ro_handler = RequireRole ''admin'' (listUsers svc)\<rparr>]"

definition UserRoutes ::
  "(string \<Rightarrow> bool) \<Rightarrow> (u8 list \<Rightarrow> string) \<Rightarrow> int \<Rightarrow> ('st, 'b) UserService \<Rightarrow> ('st \<times> 'b) handler" where
  "UserRoutes mail_ok uuid redirectCode svc = ServeMux redirectCode (userRoutes mail_ok uuid svc)"


section \<open>Laws\<close>

text \<open>A sequence of requests, each on a response of its own.\<close>

definition handle_one :: "'s handler \<Rightarrow> Request \<Rightarrow> 's srv \<Rightarrow> 's srv" where
  "handle_one h r s = snd (h r (s\<lparr>sv_w := newWriter\<rparr>))"

definition handle_all :: "'s handler \<Rightarrow> Request list \<Rightarrow> 's srv \<Rightarrow> 's srv" where
  "handle_all h rs s = fold (handle_one h) rs s"

lemma handle_all_invariant:
  assumes "\<And>r s. I (sv_state s) \<Longrightarrow> I (sv_state (snd (h r s)))" and "I (sv_state s)"
  shows "I (sv_state (handle_all h rs s))"
  using assms(2) by (induction rs arbitrary: s) (auto simp: handle_all_def handle_one_def assms(1))

text \<open>The steps of a registration with an acceptable address.\<close>

lemma Register_run:
  assumes "mail_ok email"
    and "u = \<lparr>us_ID = uuid (map (sv_random s) [0..<16]), us_Email = email, us_CreatedAt = wall (sv_clock s 0)\<rparr>"
    and "user_Create (svc_store svc) u (fst (sv_state s)) = (c, st)"
    and "ignore_err (Publish (svc_bus svc) SubjectUserCreated (user_any u)) (snd (sv_state s)) = (p, b')"
  shows "Register mail_ok uuid svc email s =
    (let s1 = s\<lparr>sv_random := \<lambda>n. sv_random s (n + 16), sv_clock := \<lambda>n. sv_clock s (Suc n)\<rparr> in
     case c of
       Ok x \<Rightarrow> (case p of Ok y \<Rightarrow> (Ok u, s1\<lparr>sv_state := (st, b')\<rparr>) | Err e \<Rightarrow> (Err e, s1\<lparr>sv_state := (st, b')\<rparr>)
         | Panic q \<Rightarrow> (Panic q, s1\<lparr>sv_state := (st, b')\<rparr>))
     | Err e \<Rightarrow> (Err e, s1\<lparr>sv_state := (st, snd (sv_state s))\<rparr>)
     | Panic q \<Rightarrow> (Panic q, s1\<lparr>sv_state := (st, snd (sv_state s))\<rparr>))"
  using assms(1,3,4)
  by (cases c; cases p; cases "sv_state s")
     (simp_all add: Register_def rand_Read_def bnd_def Let_def assms(2) [symmetric] on_state_def on_fst_def on_snd_def ret_def)

context user_store
begin

text \<open>Every outcome of a registration.\<close>

lemma Register_cases:
  assumes "ok (fst (sv_state s))" and "svc_store svc = store" and "Register mail_ok uuid svc email s = (r, s')"
  shows "ok (fst (sv_state s')) \<and> sv_w s' = sv_w s \<and>
    (case r of
       Ok u \<Rightarrow> mail_ok email \<and> us_Email u = email \<and> email \<notin> us_Email ` users (fst (sv_state s)) \<and>
         users (fst (sv_state s')) = add_user (stored u) (users (fst (sv_state s))) \<and>
         snd (sv_state s') = snd (ignore_err (Publish (svc_bus svc) SubjectUserCreated (user_any u)) (snd (sv_state s)))
     | Err e \<Rightarrow> snd (sv_state s') = snd (sv_state s) \<and>
         (users (fst (sv_state s')) = users (fst (sv_state s)) \<or>
          e \<noteq> ErrConflict \<and> email \<notin> us_Email ` users (fst (sv_state s)) \<and>
          (\<exists>u. us_Email u = email \<and> users (fst (sv_state s')) = add_user (stored u) (users (fst (sv_state s)))))
     | Panic p \<Rightarrow> True)"
proof (cases "mail_ok email")
  case False
  then show ?thesis using assms(1,3) by (auto simp: Register_def raise_def)
next
  case True
  define u where "u = \<lparr>us_ID = uuid (map (sv_random s) [0..<16]), us_Email = email, us_CreatedAt = wall (sv_clock s 0)\<rparr>"
  obtain c st where c: "user_Create store u (fst (sv_state s)) = (c, st)" by (cases "user_Create store u (fst (sv_state s))")
  obtain b' p where p: "ignore_err (Publish (svc_bus svc) SubjectUserCreated (user_any u)) (snd (sv_state s)) = (p, b')"
    by (cases "ignore_err (Publish (svc_bus svc) SubjectUserCreated (user_any u)) (snd (sv_state s))")
  note run = Register_run [where svc = svc and mail_ok = mail_ok and email = email and uuid = uuid and s = s, OF True u_def c [folded assms(2)] p, unfolded assms(3)]
  have pe: "p \<noteq> Err e" for e
    using p by (auto simp: ignore_err_def split: prod.splits result.splits)
  have ue: "us_Email u = email" by (simp add: u_def)
  show ?thesis
  proof (cases c)
    case (Ok x)
    from create_ok [OF assms(1) c [unfolded this]] show ?thesis using run Ok pe True p ue by (cases p) (auto simp: Let_def)
  next
    case (Err e)
    from create_err [OF assms(1) c [unfolded this]] show ?thesis using run Err ue by (auto simp: Let_def)
  next
    case (Panic q)
    then show ?thesis using create_panic c by blast
  qed
qed

lemma getUser_state:
  assumes "ok (fst (sv_state s))" and "svc_store svc = store" and "getUser svc r s = (x, s')"
  shows "ok (fst (sv_state s')) \<and> users (fst (sv_state s')) = users (fst (sv_state s))"
proof -
  obtain g st where g: "user_Get store (PathValue r ''id'') (fst (sv_state s)) = (g, st)"
    by (cases "user_Get store (PathValue r ''id'') (fst (sv_state s))")
  let ?s = "s\<lparr>sv_state := (st, snd (sv_state s))\<rparr>"
  have on: "on_state (on_fst (user_Get (svc_store svc) (PathValue r ''id''))) s = (g, ?s)"
    using g assms(2) by (cases "sv_state s") (simp add: on_state_def on_fst_def)
  have "keeps_state (case g of Ok u \<Rightarrow> JSON 200 (user_any u) | Err e \<Rightarrow> Error 404 ''user not found'' | Panic p \<Rightarrow> lift (Panic p))"
    by (cases g) (simp_all add: keeps)
  moreover have "(case g of Ok u \<Rightarrow> JSON 200 (user_any u) | Err e \<Rightarrow> Error 404 ''user not found'' | Panic p \<Rightarrow> lift (Panic p)) ?s = (x, s')"
    using assms(3) on by (cases g) (simp_all add: getUser_def on_err_def lift_def)
  ultimately have "sv_state s' = sv_state ?s" by (rule keeps_stateD)
  then have st: "fst (sv_state s') = st" by simp
  show ?thesis
  proof (cases g)
    case (Ok u) then show ?thesis using get_ok [OF assms(1) g [unfolded Ok]] st by simp
  next
    case (Err e) then show ?thesis using get_err [OF assms(1) g [unfolded Err]] st by simp
  qed (use get_panic g in simp)
qed

lemma listUsers_state:
  assumes "ok (fst (sv_state s))" and "svc_store svc = store" and "listUsers svc r s = (x, s')"
  shows "ok (fst (sv_state s')) \<and> users (fst (sv_state s')) = users (fst (sv_state s))"
proof -
  obtain g st where g: "user_List store (fst (sv_state s)) = (g, st)" by (cases "user_List store (fst (sv_state s))")
  let ?s = "s\<lparr>sv_state := (st, snd (sv_state s))\<rparr>"
  let ?k = "case g of Ok us \<Rightarrow> JSON 200 (case us of None \<Rightarrow> ANil | Some xs \<Rightarrow> ASlice (map user_any xs))
    | Err e \<Rightarrow> Error 500 ''could not list users'' | Panic p \<Rightarrow> lift (Panic p)"
  have on: "on_state (on_fst (user_List (svc_store svc))) s = (g, ?s)"
    using g assms(2) by (cases "sv_state s") (simp add: on_state_def on_fst_def)
  have "keeps_state ?k" by (cases g) (simp_all add: keeps)
  moreover have "?k ?s = (x, s')" using assms(3) on by (cases g) (simp_all add: listUsers_def on_err_def lift_def)
  ultimately have "sv_state s' = sv_state ?s" by (rule keeps_stateD)
  then have st: "fst (sv_state s') = st" by simp
  show ?thesis
  proof (cases g)
    case (Ok u) then show ?thesis using list_ok [OF assms(1) g [unfolded Ok]] st by simp
  next
    case (Err e) then show ?thesis using list_err [OF assms(1) g [unfolded Err]] st by simp
  qed (use list_panic g in simp)
qed

end

end
