(* ===== verification/User_Props.thy ===== *)
theory User_Props
  imports User
begin

text \<open>
  Properties of the user service over its two stores: unique emails under any traffic and any database
  faults, what registration stores and announces, the answers for conflicts, outages and missing roles.
\<close>

context user_store
begin

lemma postUsers_ok:
  assumes "ok (fst (sv_state s))" and "svc_store svc = store" and "postUsers mail_ok uuid svc r s = (x, s')"
  shows "ok (fst (sv_state s'))"
proof (cases "DecodeJSON registerRequest r")
  case (Ok req)
  obtain u s1 where u: "Register mail_ok uuid svc (req ''email'') s = (u, s1)"
    by (cases "Register mail_ok uuid svc (req ''email'') s")
  have ok1: "ok (fst (sv_state s1))" using Register_cases [OF assms(1,2) u] by simp
  let ?k = "case u of Ok v \<Rightarrow> JSON 201 (user_any v)
    | Err e \<Rightarrow> (if errors_Is e ErrConflict then Error 409 ''email already registered'' else Error 400 (Error_text e))
    | Panic p \<Rightarrow> lift (Panic p)"
  have "keeps_state ?k" by (cases u) (simp_all add: keeps)
  moreover have "?k s1 = (x, s')" using assms(3) Ok u by (cases u) (simp_all add: postUsers_def on_err_def lift_def)
  ultimately have "sv_state s' = sv_state s1" by (rule keeps_stateD)
  then show ?thesis using ok1 by simp
qed (use assms keeps_stateD [OF keeps_JSON(2), of 400 "''invalid request body''" s x s'] in \<open>simp_all add: postUsers_def\<close>)

lemma UserRoutes_ok:
  assumes "ok (fst (sv_state s))" and "svc_store svc = store"
  shows "ok (fst (sv_state (snd (UserRoutes mail_ok uuid code svc r s))))"
proof -
  obtain x s' where run: "UserRoutes mail_ok uuid code svc r s = (x, s')" by (cases "UserRoutes mail_ok uuid code svc r s")
  consider "sv_state s' = sv_state s"
    | ro ms where "ro \<in> set (userRoutes mail_ok uuid svc)" "ro_handler ro (r\<lparr>rq_pathValues := ms\<rparr>) s = (x, s')"
    using ServeMux_cases [OF run [unfolded UserRoutes_def]] by blast
  then have "ok (fst (sv_state s'))"
  proof cases
    case (2 ro ms)
    let ?r = "r\<lparr>rq_pathValues := ms\<rparr>"
    consider "healthz ?r s = (x, s')" | "postUsers mail_ok uuid svc ?r s = (x, s')" | "getUser svc ?r s = (x, s')"
      | "RequireRole ''admin'' (listUsers svc) ?r s = (x, s')"
      using 2 by (auto simp: userRoutes_def)
    then show ?thesis
    proof cases
      case 1
      from keeps_stateD [OF keeps_healthz this] assms(1) show ?thesis by simp
    next
      case 2
      from postUsers_ok [OF assms this] show ?thesis .
    next
      case 3
      from getUser_state [OF assms this] show ?thesis by simp
    next
      case 4
      then show ?thesis
        using listUsers_state [OF assms, of ?r x s'] keeps_stateD [OF keeps_JSON(2), of 403 "''insufficient role''" s x s'] assms(1)
        by (auto simp: RequireRole_def split: if_splits)
    qed
  qed (use assms(1) in simp)
  then show ?thesis using run by simp
qed

end


text \<open>Registration over Postgres and the recording bus.\<close>

lemma pg_Register_cases:
  assumes "Register mail_ok uuid (NewUserService (pgUserStore iter) captureBus) email s = (r, s')"
  obtains (failed) e where "r = Err e" and "snd (sv_state s') = snd (sv_state s)"
  | (stored) u where "r = Ok u" and "us_Email u = email"
      and "insertUser u (up_rows (fst (sv_state s))) = Ok (up_rows (fst (sv_state s')))"
      and "snd (sv_state s') = snd (sv_state s) @ [(''user.created'', user_any u)]"
proof (cases "mail_ok email")
  case False
  then show thesis using assms failed by (auto simp: Register_def raise_def)
next
  case True
  define u where "u = \<lparr>us_ID = uuid (map (sv_random s) [0..<16]), us_Email = email, us_CreatedAt = wall (sv_clock s 0)\<rparr>"
  let ?svc = "NewUserService (pgUserStore iter) captureBus"
  obtain c st where c: "pg_user_Create u (fst (sv_state s)) = (c, st)" by (cases "pg_user_Create u (fst (sv_state s))")
  have c': "user_Create (svc_store ?svc) u (fst (sv_state s)) = (c, st)" using c by (simp add: NewUserService_def pgUserStore_def)
  have p: "ignore_err (Publish (svc_bus ?svc) SubjectUserCreated (user_any u)) (snd (sv_state s)) =
      (Ok (), snd (sv_state s) @ [(''user.created'', user_any u)])"
    by (simp add: NewUserService_def captureBus_def ignore_err_def SubjectUserCreated_def)
  note run = Register_run [where svc = ?svc and mail_ok = mail_ok and email = email and uuid = uuid and s = s,
      OF True u_def c' p, unfolded assms]
  have email: "us_Email u = email" by (simp add: u_def)
  from c show thesis
  proof (cases rule: pg_user_Create_cases)
    case (unchanged e)
    then show thesis using run failed by (auto simp: Let_def)
  next
    case (inserted rows)
    from inserted(3) show thesis
    proof
      assume "c = Ok ()"
      then show thesis using run stored [of u] email inserted by (auto simp: Let_def)
    next
      assume "c = Err connErr"
      then show thesis using run failed by (auto simp: Let_def)
    qed
  qed
qed


section \<open>Properties\<close>

text \<open>C7. Whatever requests the user service handles, in whatever order and with whatever database faults, no
  two rows of the users table have the same email or the same identifier.\<close>

theorem users_stay_unique:
  assumes "\<forall>xs. mset (iter xs) = mset xs"
    and "distinct (map us_ID (up_rows (fst (sv_state s))))" and "distinct (map us_Email (up_rows (fst (sv_state s))))"
  shows "distinct (map us_Email (up_rows (fst (sv_state
      (handle_all (UserRoutes mail_ok uuid code (NewUserService (pgUserStore iter) bus)) rs s))))) \<and>
    distinct (map us_ID (up_rows (fst (sv_state
      (handle_all (UserRoutes mail_ok uuid code (NewUserService (pgUserStore iter) bus)) rs s)))))"
proof -
  have "pg_user_ok iter (fst (sv_state s))" using assms by (simp add: pg_user_ok_def)
  then have "pg_user_ok iter (fst (sv_state (handle_all (UserRoutes mail_ok uuid code (NewUserService (pgUserStore iter) bus)) rs s)))"
    by (intro handle_all_invariant [where I = "\<lambda>st. pg_user_ok iter (fst st)"] pgu.UserRoutes_ok)
       (simp_all add: NewUserService_def)
  then show ?thesis by (simp add: pg_user_ok_def)
qed

definition emptyUsers :: "fault list \<Rightarrow> UserPgDB" where
  "emptyUsers fs = \<lparr>up_rows = [], up_faults = fs\<rparr>"

definition userSrv :: "'s \<Rightarrow> 's srv" where
  "userSrv st = \<lparr>sv_state = st, sv_clock = (\<lambda>n. \<lparr>wall = 1500, mono = 0\<rparr>), sv_random = (\<lambda>n. 0), sv_log = [], sv_w = newWriter\<rparr>"

definition userRequest :: "string \<Rightarrow> string \<Rightarrow> header \<Rightarrow> Request" where
  "userRequest method path h = \<lparr>rq_Method = method, rq_URL = \<lparr>u_Scheme = [], u_Host = [], u_Path = path, u_RawPath = [], u_RawQuery = []\<rparr>,
     rq_Header = h, rq_Body = [], rq_Host = ''user'', rq_RemoteAddr = ''10.0.0.2:1'', rq_requestID = None, rq_pathValues = []\<rparr>"

theorem users_stay_unique_witness:
  "distinct (map us_Email (up_rows (fst (sv_state
      (handle_all (UserRoutes (\<lambda>_. True) (\<lambda>b. ''u'') 301 (NewUserService (pgUserStore (\<lambda>xs. xs)) captureBus))
        [userRequest ''POST'' ''/users'' Map.empty, userRequest ''GET'' ''/users'' Map.empty] (userSrv (emptyUsers [FailAfter], [])))))))"
  using users_stay_unique [of "\<lambda>xs. xs" "userSrv (emptyUsers [FailAfter], [])" "\<lambda>_. True" "\<lambda>b. ''u''" 301 captureBus
      "[userRequest ''POST'' ''/users'' Map.empty, userRequest ''GET'' ''/users'' Map.empty]"]
  by (simp add: userSrv_def emptyUsers_def)

text \<open>C25. A successful registration over Postgres stores one new row (the timestamp cut to microseconds) and
  publishes one \<^verbatim>\<open>user.created\<close> event with the full user; a failed one publishes nothing.\<close>

theorem register_effect:
  assumes "Register mail_ok uuid (NewUserService (pgUserStore iter) captureBus) email s = (r, s')"
  shows "case r of
      Ok u \<Rightarrow> us_Email u = email \<and> email \<notin> us_Email ` set (up_rows (fst (sv_state s))) \<and>
        up_rows (fst (sv_state s')) = up_rows (fst (sv_state s)) @ [u\<lparr>us_CreatedAt := us_CreatedAt u div 1000 * 1000\<rparr>] \<and>
        snd (sv_state s') = snd (sv_state s) @ [(''user.created'', user_any u)]
    | Err e \<Rightarrow> snd (sv_state s') = snd (sv_state s)
    | Panic p \<Rightarrow> False"
  using assms
proof (cases rule: pg_Register_cases)
  case (stored u)
  then show ?thesis using insertUser_Ok [OF stored(3)] by (simp add: pg_stored_def timestamptzArg_def)
qed simp

theorem register_effect_witness:
  "case fst (Register (\<lambda>_. True) (\<lambda>b. ''u1'') (NewUserService (pgUserStore (\<lambda>xs. xs)) captureBus) ''a@b.c'' (userSrv (emptyUsers [], []))) of
      Ok u \<Rightarrow> us_Email u = ''a@b.c''
    | Err e \<Rightarrow> True
    | Panic p \<Rightarrow> False"
proof -
  let ?s = "userSrv (emptyUsers [], [])"
  obtain r s' where run: "Register (\<lambda>_. True) (\<lambda>b. ''u1'') (NewUserService (pgUserStore (\<lambda>xs. xs)) captureBus) ''a@b.c'' ?s = (r, s')"
    by (cases "Register (\<lambda>_. True) (\<lambda>b. ''u1'') (NewUserService (pgUserStore (\<lambda>xs. xs)) captureBus) ''a@b.c'' ?s")
  from register_effect [OF run] run show ?thesis by (auto split: result.splits)
qed

text \<open>C26. A user that was registered can be read back by its identifier: with the database reachable,
  \<^verbatim>\<open>GET /users/{id}\<close> answers 200 with the registered user, its time at microsecond precision.\<close>

theorem registered_user_found:
  assumes "Register mail_ok uuid (NewUserService (pgUserStore iter) captureBus) email s = (Ok u, s1)"
    and "up_faults (fst (sv_state s1)) = []" and "sv_state s2 = sv_state s1" and "fresh s2" and "PathValue r ''id'' = us_ID u"
  shows "getUser (NewUserService (pgUserStore iter) captureBus) r s2 =
    (Ok (), s2\<lparr>sv_w := answered 200 (user_any (u\<lparr>us_CreatedAt := us_CreatedAt u div 1000 * 1000\<rparr>)) (sv_w s2)\<rparr>)"
proof -
  let ?u = "u\<lparr>us_CreatedAt := us_CreatedAt u div 1000 * 1000\<rparr>" and ?db = "fst (sv_state s1)"
  have ins: "insertUser u (up_rows (fst (sv_state s))) = Ok (up_rows ?db)"
    using assms(1) by (cases rule: pg_Register_cases) auto
  have rows: "up_rows ?db = up_rows (fst (sv_state s)) @ [?u]" "us_ID u \<notin> us_ID ` set (up_rows (fst (sv_state s)))"
    using insertUser_Ok [OF ins] by (simp_all add: pg_stored_def timestamptzArg_def)
  have "textArg (us_ID u) = Ok (us_ID u)" using ins by (cases "textArg (us_ID u)") (auto simp: insertUser_def dest: textArg_Ok)
  moreover have "filter (\<lambda>v. us_ID v = us_ID u) (up_rows ?db) = [?u]"
    using rows by (auto simp: filter_empty_conv image_iff)
  moreover have "?db\<lparr>up_faults := []\<rparr> = ?db" using assms(2) by simp
  ultimately have "pg_user_Get (us_ID u) ?db = (Ok ?u, ?db)"
    using assms(2) by (simp add: pg_user_Get_def Let_def)
  then have "on_state (on_fst (user_Get (svc_store (NewUserService (pgUserStore iter) captureBus)) (PathValue r ''id''))) s2 = (Ok ?u, s2)"
    using assms(3,5) by (cases "sv_state s1") (simp add: NewUserService_def pgUserStore_def on_state_def on_fst_def)
  then show ?thesis by (simp add: getUser_def on_err_def JSON_fresh [OF assms(4)])
qed

lemma demo_Register:
  "Register (\<lambda>_. True) (\<lambda>b. ''u1'') (NewUserService (pgUserStore (\<lambda>xs. xs)) captureBus) ''a@b.c'' (userSrv (emptyUsers fs, [])) =
    (case popFault fs of
       (NoFault, fs') \<Rightarrow> (Ok \<lparr>us_ID = ''u1'', us_Email = ''a@b.c'', us_CreatedAt = 1500\<rparr>,
         userSrv (\<lparr>up_rows = [\<lparr>us_ID = ''u1'', us_Email = ''a@b.c'', us_CreatedAt = 1000\<rparr>], up_faults = fs'\<rparr>,
           [(''user.created'', user_any \<lparr>us_ID = ''u1'', us_Email = ''a@b.c'', us_CreatedAt = 1500\<rparr>)]))
     | (FailBefore, fs') \<Rightarrow> (Err connErr, userSrv (emptyUsers fs', []))
     | (FailAfter, fs') \<Rightarrow> (Err connErr,
         userSrv (\<lparr>up_rows = [\<lparr>us_ID = ''u1'', us_Email = ''a@b.c'', us_CreatedAt = 1000\<rparr>], up_faults = fs'\<rparr>, [])))"
proof -
  have "textArg ''u1'' = Ok ''u1''" "textArg ''a@b.c'' = Ok ''a@b.c''" by code_simp+
  then have ins: "insertUser \<lparr>us_ID = ''u1'', us_Email = ''a@b.c'', us_CreatedAt = 1500\<rparr> [] = Ok [\<lparr>us_ID = ''u1'', us_Email = ''a@b.c'', us_CreatedAt = 1000\<rparr>]"
    by (simp add: insertUser_def timestamptzArg_def)
  obtain f fs' where f: "popFault fs = (f, fs')" by (cases "popFault fs")
  have ce: "\<not> isUniqueViolation connErr" by (simp add: connErr_def)
  show ?thesis
    using f ins ce
    by (cases f)
       (simp_all add: Register_def rand_Read_def bnd_def userSrv_def NewUserService_def pgUserStore_def on_state_def on_fst_def on_snd_def
         emptyUsers_def pg_user_Create_def Let_def captureBus_def ignore_err_def ret_def SubjectUserCreated_def)
qed

theorem registered_user_found_witness:
  "getUser (NewUserService (pgUserStore (\<lambda>xs. xs)) captureBus) ((userRequest ''GET'' ''/users/u1'' Map.empty)\<lparr>rq_pathValues := [(''id'', ''u1'')]\<rparr>)
     (snd (Register (\<lambda>_. True) (\<lambda>b. ''u1'') (NewUserService (pgUserStore (\<lambda>xs. xs)) captureBus) ''a@b.c'' (userSrv (emptyUsers [], [])))) =
   (Ok (), (snd (Register (\<lambda>_. True) (\<lambda>b. ''u1'') (NewUserService (pgUserStore (\<lambda>xs. xs)) captureBus) ''a@b.c'' (userSrv (emptyUsers [], []))))
      \<lparr>sv_w := answered 200 (user_any \<lparr>us_ID = ''u1'', us_Email = ''a@b.c'', us_CreatedAt = 1000\<rparr>) newWriter\<rparr>)"
proof -
  let ?s1 = "snd (Register (\<lambda>_. True) (\<lambda>b. ''u1'') (NewUserService (pgUserStore (\<lambda>xs. xs)) captureBus) ''a@b.c'' (userSrv (emptyUsers [], [])))"
  let ?r = "(userRequest ''GET'' ''/users/u1'' Map.empty)\<lparr>rq_pathValues := [(''id'', ''u1'')]\<rparr>"
  let ?u = "\<lparr>us_ID = ''u1'', us_Email = ''a@b.c'', us_CreatedAt = 1500\<rparr>"
  have reg: "Register (\<lambda>_. True) (\<lambda>b. ''u1'') (NewUserService (pgUserStore (\<lambda>xs. xs)) captureBus) ''a@b.c'' (userSrv (emptyUsers [], [])) = (Ok ?u, ?s1)"
    and fl: "up_faults (fst (sv_state ?s1)) = []" and fr: "fresh ?s1" and w: "sv_w ?s1 = newWriter"
    by (simp_all add: demo_Register) (simp_all add: userSrv_def fresh_def newWriter_def)
  have "PathValue ?r ''id'' = us_ID ?u" by (simp add: PathValue_def)
  from registered_user_found [OF reg fl refl fr this] show ?thesis unfolding w by simp
qed

text \<open>An outage is reported as the client's fault: when the database connection fails, \<^verbatim>\<open>POST /users\<close> answers
  400 with the driver's error text; if the reply to a committed INSERT was lost, the user exists although
  no \<^verbatim>\<open>user.created\<close> event was published.\<close>

theorem outage_answered_400:
  "DecodeJSON registerRequest r = Ok req \<Longrightarrow> req ''email'' = ''a@b.c'' \<Longrightarrow>
   postUsers (\<lambda>_. True) (\<lambda>b. ''u1'') (NewUserService (pgUserStore (\<lambda>xs. xs)) captureBus) r (userSrv (emptyUsers [FailAfter], [])) =
     (Ok (), (userSrv (\<lparr>up_rows = [\<lparr>us_ID = ''u1'', us_Email = ''a@b.c'', us_CreatedAt = 1000\<rparr>], up_faults = []\<rparr>, []))
       \<lparr>sv_w := answered 400 (AMap [(''error'', AString ''connection failure'')]) newWriter\<rparr>)"
proof -
  assume r: "DecodeJSON registerRequest r = Ok req" "req ''email'' = ''a@b.c''"
  let ?s = "userSrv (\<lparr>up_rows = [\<lparr>us_ID = ''u1'', us_Email = ''a@b.c'', us_CreatedAt = 1000\<rparr>], up_faults = []\<rparr>, [])"
  have fr: "fresh ?s" by (simp add: userSrv_def fresh_def newWriter_def)
  have "\<not> errors_Is connErr ErrConflict" "Error_text connErr = ''connection failure''" by (simp_all add: connErr_def ErrConflict_def)
  then show ?thesis
    using r Error_fresh [OF fr, of 400 "''connection failure''"] demo_Register [of "[FailAfter]"]
    by (simp add: postUsers_def on_err_def) (simp add: userSrv_def)
qed

definition emailBody :: string where
  "emailBody = (let q = [CHR 0x22] in ''{'' @ q @ ''email'' @ q @ '': '' @ q @ ''a@b.c'' @ q @ ''}'')"

lemma emailBody_decoded:
  "map_option (\<lambda>(j, rest). map_option (\<lambda>v. v ''email'') (storeStruct registerRequest j)) (parsePrefix emailBody) = Some (Some ''a@b.c'')"
  by code_simp

lemma emailPost_decoded:
  "\<exists>req. DecodeJSON registerRequest ((userRequest ''POST'' ''/users'' h)\<lparr>rq_Body := emailBody\<rparr>) = Ok req \<and> req ''email'' = ''a@b.c''"
proof -
  have "length emailBody \<le> 1000" by (simp add: emailBody_def)
  then have "take maxBody emailBody = emailBody" "\<not> maxBody < length emailBody" by (simp_all add: maxBody_def)
  then show ?thesis using emailBody_decoded by (auto simp: DecodeJSON_def)
qed

theorem outage_answered_400_witness:
  "w_code (sv_w (snd (postUsers (\<lambda>_. True) (\<lambda>b. ''u1'') (NewUserService (pgUserStore (\<lambda>xs. xs)) captureBus)
     ((userRequest ''POST'' ''/users'' Map.empty)\<lparr>rq_Body := emailBody\<rparr>) (userSrv (emptyUsers [FailAfter], []))))) = Some 400"
proof -
  obtain req where "DecodeJSON registerRequest ((userRequest ''POST'' ''/users'' Map.empty)\<lparr>rq_Body := emailBody\<rparr>) = Ok req"
    "req ''email'' = ''a@b.c''"
    using emailPost_decoded by blast
  from outage_answered_400 [OF this] show ?thesis by (simp add: answered_def)
qed

lemma list_route: "routesTo (userRoutes mail_ok uuid svc) ''GET'' ''/users'' ''GET'' [Lit ''users''] []"
  by code_simp

lemma list_handler:
  assumes "rq_Method r = ''GET''" and "rq_URL r = \<lparr>u_Scheme = [], u_Host = [], u_Path = ''/users'', u_RawPath = [], u_RawQuery = []\<rparr>"
  shows "UserRoutes mail_ok uuid code svc r = RequireRole ''admin'' (listUsers svc) (r\<lparr>rq_pathValues := []\<rparr>)"
proof -
  obtain ro where ro: "findHandler (userRoutes mail_ok uuid svc) ''GET''
      \<lparr>u_Scheme = [], u_Host = [], u_Path = ''/users'', u_RawPath = [], u_RawQuery = []\<rparr> = Handle ro []"
    "ro \<in> set (userRoutes mail_ok uuid svc)" "ro_method ro = ''GET''" "ro_segs ro = [Lit ''users'']"
    using routesTo_Handle [OF list_route] by metis
  then have "ro_handler ro = RequireRole ''admin'' (listUsers svc)" by (auto simp: userRoutes_def)
  then show ?thesis using ro(1,4) assms by (simp add: UserRoutes_def ServeMux_def)
qed

text \<open>Listing users is for administrators: over any store, \<^verbatim>\<open>GET /users\<close> without the admin role answers 403 and
  touches neither store nor bus.\<close>

theorem list_requires_admin:
  assumes "rq_Method r = ''GET''" and "rq_URL r = \<lparr>u_Scheme = [], u_Host = [], u_Path = ''/users'', u_RawPath = [], u_RawQuery = []\<rparr>"
    and "header_Get (rq_Header r) ''X-Auth-Role'' \<noteq> ''admin''" and "fresh s"
  shows "UserRoutes mail_ok uuid code svc r s =
    (Ok (), s\<lparr>sv_w := answered 403 (AMap [(''error'', AString ''insufficient role'')]) (sv_w s)\<rparr>)"
  using assms(3) by (simp add: list_handler [OF assms(1,2)] RequireRole_def HeaderRole_def Error_fresh [OF assms(4)])

theorem list_requires_admin_witness:
  "w_code (sv_w (snd (UserRoutes (\<lambda>_. True) (\<lambda>b. ''u1'') 301 (NewUserService (pgUserStore (\<lambda>xs. xs)) captureBus)
     (userRequest ''GET'' ''/users'' [''X-Auth-Role'' \<mapsto> [''user'']]) (userSrv (emptyUsers [], []))))) = Some 403"
proof -
  let ?r = "userRequest ''GET'' ''/users'' [''X-Auth-Role'' \<mapsto> [''user'']]"
  have key: "CanonicalHeaderKey ''X-Auth-Role'' = ''X-Auth-Role''" by code_simp
  have h: "rq_Method ?r = ''GET''" "rq_URL ?r = \<lparr>u_Scheme = [], u_Host = [], u_Path = ''/users'', u_RawPath = [], u_RawQuery = []\<rparr>"
    "header_Get (rq_Header ?r) ''X-Auth-Role'' \<noteq> ''admin''"
    by (simp_all add: userRequest_def header_Get_def key)
  have "fresh (userSrv (emptyUsers [], [] :: capture))" by (simp add: fresh_def userSrv_def newWriter_def)
  from list_requires_admin [OF h this] show ?thesis by (simp add: answered_def)
qed

end
