(* ===== verification/Platform.thy ===== *)
theory Platform
  imports Gateway_Props Httpx_Props User_Props
begin

text \<open>
  The gateway in front of the user service: the transport of the gateway delivers a request to the service's
  handler, wrapped in the middleware its \<^verbatim>\<open>main\<close> installs, and brings back what the handler wrote.
\<close>

section \<open>The network between gateway and user service\<close>

text \<open>The request as the upstream's server parses it from the wire.\<close>

definition received :: "Request \<Rightarrow> Request" where
  "received out =
     (let p = EscapedPath (rq_URL out); path = pathUnescape p in
      out\<lparr>rq_URL := \<lparr>u_Scheme = [], u_Host = [], u_Path = path, u_RawPath = (if escapePath path = p then [] else p),
            u_RawQuery = u_RawQuery (rq_URL out)\<rparr>,
          rq_RemoteAddr := ''10.0.0.1:40000'', rq_requestID := None, rq_pathValues := []\<rparr>)"


text \<open>A connection on which the handler panicked is closed without an answer.\<close>

definition network :: "'s handler \<Rightarrow> Request \<Rightarrow> ('s srv, Response) eff" where
  "network h out u =
     (case h (received out) (u\<lparr>sv_w := newWriter\<rparr>) of
        (Ok _, u') \<Rightarrow>
          (Ok \<lparr>rs_StatusCode = (case w_code (sv_w u') of None \<Rightarrow> 200 | Some c \<Rightarrow> c), rs_Header = w_sent (sv_w u'),
               rs_Body = w_Body (sv_w u'), rs_truncated = False\<rparr>, u')
      | (_, u') \<Rightarrow> (Err (Opaque ''EOF''), u'))"

text \<open>\<^verbatim>\<open>cmd/user/main.go\<close>: the handler the user service serves.\<close>

definition userHandler ::
  "(string \<Rightarrow> bool) \<Rightarrow> (u8 list \<Rightarrow> string) \<Rightarrow> int \<Rightarrow> ('st, 'b) UserService \<Rightarrow> ('st \<times> 'b) handler" where
  "userHandler mail_ok uuid code svc = Chain (UserRoutes mail_ok uuid code svc) [RequestID, Logger, Recovery]"


section \<open>Lemmas\<close>

text \<open>An answer written by a handler passes the middleware unchanged.\<close>

lemma stack_answer:
  assumes "\<And>i s1. fresh s1 \<Longrightarrow> sv_state s1 = sv_state s \<Longrightarrow>
      h (r\<lparr>rq_requestID := Some i\<rparr>) s1 = (Ok (), s1\<lparr>sv_state := st, sv_w := answered code v (sv_w s1)\<rparr>)"
    and "fresh s"
  shows "\<exists>s'. Chain h [RequestID, Logger, Recovery] r s = (Ok (), s') \<and> sv_state s' = st \<and> w_code (sv_w s') = Some code \<and>
    w_Body (sv_w s') = (case marshal v of None \<Rightarrow> [] | Some t \<Rightarrow> t @ [CHR 0x0A]) \<and>
    w_sent (sv_w s') ''Content-Length'' = None"
  using stack_answers [OF _ assms(2), of h r st code v] assms(1) by (simp add: Recovery_def jsonBody_def)

lemma hop_keys: "\<forall>k \<in> set hopHeaders. CanonicalHeaderKey k \<noteq> ''X-Auth-Role'' \<and> CanonicalHeaderKey k \<noteq> ''X-Auth-Subject''"
  by code_simp

lemma fold_Del_keeps: "\<forall>k \<in> set ks. CanonicalHeaderKey k \<noteq> x \<Longrightarrow> fold header_Del ks h x = h x"
  by (induction ks arbitrary: h) (auto simp: header_Del_def)

text \<open>Without a \<^verbatim>\<open>Connection\<close> header the identity headers reach the upstream.\<close>

lemma outgoing_role:
  assumes "rq_Header r ''Connection'' = None" and "rq_Header (director r) = rq_Header r"
  obtains out where "outgoing director r = Some out" and "rq_Header out ''X-Auth-Role'' = rq_Header r ''X-Auth-Role''"
    and "rq_URL out = rq_URL (director r)" and "rq_Method out = rq_Method (director r)"
proof -
  let ?h = "rq_Header r"
  have up: "upgradeType ?h = []" using assms(1) by (simp add: upgradeType_def containsToken_def header_values_def)
  have keep: "removeHopByHopHeaders ?h ''X-Auth-Role'' = ?h ''X-Auth-Role''"
    using assms(1) hop_keys fold_Del_keeps [of hopHeaders "''X-Auth-Role''" ?h]
    by (simp add: removeHopByHopHeaders_def connectionNames_def header_values_def)
  obtain out where out: "outgoing director r = Some out"
    by (simp add: outgoing_def Let_def assms(2) up isPrint_def)
  then have "rq_Header out ''X-Auth-Role'' = rq_Header r ''X-Auth-Role''"
    by (auto simp: outgoing_def Let_def assms(2) up isPrint_def addForwardedFor_def header_Set_def keep split: option.splits)
  moreover have "rq_URL out = rq_URL (director r)" "rq_Method out = rq_Method (director r)"
    using out by (auto simp: outgoing_def Let_def split: if_splits)
  ultimately show thesis using out that by blast
qed

text \<open>The user service behind its middleware, asked for the list.\<close>

lemma userHandler_list:
  assumes "rq_Method r = ''GET''" and "rq_URL r = \<lparr>u_Scheme = [], u_Host = [], u_Path = ''/users'', u_RawPath = [], u_RawQuery = []\<rparr>"
    and "up_faults (fst (sv_state u)) = []" and "fresh u"
  shows "\<exists>u'. userHandler mail_ok uuid code (NewUserService (pgUserStore iter) bus) r u = (Ok (), u') \<and>
    w_sent (sv_w u') ''Content-Length'' = None \<and>
    (if header_Get (rq_Header r) ''X-Auth-Role'' = ''admin''
     then w_code (sv_w u') = Some 200 \<and>
       w_Body (sv_w u') = (case marshal (let out = sort_key us_CreatedAt (iter (up_rows (fst (sv_state u)))) in
          if out = [] then ANil else ASlice (map user_any out)) of None \<Rightarrow> [] | Some t \<Rightarrow> t @ [CHR 0x0A])
     else w_code (sv_w u') = Some 403 \<and>
       w_Body (sv_w u') = (case marshal (AMap [(''error'', AString ''insufficient role'')]) of None \<Rightarrow> [] | Some t \<Rightarrow> t @ [CHR 0x0A]))"
proof -
  let ?svc = "NewUserService (pgUserStore iter) bus" and ?db = "fst (sv_state u)"
  let ?out = "sort_key us_CreatedAt (iter (up_rows ?db))"
  let ?v = "if ?out = [] then ANil else ASlice (map user_any ?out)"
  show ?thesis
  proof (cases "header_Get (rq_Header r) ''X-Auth-Role'' = ''admin''")
    case True
    have db: "?db\<lparr>up_faults := []\<rparr> = ?db" using assms(3) by simp
    have list: "pg_user_List iter ?db = (Ok (if ?out = [] then None else Some ?out), ?db)"
      using assms(3) db by (simp add: pg_user_List_def Let_def)
    have "UserRoutes mail_ok uuid code ?svc (r\<lparr>rq_requestID := Some i\<rparr>) s1 =
        (Ok (), s1\<lparr>sv_state := sv_state u, sv_w := answered 200 ?v (sv_w s1)\<rparr>)"
      if "fresh s1" "sv_state s1 = sv_state u" for i s1
    proof -
      have on: "on_state (on_fst (user_List (svc_store ?svc))) s1 = (Ok (if ?out = [] then None else Some ?out), s1)"
        using list that(2) by (cases "sv_state u") (simp add: NewUserService_def pgUserStore_def on_state_def on_fst_def)
      have "s1\<lparr>sv_state := sv_state u\<rparr> = s1" using that(2) by simp
      then show ?thesis
        using True on
        by (simp add: list_handler assms(1,2) RequireRole_def HeaderRole_def listUsers_def on_err_def JSON_fresh [OF that(1)])
    qed
    from stack_answer [where h = "UserRoutes mail_ok uuid code ?svc" and r = r and s = u, OF this assms(4)] show ?thesis using True by (auto simp: userHandler_def)
  next
    case False
    have "UserRoutes mail_ok uuid code ?svc (r\<lparr>rq_requestID := Some i\<rparr>) s1 =
        (Ok (), s1\<lparr>sv_state := sv_state u, sv_w := answered 403 (AMap [(''error'', AString ''insufficient role'')]) (sv_w s1)\<rparr>)"
      if "fresh s1" "sv_state s1 = sv_state u" for i s1
    proof -
      have "s1\<lparr>sv_state := sv_state u\<rparr> = s1" using that(2) by simp
      then show ?thesis
        using False by (simp add: list_handler assms(1,2) RequireRole_def HeaderRole_def Error_fresh [OF that(1)])
    qed
    from stack_answer [where h = "UserRoutes mail_ok uuid code ?svc" and r = r and s = u, OF this assms(4)] show ?thesis using False by (auto simp: userHandler_def)
  qed
qed


lemma received_users:
  assumes "rq_URL out = \<lparr>u_Scheme = sc, u_Host = ho, u_Path = ''/users'', u_RawPath = [], u_RawQuery = []\<rparr>"
  shows "rq_URL (received out) = \<lparr>u_Scheme = [], u_Host = [], u_Path = ''/users'', u_RawPath = [], u_RawQuery = []\<rparr>"
    and "rq_Method (received out) = rq_Method out" and "rq_Header (received out) = rq_Header out"
proof -
  have "escapePath ''/users'' = ''/users''" "pathUnescape ''/users'' = ''/users''" by code_simp+
  then show "rq_URL (received out) = \<lparr>u_Scheme = [], u_Host = [], u_Path = ''/users'', u_RawPath = [], u_RawQuery = []\<rparr>"
    using assms by (simp add: received_def Let_def EscapedPath_def)
  show "rq_Method (received out) = rq_Method out" "rq_Header (received out) = rq_Header out"
    by (simp_all add: received_def Let_def)
qed

lemma proxyDirector_users:
  assumes "u_Path target = []" "u_RawPath target = []" "u_RawQuery target = []"
    and "rq_URL r = \<lparr>u_Scheme = [], u_Host = [], u_Path = ''/api/v1/users'', u_RawPath = [], u_RawQuery = []\<rparr>"
  shows "rq_URL (proxyDirector target r) =
    \<lparr>u_Scheme = u_Scheme target, u_Host = u_Host target, u_Path = ''/users'', u_RawPath = [], u_RawQuery = []\<rparr>"
    and "rq_Method (proxyDirector target r) = rq_Method r"
  using assms
  by (simp_all add: proxyDirector_def rewriteRequestURL_def joinURLPath_def singleJoiningSlash_def has_suffix_def has_prefix_def Let_def)

text \<open>An upstream answer without declared length arrives at the client as it is.\<close>

lemma copyAnswer_fresh:
  assumes "fresh s" and "200 \<le> rs_StatusCode res" "rs_StatusCode res \<le> 599" "rs_StatusCode res \<noteq> 204" "rs_StatusCode res \<noteq> 304"
    and "rs_Header res ''Content-Length'' = None" and "\<not> rs_truncated res"
  shows "\<exists>s'. copyAnswer res s = (Ok (), s') \<and> w_code (sv_w s') = Some (rs_StatusCode res) \<and> w_Body (sv_w s') = rs_Body res"
proof -
  have "removeHopByHopHeaders (rs_Header res) ''Content-Length'' = None"
    using removeHopByHop_cases [of "rs_Header res" "''Content-Length''"] assms(6) by auto
  then have "copyHeader (w_Header (sv_w s)) (removeHopByHopHeaders (rs_Header res)) ''Content-Length'' = None"
    using assms(1) by (simp add: copyHeader_def fresh_def)
  then show ?thesis
    using assms
    by (cases "rs_Body res = []")
       (auto simp: copyAnswer_def header_edit_def bnd_def WriteHeader_def Let_def conn_WriteHeader_def ret_def Write_def conn_Write_def
         bodyAllowed_def fresh_def)
qed


text \<open>The list as the proxy brings it back, for a request with an identified role.\<close>

lemma proxied_list:
  assumes target: "u_Path target = []" "u_RawPath target = []" "u_RawQuery target = []"
    and "rq_Method r = ''GET''" and "rq_URL r = \<lparr>u_Scheme = [], u_Host = [], u_Path = ''/api/v1/users'', u_RawPath = [], u_RawQuery = []\<rparr>"
    and "rq_Header r ''X-Auth-Role'' = Some [role]" and "rq_Header r ''Connection'' = None"
    and "fresh s" and "sv_state s = (l, u)" and "up_faults (fst (sv_state u)) = []"
  shows "\<exists>s'. newProxy (network (userHandler mail_ok uuid code (NewUserService (pgUserStore iter) bus))) target r s = (Ok (), s') \<and>
    (if role = ''admin''
     then w_code (sv_w s') = Some 200 \<and>
       w_Body (sv_w s') = (case marshal (let out = sort_key us_CreatedAt (iter (up_rows (fst (sv_state u)))) in
          if out = [] then ANil else ASlice (map user_any out)) of None \<Rightarrow> [] | Some t \<Rightarrow> t @ [CHR 0x0A])
     else w_code (sv_w s') = Some 403 \<and>
       w_Body (sv_w s') = (case marshal (AMap [(''error'', AString ''insufficient role'')]) of None \<Rightarrow> [] | Some t \<Rightarrow> t @ [CHR 0x0A]))"
proof -
  obtain out where out: "outgoing (proxyDirector target) r = Some out"
    and role: "rq_Header out ''X-Auth-Role'' = Some [role]"
    and url: "rq_URL out = rq_URL (proxyDirector target r)" "rq_Method out = ''GET''"
    using outgoing_role [of r "proxyDirector target"] assms(4-7) proxyDirector_users(2) [OF target assms(5)]
    by (auto simp: identityHeaders)
  have rec: "rq_Method (received out) = ''GET''" "header_Get (rq_Header (received out)) ''X-Auth-Role'' = role"
    "rq_URL (received out) = \<lparr>u_Scheme = [], u_Host = [], u_Path = ''/users'', u_RawPath = [], u_RawQuery = []\<rparr>"
    using received_users [OF url(1) [unfolded proxyDirector_users(1) [OF target assms(5)]]] url(2) role
    by (simp_all add: header_Get_def)
  let ?u = "u\<lparr>sv_w := newWriter\<rparr>"
  have fu: "up_faults (fst (sv_state ?u)) = []" "fresh ?u" using assms(10) by (simp_all add: fresh_def newWriter_def)
  obtain u' where u': "userHandler mail_ok uuid code (NewUserService (pgUserStore iter) bus) (received out) ?u = (Ok (), u')"
    and cl: "w_sent (sv_w u') ''Content-Length'' = None"
    and ans: "if role = ''admin''
     then w_code (sv_w u') = Some 200 \<and>
       w_Body (sv_w u') = (case marshal (let out = sort_key us_CreatedAt (iter (up_rows (fst (sv_state u)))) in
          if out = [] then ANil else ASlice (map user_any out)) of None \<Rightarrow> [] | Some t \<Rightarrow> t @ [CHR 0x0A])
     else w_code (sv_w u') = Some 403 \<and>
       w_Body (sv_w u') = (case marshal (AMap [(''error'', AString ''insufficient role'')]) of None \<Rightarrow> [] | Some t \<Rightarrow> t @ [CHR 0x0A])"
    using userHandler_list [OF rec(1,3) fu, of mail_ok uuid code iter bus] unfolding rec(2) by auto
  let ?net = "network (userHandler mail_ok uuid code (NewUserService (pgUserStore iter) bus))"
  let ?res = "\<lparr>rs_StatusCode = (case w_code (sv_w u') of None \<Rightarrow> 200 | Some c \<Rightarrow> c), rs_Header = w_sent (sv_w u'),
               rs_Body = w_Body (sv_w u'), rs_truncated = False\<rparr>"
  have net: "on_state (on_snd (?net out)) s = (Ok ?res, s\<lparr>sv_state := (l, u')\<rparr>)"
    using u' assms(9) by (simp add: network_def on_state_def on_snd_def)
  have code: "rs_StatusCode ?res = (if role = ''admin'' then 200 else 403)" using ans by (auto split: if_splits)
  have fr: "fresh (s\<lparr>sv_state := (l, u')\<rparr>)" using assms(8) by (simp add: fresh_def)
  have rng: "200 \<le> rs_StatusCode ?res" "rs_StatusCode ?res \<le> 599" "rs_StatusCode ?res \<noteq> 204" "rs_StatusCode ?res \<noteq> 304"
    unfolding code by simp_all
  obtain s' where s': "copyAnswer ?res (s\<lparr>sv_state := (l, u')\<rparr>) = (Ok (), s')"
    "w_code (sv_w s') = Some (rs_StatusCode ?res)" "w_Body (sv_w s') = rs_Body ?res"
    using copyAnswer_fresh [OF fr rng] cl by auto
  have "newProxy ?net target r s = (Ok (), s')"
    unfolding newProxy_def ReverseProxy_def using out net s'(1) code by simp
  then show ?thesis using s' ans code by (auto split: if_splits)
qed


section \<open>Properties\<close>

text \<open>C8. Listing users through the platform: with a valid token and below the rate limit,
  \<^verbatim>\<open>GET /api/v1/users\<close> at the gateway is answered with the stored users in order of creation when the token's role is
  \<^verbatim>\<open>admin\<close>, and with 403 for every other role, whatever identity headers the client sends.\<close>

theorem platform_list_users:
  assumes "jwt_lawful jwt" and "NewGateway parse (network (userHandler mail_ok uuid code (NewUserService (pgUserStore iter) bus))) cfg = Ok g"
    and "parse (gc_UserURL cfg) = Ok target" and "u_Path target = []" "u_RawPath target = []" "u_RawQuery target = []"
    and "gc_RateLimit cfg = Some l" and "fst (Allow l (sv_clock s 0) (clientIP r) (fst (sv_state s))) = Ok True"
    and "jwt_carries jwt ''HS256'' (au_secret (gc_Auth cfg)) tok c" and "cl_Issuer c = au_issuer (gc_Auth cfg)"
    and "timely c (wall (sv_clock s 1))"
    and "rq_Method r = ''GET''" and "rq_URL r = \<lparr>u_Scheme = [], u_Host = [], u_Path = ''/api/v1/users'', u_RawPath = [], u_RawQuery = []\<rparr>"
    and "rq_Header r ''Authorization'' = Some [''Bearer '' @ tok]" and "rq_Header r ''Connection'' = None"
    and "fresh s" and "up_faults (fst (sv_state (snd (sv_state s)))) = []"
  shows "\<exists>s'. GatewayHandler jwt redirect g r s = (Ok (), s') \<and>
    (if cl_Role c = ''admin''
     then w_code (sv_w s') = Some 200 \<and>
       w_Body (sv_w s') = (case marshal (let out = sort_key us_CreatedAt (iter (up_rows (fst (sv_state (snd (sv_state s)))))) in
          if out = [] then ANil else ASlice (map user_any out)) of None \<Rightarrow> [] | Some t \<Rightarrow> t @ [CHR 0x0A])
     else w_code (sv_w s') = Some 403 \<and>
       w_Body (sv_w s') = (case marshal (AMap [(''error'', AString ''insufficient role'')]) of None \<Rightarrow> [] | Some t \<Rightarrow> t @ [CHR 0x0A]))"
proof -
  let ?net = "network (userHandler mail_ok uuid code (NewUserService (pgUserStore iter) bus))"
  have g: "gw_cfg g = cfg" "gw_userProxy g = newProxy ?net target" using assms(2,3) by (auto simp: NewGateway_def)
  let ?r = "r\<lparr>rq_pathValues := []\<rparr>"
  obtain l' where al: "Allow l (sv_clock s 0) (clientIP r) (fst (sv_state s)) = (Ok True, l')"
    using assms(8) by (cases "Allow l (sv_clock s 0) (clientIP r) (fst (sv_state s))") auto
  let ?s1 = "s\<lparr>sv_clock := \<lambda>n. sv_clock s (Suc n), sv_state := (l', snd (sv_state s))\<rparr>"
  have ul: "underLimit g ?r s = (Ok True, ?s1)"
    using al assms(7) g(1) by (cases "sv_state s") (simp add: underLimit_def on_state_def on_fst_def clientIP_def)
  let ?s2 = "?s1\<lparr>sv_clock := \<lambda>n. sv_clock ?s1 (Suc n)\<rparr>"
  have v: "Verify jwt (gc_Auth (gw_cfg g)) tok ?s1 = (Ok c, ?s2)"
    using Verify_complete [OF assms(1,9,10), of ?s1] assms(11) g(1) by simp
  have tok: "header_Get (rq_Header ?r) ''Authorization'' = ''Bearer '' @ tok" using assms(14) by (simp add: header_Get_def)
  let ?h = "header_Set HeaderRole (cl_Role c) (header_Set HeaderSubject (cl_Subject c) (rq_Header r))"
  let ?r' = "?r\<lparr>rq_Header := ?h\<rparr>"
  have run: "GatewayHandler jwt redirect g r s = newProxy ?net target ?r' ?s2"
    using authed_forward [OF ul tok v] by (simp add: users_handler [OF assms(12,13)] g(2))
  have hd: "rq_Header ?r' ''X-Auth-Role'' = Some [cl_Role c]" "rq_Header ?r' ''Connection'' = None"
    using assms(15) by (simp_all add: header_Set_def HeaderRole_def HeaderSubject_def identityHeaders)
  have s2: "fresh ?s2" "sv_state ?s2 = (l', snd (sv_state s))" using assms(16) by (simp_all add: fresh_def)
  have r': "rq_Method ?r' = ''GET''" "rq_URL ?r' = \<lparr>u_Scheme = [], u_Host = [], u_Path = ''/api/v1/users'', u_RawPath = [], u_RawQuery = []\<rparr>"
    using assms(12,13) by simp_all
  show ?thesis unfolding run by (rule proxied_list [OF assms(4-6) r' hd s2 assms(17)])
qed

definition demoPlatform :: "(RateLimiter, (UserPgDB \<times> capture) srv) Gateway" where
  "demoPlatform = (let net = network (userHandler (\<lambda>_. True) (\<lambda>b. ''u1'') 301 (NewUserService (pgUserStore (\<lambda>xs. xs)) captureBus)) in
     \<lparr>gw_cfg = demoConfig, gw_userProxy = newProxy net (demoURL ''user''), gw_walletProxy = newProxy net (demoURL ''wallet''),
      gw_marginProxy = newProxy net (demoURL ''margin'')\<rparr>)"

theorem platform_list_users_witness:
  "\<exists>s'. GatewayHandler demoJwt 301 demoPlatform (demoRequest ''GET'' ''/api/v1/users'')
      (demoSrv (NewRateLimiter 20 40, userSrv (emptyUsers [], []))) = (Ok (), s') \<and> w_code (sv_w s') = Some 200"
proof -
  let ?s = "demoSrv (NewRateLimiter 20 40, userSrv (emptyUsers [], [] :: capture))" and ?r = "demoRequest ''GET'' ''/api/v1/users''"
  have lw: "jwt_lawful demoJwt" unfolding demoJwt_def by (rule oneTokenJwt_lawful)
  have new: "NewGateway (\<lambda>h. Ok (demoURL h)) (network (userHandler (\<lambda>_. True) (\<lambda>b. ''u1'') 301
      (NewUserService (pgUserStore (\<lambda>xs. xs)) captureBus))) demoConfig = Ok demoPlatform"
    by (simp add: NewGateway_def demoPlatform_def demoConfig_def Let_def)
  have tgt: "u_Path (demoURL h) = []" "u_RawPath (demoURL h) = []" "u_RawQuery (demoURL h) = []" for h by (simp_all add: demoURL_def)
  have lim: "gc_RateLimit demoConfig = Some (memLimiter False)"
    "fst (Allow (memLimiter False) (sv_clock ?s 0) (clientIP ?r) (fst (sv_state ?s))) = Ok True"
    by (simp_all add: demoConfig_def memLimiter_def demoSrv_def NewRateLimiter_def rl_Allow_def)
  have tok: "jwt_carries demoJwt ''HS256'' (au_secret (gc_Auth demoConfig)) ''tok'' adminClaims"
    "cl_Issuer adminClaims = au_issuer (gc_Auth demoConfig)" "timely adminClaims (wall (sv_clock ?s 1))"
    by (simp_all add: demoJwt_def oneTokenJwt_def demoConfig_def demoAuth_def NewAuthenticator_def adminClaims_def timely_def demoSrv_def Second_def)
  have req: "rq_Method ?r = ''GET''" "rq_URL ?r = \<lparr>u_Scheme = [], u_Host = [], u_Path = ''/api/v1/users'', u_RawPath = [], u_RawQuery = []\<rparr>"
    "rq_Header ?r ''Authorization'' = Some [''Bearer '' @ ''tok'']" "rq_Header ?r ''Connection'' = None"
    by (simp_all add: demoRequest_def)
  have up: "up_faults (fst (sv_state (snd (sv_state ?s)))) = []" by (simp add: demoSrv_def userSrv_def emptyUsers_def)
  have adm: "cl_Role adminClaims = ''admin''" by (simp add: adminClaims_def)
  from platform_list_users [OF lw new refl tgt lim tok req demo_fresh up, of 301] show ?thesis
    unfolding adm by auto
qed

end
