(* ===== verification/Rate_Limit_Redis.thy ===== *)
theory Rate_Limit_Redis
  imports Rate_Limit
begin

text \<open>
  \<^verbatim>\<open>internal/gateway/ratelimit_redis.go\<close>: the fixed-window limiter several gateway replicas share through
  Redis. The Redis client is not part of the repository: its calls are the fields of a record \<open>Redis\<close>, and
  \<open>redis_counts\<close> states what \<^verbatim>\<open>INCR\<close> and \<^verbatim>\<open>EXPIRE\<close> do to the stored counters.
\<close>

section \<open>Definitions\<close>

record 'r Redis =
  rd_Incr :: "string \<Rightarrow> ('r, int) eff"
  rd_Expire :: "string \<Rightarrow> int \<Rightarrow> ('r, unit) eff"
  rd_Ping :: "('r, unit) eff"

record 'r RedisRateLimiter =
  rr_client :: "'r Redis"
  rr_limit :: int
  rr_window :: int

definition NewRedisRateLimiter :: "(string \<Rightarrow> 'r Redis) \<Rightarrow> string \<Rightarrow> int \<Rightarrow> int \<Rightarrow> 'r RedisRateLimiter" where
  "NewRedisRateLimiter newClient addr limit window = \<lparr>rr_client = newClient addr, rr_limit = limit, rr_window = window\<rparr>"

definition windowSeconds :: "'r RedisRateLimiter \<Rightarrow> int" where
  "windowSeconds rl = truncate_float (Seconds (rr_window rl))"

text \<open>\<^verbatim>\<open>fmt.Sprintf("rl:%s:%d", key, windowIdx)\<close>\<close>

definition rkey :: "string \<Rightarrow> int \<Rightarrow> string" where
  "rkey key windowIdx = ''rl:'' @ key @ '':'' @ itoa windowIdx"

definition redis_Allow :: "'r RedisRateLimiter \<Rightarrow> instant \<Rightarrow> string \<Rightarrow> ('r, bool) eff" where
  "redis_Allow rl now key =
     (if windowSeconds rl = 0 then lift (Panic ''runtime error: integer divide by zero'')
      else let k = rkey key (Unix now sdiv windowSeconds rl) in
        (\<lambda>r. case rd_Incr (rr_client rl) k r of
           (Err e, r') \<Rightarrow> (Ok True, r')
         | (Panic p, r') \<Rightarrow> (Panic p, r')
         | (Ok count, r') \<Rightarrow>
             bnd (if count = 1 then ignore_err (rd_Expire (rr_client rl) k (rr_window rl)) else ret ()) (\<lambda>_.
               ret (count \<le> rr_limit rl)) r'))"

definition redis_Ping :: "'r RedisRateLimiter \<Rightarrow> ('r, unit) eff" where
  "redis_Ping rl = rd_Ping (rr_client rl)"

definition redisLimiter :: "'r RedisRateLimiter \<Rightarrow> 'r Limiter" where
  "redisLimiter rl = \<lparr>Allow = redis_Allow rl\<rparr>"


section \<open>Redis\<close>

text \<open>\<open>val r k\<close> is the counter under \<open>k\<close> (zero when there is none). \<^verbatim>\<open>INCR\<close> answers the incremented value;
  when its reply is lost the increment may or may not have happened; \<^verbatim>\<open>EXPIRE\<close> leaves counters alone until
  the time has passed.\<close>

definition redis_counts :: "'r Redis \<Rightarrow> ('r \<Rightarrow> string \<Rightarrow> int) \<Rightarrow> bool" where
  "redis_counts rd val \<longleftrightarrow>
     (\<forall>k r n r'. rd_Incr rd k r = (Ok n, r') \<longrightarrow> n = val r k + 1 \<and> val r' = (val r)(k := n)) \<and>
     (\<forall>k r e r'. rd_Incr rd k r = (Err e, r') \<longrightarrow> val r' = val r \<or> val r' = (val r)(k := val r k + 1)) \<and>
     (\<forall>k r p r'. rd_Incr rd k r \<noteq> (Panic p, r')) \<and>
     (\<forall>k d r. val (snd (rd_Expire rd k d r)) = val r \<and> (\<forall>p. fst (rd_Expire rd k d r) \<noteq> Panic p))"

text \<open>Calls from any number of replicas on one server: before each call the server may have changed on
  its own or for other clients (the first component).\<close>

fun fleet :: "'r RedisRateLimiter \<Rightarrow> (('r \<Rightarrow> 'r) \<times> instant \<times> string) list \<Rightarrow> 'r \<Rightarrow> bool result list \<times> 'r" where
  "fleet rl [] r = ([], r)"
| "fleet rl ((other, now, key) # cs) r =
     (case redis_Allow rl now key (other r) of
        (b, r') \<Rightarrow> (case fleet rl cs r' of (bs, r'') \<Rightarrow> (b # bs, r'')))"

text \<open>The decisions for one key in one window.\<close>

definition windowDecisions ::
  "'r RedisRateLimiter \<Rightarrow> string \<Rightarrow> int \<Rightarrow> (('r \<Rightarrow> 'r) \<times> instant \<times> string) list \<Rightarrow> bool result list \<Rightarrow> bool result list" where
  "windowDecisions rl key idx cs bs =
     map snd (filter (\<lambda>((_, now, k), _). k = key \<and> Unix now sdiv windowSeconds rl = idx) (zip cs bs))"

section \<open>Laws\<close>

lemma utoa_no_colon: "CHR '':'' \<notin> set (utoa n)"
proof -
  have "list_all is_digit (utoa n)" using utoa_digits by blast
  then show ?thesis by (auto simp: list_all_iff is_digit_def)
qed

lemma itoa_no_colon: "CHR '':'' \<notin> set (itoa i)"
  using utoa_no_colon by (simp add: itoa_def)

lemma itoa_inject: "itoa i = itoa j \<longleftrightarrow> i = j"
proof -
  have "utoa m \<noteq> ''-'' @ utoa n" for m n
  proof
    assume "utoa m = ''-'' @ utoa n"
    moreover have "list_all is_digit (utoa m)" using utoa_digits by blast
    ultimately show False by (simp add: is_digit_def)
  qed
  then have "itoa i = itoa j \<Longrightarrow> i = j"
    by (auto simp: itoa_def split: if_splits) (metis append_Cons append_Nil)+
  then show ?thesis by auto
qed

lemma split_last_sep:
  "x @ c # a = y @ c # b \<Longrightarrow> c \<notin> set a \<Longrightarrow> c \<notin> set b \<Longrightarrow> x = y \<and> a = b"
  by (auto simp: append_eq_append_conv2 Cons_eq_append_conv append_eq_Cons_conv)

text \<open>Different clients and different windows have different Redis keys.\<close>

lemma rkey_inject: "rkey k i = rkey k' i' \<longleftrightarrow> k = k' \<and> i = i'"
proof
  assume "rkey k i = rkey k' i'"
  then have "k @ CHR '':'' # itoa i = k' @ CHR '':'' # itoa i'" by (simp add: rkey_def)
  from split_last_sep [OF this itoa_no_colon itoa_no_colon] show "k = k' \<and> i = i'" by (simp add: itoa_inject)
qed simp

lemma redis_Allow_step:
  assumes "redis_counts (rr_client rl) val" and "windowSeconds rl \<noteq> 0"
    and "redis_Allow rl now key r = (b, r')" and "K = rkey key (Unix now sdiv windowSeconds rl)"
  shows "\<exists>a. b = Ok a" and "k \<noteq> K \<Longrightarrow> val r' k = val r k" and "val r K \<le> val r' K"
    and "rd_Incr (rr_client rl) K r = (Ok n, r1) \<Longrightarrow> val r' K = val r K + 1 \<and> (b = Ok True \<longleftrightarrow> val r' K \<le> rr_limit rl)"
proof -
  note rc = assms(1) [unfolded redis_counts_def]
  obtain i r1 where inc: "rd_Incr (rr_client rl) K r = (i, r1)" by (cases "rd_Incr (rr_client rl) K r")
  obtain x r2 where ex: "rd_Expire (rr_client rl) K (rr_window rl) r1 = (x, r2)"
    by (cases "rd_Expire (rr_client rl) K (rr_window rl) r1")
  have ex': "val r2 = val r1" "\<And>p. x \<noteq> Panic p" using rc ex by (metis fst_conv snd_conv)+
  have out: "redis_Allow rl now key r = (case i of Err e \<Rightarrow> (Ok True, r1) | Panic p \<Rightarrow> (Panic p, r1)
      | Ok c \<Rightarrow> (Ok (c \<le> rr_limit rl), if c = 1 then r2 else r1))"
    using assms(2,4) inc ex ex'(2)
    by (cases i; cases x) (auto simp: redis_Allow_def Let_def ignore_err_def ret_def bnd_def)
  have "(\<exists>a. b = Ok a) \<and> (k \<noteq> K \<longrightarrow> val r' k = val r k) \<and> val r K \<le> val r' K \<and>
    (i = Ok n \<longrightarrow> val r' K = val r K + 1 \<and> (b = Ok True \<longleftrightarrow> val r' K \<le> rr_limit rl))"
  proof (cases i)
    case (Ok c)
    then have "c = val r K + 1" "val r1 = (val r)(K := c)" using rc inc by metis+
    then show ?thesis using out assms(3) Ok ex'(1) by auto
  next
    case (Err e)
    then have "val r1 = val r \<or> val r1 = (val r)(K := val r K + 1)" using rc inc by metis
    then show ?thesis using out assms(3) Err by auto
  next
    case (Panic p)
    then show ?thesis using rc inc by metis
  qed
  then show "\<exists>a. b = Ok a" "k \<noteq> K \<Longrightarrow> val r' k = val r k" "val r K \<le> val r' K"
    "rd_Incr (rr_client rl) K r = (Ok n, r1) \<Longrightarrow> val r' K = val r K + 1 \<and> (b = Ok True \<longleftrightarrow> val r' K \<le> rr_limit rl)" for r1
    using inc by auto
qed


text \<open>A server that answers every call.\<close>

definition reachable :: "'r Redis \<Rightarrow> bool" where
  "reachable rd \<longleftrightarrow> (\<forall>k r. is_Ok (fst (rd_Incr rd k r)))"

definition granted :: "bool result list \<Rightarrow> nat" where
  "granted bs = length (filter (\<lambda>b. b = Ok True) bs)"

lemma fleet_granted:
  assumes rc: "redis_counts (rr_client rl) val" and ws: "windowSeconds rl \<noteq> 0" and re: "reachable (rr_client rl)"
    and env: "\<forall>c \<in> set cs. \<forall>r. val r (rkey key idx) \<le> val (fst c r) (rkey key idx)"
  shows "int (granted (windowDecisions rl key idx cs (fst (fleet rl cs r)))) \<le> max 0 (rr_limit rl - val r (rkey key idx))"
  using env
proof (induction cs arbitrary: r)
  case Nil
  then show ?case by (simp add: granted_def windowDecisions_def)
next
  case (Cons c cs)
  let ?K = "rkey key idx"
  obtain other now k where c: "c = (other, now, k)" by (cases c)
  obtain b r' where al: "redis_Allow rl now k (other r) = (b, r')" by (cases "redis_Allow rl now k (other r)")
  let ?K' = "rkey k (Unix now sdiv windowSeconds rl)"
  obtain n r1 where inc: "rd_Incr (rr_client rl) ?K' (other r) = (Ok n, r1)"
    using re by (metis is_Ok_iff prod.collapse reachable_def)
  note st = redis_Allow_step [OF rc ws al refl]
  have le: "val r ?K \<le> val (other r) ?K" using Cons.prems c by simp
  have IH: "int (granted (windowDecisions rl key idx cs (fst (fleet rl cs r')))) \<le> max 0 (rr_limit rl - val r' ?K)"
    using Cons.IH [of r'] Cons.prems by simp
  have dec: "windowDecisions rl key idx (c # cs) (fst (fleet rl (c # cs) r)) =
      (if k = key \<and> Unix now sdiv windowSeconds rl = idx then [b] else []) @ windowDecisions rl key idx cs (fst (fleet rl cs r'))"
    using c al by (auto simp: windowDecisions_def split: prod.splits)
  show ?case
  proof (cases "?K' = ?K")
    case True
    then have "k = key \<and> Unix now sdiv windowSeconds rl = idx" by (simp add: rkey_inject)
    moreover have "val r' ?K = val (other r) ?K + 1" "b = Ok True \<longleftrightarrow> val r' ?K \<le> rr_limit rl"
      using st(4) [OF inc] True by simp_all
    ultimately show ?thesis using dec IH le by (auto simp: granted_def)
  next
    case False
    then have "\<not> (k = key \<and> Unix now sdiv windowSeconds rl = idx)" by auto
    moreover have "val r' ?K = val (other r) ?K" using st(2) [of ?K] False by simp
    ultimately show ?thesis using dec IH le by (auto simp: granted_def)
  qed
qed


section \<open>Properties\<close>


text \<open>A Redis that counts, for the witness.\<close>

definition countingRedis :: "(string \<Rightarrow> int) Redis" where
  "countingRedis = \<lparr>rd_Incr = (\<lambda>k r. (Ok (r k + 1), r(k := r k + 1))), rd_Expire = (\<lambda>k d. ret ()), rd_Ping = ret ()\<rparr>"

lemma countingRedis_counts: "redis_counts countingRedis (\<lambda>r. r)" "reachable countingRedis"
  by (auto simp: redis_counts_def reachable_def countingRedis_def ret_def)


end
