(* ===== verification/Nats_Bus.thy ===== *)
theory Nats_Bus
  imports Go_Json_Laws Go_Http
begin

text \<open>
  \<^verbatim>\<open>pkg/events/events.go\<close>: the event envelope and the NATS-backed bus. The NATS client is not part of the
  repository: its calls are the fields of a record \<open>Nats\<close> on a network of any type, and \<open>nats_lawful\<close> states
  what a connection does to the subscriptions and to the messages under way. The connection of a \<open>NATSBus\<close>
  is never nil, as \<^verbatim>\<open>Connect\<close> only returns a bus with a connection.
\<close>

section \<open>The envelope\<close>

text \<open>\<open>None\<close> is a nil \<^verbatim>\<open>json.RawMessage\<close>; times are nanoseconds since the epoch.\<close>

record Event =
  ev_Subject :: string
  ev_Time :: int
  ev_Data :: "string option"

text \<open>The zero value: the time is the first instant of the year 1.\<close>

definition zeroTime :: int where
  "zeroTime = - 62135596800 * 1000000000"

definition zeroEvent :: Event where
  "zeroEvent = \<lparr>ev_Subject = [], ev_Time = zeroTime, ev_Data = None\<rparr>"

text \<open>\<^verbatim>\<open>json.Marshal\<close> of an envelope: the raw message is compacted in place.\<close>

definition marshalEvent :: "Event \<Rightarrow> string option" where
  "marshalEvent e =
     (case (timeText (ev_Time e), case ev_Data e of None \<Rightarrow> Some ''null'' | Some d \<Rightarrow> compactJSON d) of
        (Some t, Some d) \<Rightarrow>
          Some (objectText [(''subject'', quote (ev_Subject e)), (''time'', CHR 0x22 # t @ [CHR 0x22]), (''data'', d)])
      | _ \<Rightarrow> None)"

text \<open>The members of an object after its opening brace: name, value and the text of the value. The first
  argument bounds the number of members; the length of the text is enough.\<close>

fun rawMembers :: "nat \<Rightarrow> string \<Rightarrow> (string \<times> json \<times> string) list option" where
  "rawMembers 0 s = None"
| "rawMembers (Suc k) s =
     (case skipSpace s of
        [] \<Rightarrow> None
      | q # cs \<Rightarrow>
          if q \<noteq> CHR 0x22 then None
          else case parseString (length cs) cs of
              None \<Rightarrow> None
            | Some (key, rest) \<Rightarrow>
                (case skipSpace rest of
                   [] \<Rightarrow> None
                 | co # rest' \<Rightarrow>
                     if co \<noteq> CHR '':'' then None
                     else let v = skipSpace rest' in
                       case parseValue (2 * length v + 2) 1 v of
                         None \<Rightarrow> None
                       | Some (j, after) \<Rightarrow>
                           let raw = take (length v - length after) v in
                           (case skipSpace after of
                              [] \<Rightarrow> None
                            | c # cs' \<Rightarrow>
                                if c = CHR '','' then map_option (Cons (key, j, raw)) (rawMembers k cs')
                                else if c = CHR ''}'' then Some [(key, j, raw)]
                                else None)))"

text \<open>\<^verbatim>\<open>Time.UnmarshalJSON\<close> of a value other than \<^verbatim>\<open>null\<close>.\<close>

definition unmarshalTime :: "string \<Rightarrow> int option" where
  "unmarshalTime raw =
     (if length raw < 2 \<or> hd raw \<noteq> CHR 0x22 \<or> last raw \<noteq> CHR 0x22 then None
      else parseRFC3339 (butlast (tl raw)))"

fun storeEvent :: "(string \<times> json \<times> string) list \<Rightarrow> Event \<Rightarrow> Event option" where
  "storeEvent [] e = Some e"
| "storeEvent ((k, j, raw) # ms) e =
     (case findField [''subject'', ''time'', ''data''] k of
        None \<Rightarrow> storeEvent ms e
      | Some f \<Rightarrow>
          if f = ''subject'' then
            (case j of
               JNull \<Rightarrow> storeEvent ms e
             | JStr t \<Rightarrow> storeEvent ms (e\<lparr>ev_Subject := t\<rparr>)
             | _ \<Rightarrow> None)
          else if f = ''time'' then
            (if raw = ''null'' then storeEvent ms e
             else case unmarshalTime raw of
                 None \<Rightarrow> None
               | Some t \<Rightarrow> storeEvent ms (e\<lparr>ev_Time := t\<rparr>))
          else storeEvent ms (e\<lparr>ev_Data := Some raw\<rparr>))"

text \<open>\<^verbatim>\<open>json.Unmarshal(msg.Data, &evt)\<close>; \<open>None\<close> when it reports an error.\<close>

definition unmarshalEvent :: "string \<Rightarrow> Event option" where
  "unmarshalEvent msg =
     (case parsePrefix msg of
        None \<Rightarrow> None
      | Some (j, rest) \<Rightarrow>
          if skipSpace rest \<noteq> [] then None
          else case j of
              JNull \<Rightarrow> Some zeroEvent
            | JObj [] \<Rightarrow> Some zeroEvent
            | JObj (m # ms) \<Rightarrow>
                (case rawMembers (length msg) (tl (skipSpace msg)) of
                   None \<Rightarrow> None
                 | Some rs \<Rightarrow> storeEvent rs zeroEvent)
            | _ \<Rightarrow> None)"


section \<open>The bus\<close>

text \<open>\<^verbatim>\<open>fmt.Errorf("...%q...", s)\<close>: control bytes are escaped, runes above ASCII count as printable.\<close>

definition quotedByte :: "char \<Rightarrow> string" where
  "quotedByte c =
     (let b = byte c in
      if b = 0x22 then [CHR 0x5C, CHR 0x22]
      else if b = 0x5C then [CHR 0x5C, CHR 0x5C]
      else if b = 7 then [CHR 0x5C, CHR ''a'']
      else if b = 8 then [CHR 0x5C, CHR ''b'']
      else if b = 12 then [CHR 0x5C, CHR ''f'']
      else if b = 10 then [CHR 0x5C, CHR ''n'']
      else if b = 13 then [CHR 0x5C, CHR ''r'']
      else if b = 9 then [CHR 0x5C, CHR ''t'']
      else if b = 11 then [CHR 0x5C, CHR ''v'']
      else if b < 0x20 \<or> b = 0x7F then [CHR 0x5C, CHR ''x'', hexDigit (b div 16), hexDigit (b mod 16)]
      else [c])"

definition quoted :: "string \<Rightarrow> string" where
  "quoted s = CHR 0x22 # concat (map quotedByte s) @ [CHR 0x22]"

text \<open>The subscribing half of the \<^verbatim>\<open>Bus\<close> interface; handlers act on the state \<open>'c\<close> of the subscriber. What
  \<^verbatim>\<open>Subscribe\<close> returns is the call that ends the subscription.\<close>

record ('b, 'c) SubBus = "'b Bus" +
  Subscribe :: "string \<Rightarrow> (Event \<Rightarrow> ('c, unit) eff) \<Rightarrow> ('b, ('b, unit) eff) eff"
  Close :: "('b, unit) eff"

record ('n, 'sub, 'c) Nats =
  nc_Publish :: "string \<Rightarrow> string \<Rightarrow> ('n, unit) eff"
  nc_Subscribe :: "string \<Rightarrow> (string \<Rightarrow> ('c, unit) eff) \<Rightarrow> ('n, 'sub) eff"
  nc_Unsubscribe :: "'sub \<Rightarrow> ('n, unit) eff"
  nc_Drain :: "('n, unit) eff"

text \<open>The state of a bus: the network its connection talks to and the coming clock readings.\<close>

record 'n NATSBus =
  nb_nc :: 'n
  nb_clock :: "nat \<Rightarrow> instant"

definition on_nc :: "('n, 'a) eff \<Rightarrow> ('n NATSBus, 'a) eff" where
  "on_nc m b = (case m (nb_nc b) of (r, n) \<Rightarrow> (r, b\<lparr>nb_nc := n\<rparr>))"

definition marshalErr :: error where
  "marshalErr = Opaque ''json: error calling MarshalJSON''"

text \<open>\<^verbatim>\<open>nats.Connect(url, nats.MaxReconnects(-1), nats.ReconnectWait(2*time.Second))\<close>\<close>

definition Connect :: "(string \<Rightarrow> int \<Rightarrow> int \<Rightarrow> 'nc result) \<Rightarrow> string \<Rightarrow> 'nc result" where
  "Connect nats_Connect url =
     wrap_err (''connect nats '' @ quoted url) (nats_Connect url (- 1) (2 * Second))"

definition nats_Publish :: "('n, 'sub, 'c) Nats \<Rightarrow> string \<Rightarrow> any \<Rightarrow> ('n NATSBus, unit) eff" where
  "nats_Publish nc subject data b =
     (case marshal data of
        None \<Rightarrow> (Err (Wrap ''marshal event data'' marshalErr), b)
      | Some payload \<Rightarrow>
          let now = nb_clock b 0;
              b' = b\<lparr>nb_clock := \<lambda>n. nb_clock b (Suc n)\<rparr>
          in case marshalEvent \<lparr>ev_Subject = subject, ev_Time = wall now, ev_Data = Some payload\<rparr> of
              None \<Rightarrow> (Err (Wrap ''marshal event'' marshalErr), b')
            | Some raw \<Rightarrow> wrap_eff (''publish '' @ quoted subject) (on_nc (nc_Publish nc subject raw)) b')"

text \<open>The callback \<^verbatim>\<open>Subscribe\<close> hands to the client: malformed messages are dropped.\<close>

definition onMsg :: "(Event \<Rightarrow> ('c, unit) eff) \<Rightarrow> string \<Rightarrow> ('c, unit) eff" where
  "onMsg handler raw = (case unmarshalEvent raw of None \<Rightarrow> ret () | Some evt \<Rightarrow> handler evt)"

definition nats_Subscribe ::
  "('n, 'sub, 'c) Nats \<Rightarrow> string \<Rightarrow> (Event \<Rightarrow> ('c, unit) eff) \<Rightarrow> ('n NATSBus, ('n NATSBus, unit) eff) eff" where
  "nats_Subscribe nc subject handler =
     bnd (wrap_eff (''subscribe '' @ quoted subject) (on_nc (nc_Subscribe nc subject (onMsg handler)))) (\<lambda>sub.
     ret (on_nc (nc_Unsubscribe nc sub)))"

definition nats_Close :: "('n, 'sub, 'c) Nats \<Rightarrow> ('n NATSBus, unit) eff" where
  "nats_Close nc = ignore_err (on_nc (nc_Drain nc))"

definition natsBus :: "('n, 'sub, 'c) Nats \<Rightarrow> ('n NATSBus, 'c) SubBus" where
  "natsBus nc = \<lparr>Publish = nats_Publish nc, Subscribe = nats_Subscribe nc, Close = nats_Close nc\<rparr>"


section \<open>The network\<close>

text \<open>
  \<open>subs n\<close>: the live subscriptions with subject and callback; \<open>sent n\<close>: the messages the network has accepted.
  A subscription is new when it is made; a failed call leaves subscriptions and messages alone.
\<close>

definition nats_lawful ::
  "('n, 'sub, 'c) Nats \<Rightarrow> ('n \<Rightarrow> ('sub \<times> string \<times> (string \<Rightarrow> ('c, unit) eff)) list) \<Rightarrow> ('n \<Rightarrow> (string \<times> string) list) \<Rightarrow> bool" where
  "nats_lawful nc subs sent \<longleftrightarrow>
     (\<forall>s m n n'. nc_Publish nc s m n = (Ok (), n') \<longrightarrow> subs n' = subs n \<and> sent n' = sent n @ [(s, m)]) \<and>
     (\<forall>s m n e n'. nc_Publish nc s m n = (Err e, n') \<longrightarrow> subs n' = subs n \<and> sent n' = sent n) \<and>
     (\<forall>s m n p n'. nc_Publish nc s m n \<noteq> (Panic p, n')) \<and>
     (\<forall>s f n x n'. nc_Subscribe nc s f n = (Ok x, n') \<longrightarrow>
        subs n' = subs n @ [(x, s, f)] \<and> x \<notin> fst ` set (subs n) \<and> sent n' = sent n) \<and>
     (\<forall>s f n e n'. nc_Subscribe nc s f n = (Err e, n') \<longrightarrow> subs n' = subs n \<and> sent n' = sent n) \<and>
     (\<forall>s f n p n'. nc_Subscribe nc s f n \<noteq> (Panic p, n')) \<and>
     (\<forall>x n n'. nc_Unsubscribe nc x n = (Ok (), n') \<longrightarrow>
        subs n' = filter (\<lambda>y. fst y \<noteq> x) (subs n) \<and> sent n' = sent n)"

text \<open>A message runs the callbacks of the subscriptions on its subject, in their order.\<close>

definition deliver ::
  "('sub \<times> string \<times> (string \<Rightarrow> ('c, unit) eff)) list \<Rightarrow> string \<times> string \<Rightarrow> 'c \<Rightarrow> 'c" where
  "deliver subs msg c = fold (\<lambda>(_, s, f) c. if s = fst msg then snd (f (snd msg) c) else c) subs c"


section \<open>Laws\<close>

lemma rawMembers_text:
  assumes "list_all2 (\<lambda>(k, t) (n, j, u). n = validText k \<and> u = t \<and> parses 1 t j) kts ms" and "kts \<noteq> []"
    and "length (sep_by '','' (map (\<lambda>(k, t). quote k @ '':'' @ t) kts)) < k"
  shows "rawMembers k (sep_by '','' (map (\<lambda>(k, t). quote k @ '':'' @ t) kts) @ CHR ''}'' # rest) = Some ms"
  using assms
proof (induction kts ms arbitrary: k rule: list_all2_induct)
  case (Cons kt kts nj ms)
  obtain key t where kt: "kt = (key, t)" by (cases kt)
  obtain j where nj: "nj = (validText key, j, t)" and p: "parses 1 t j" using Cons.hyps(1) by (cases nj) (auto simp: kt)
  obtain k' where k: "k = Suc k'" using Cons.prems by (cases k) auto
  define after where "after = (if kts = [] then CHR ''}'' # rest
    else CHR '','' # sep_by '','' (map (\<lambda>(k, t). quote k @ '':'' @ t) kts) @ CHR ''}'' # rest)"
  have e: "ends after" by (simp add: after_def)
  have body: "sep_by '','' (map (\<lambda>(k, t). quote k @ '':'' @ t) (kt # kts)) @ CHR ''}'' # rest =
      CHR 0x22 # quoteBody (length key) key @ CHR 0x22 # CHR '':'' # t @ after"
    by (cases kts) (simp_all add: kt quote_def after_def)
  have str: "parseString (length (quoteBody (length key) key @ CHR 0x22 # CHR '':'' # t @ after))
      (quoteBody (length key) key @ CHR 0x22 # CHR '':'' # t @ after) = Some (validText key, CHR '':'' # t @ after)"
    by (rule parse_quote) simp
  have val: "parseValue (2 * length (t @ after) + 2) 1 (t @ after) = Some (j, after)" by (rule parsesD [OF p _ e]) simp
  have skip: "skipSpace (t @ after) = t @ after" by (rule parses_skip [OF p])
  show ?case
  proof (cases "kts = []")
    case True
    then show ?thesis
      using Cons.hyps(2) val str skip unfolding body
      by (simp add: k nj skipSpace_Cons after_def Let_def del: parseValue.simps)
  next
    case False
    have "rawMembers k' (sep_by '','' (map (\<lambda>(k, t). quote k @ '':'' @ t) kts) @ CHR ''}'' # rest) = Some ms"
      using Cons.IH [of k'] Cons.prems(2) False by (cases kts) (simp_all add: k)
    then show ?thesis
      using False val str skip unfolding body
      by (simp add: k nj skipSpace_Cons after_def Let_def del: parseValue.simps)
  qed
qed simp

lemma unmarshalTime_text: "timeText t = Some s \<Longrightarrow> unmarshalTime (CHR 0x22 # s @ [CHR 0x22]) = Some t"
  by (simp add: unmarshalTime_def parse_timeText butlast_append)

lemma names_ascii: "validText ''subject'' = ''subject''" "validText ''time'' = ''time''" "validText ''data'' = ''data''"
  by (simp_all add: validText_ascii byte_def)

lemma marshalEvent_text:
  assumes "marshal v = Some payload" and "nesting v \<le> maxNestingDepth" and "timeText t = Some tt"
  shows "marshalEvent \<lparr>ev_Subject = s, ev_Time = t, ev_Data = Some payload\<rparr> =
    Some (objectText [(''subject'', quote s), (''time'', CHR 0x22 # tt @ [CHR 0x22]), (''data'', payload)])"
  using compact_marshal [OF assms(1,2)] assms(3) by (simp add: marshalEvent_def)

text \<open>Decoding an encoded envelope gives the envelope back.\<close>

lemma unmarshal_marshalEvent:
  assumes "marshal v = Some payload" and "nesting v < maxNestingDepth"
    and "marshalEvent \<lparr>ev_Subject = s, ev_Time = t, ev_Data = Some payload\<rparr> = Some raw"
  shows "unmarshalEvent raw = Some \<lparr>ev_Subject = validText s, ev_Time = t, ev_Data = Some payload\<rparr>"
proof -
  obtain tt where tt: "timeText t = Some tt" using assms(3) by (auto simp: marshalEvent_def split: option.splits)
  let ?q = "CHR 0x22 # tt @ [CHR 0x22]"
  let ?kts = "[(''subject'', quote s), (''time'', ?q), (''data'', payload)]"
  have raw: "raw = objectText ?kts" using assms(3) marshalEvent_text [OF assms(1) _ tt, of s] assms(2) by simp
  have ps: "parses 1 (quote s) (JStr (validText s))" "parses 1 ?q (JStr tt)" "parses 1 payload (shape v)"
    using parses_string [OF parse_quote, of s 1] parses_string [OF parse_plain [OF timeText_plain [OF tt]], of 1]
      parse_marshal [OF assms(1), of 1] assms(2)
    by (simp_all add: quote_def)
  have "parses 0 raw (JObj [(''subject'', JStr (validText s)), (''time'', JStr tt), (''data'', shape v)])"
    unfolding raw by (rule parses_object) (use ps in \<open>simp_all add: names_ascii maxNestingDepth_def\<close>)
  then have pre: "parsePrefix raw = Some (JObj [(''subject'', JStr (validText s)), (''time'', JStr tt), (''data'', shape v)], [])"
    using parsesD [of 0 raw _ "2 * length raw + 2" "[]"] by (simp add: parsePrefix_def del: parseValue.simps)
  let ?body = "sep_by '','' (map (\<lambda>(k, t). quote k @ '':'' @ t) ?kts)"
  have mem: "rawMembers (length raw) (?body @ CHR ''}'' # []) =
      Some [(''subject'', JStr (validText s), quote s), (''time'', JStr tt, ?q), (''data'', shape v, payload)]"
    by (rule rawMembers_text) (use ps in \<open>simp_all add: names_ascii raw member_text\<close>)
  have "raw = CHR ''{'' # ?body @ [CHR ''}'']" unfolding raw member_text by simp
  then have "tl (skipSpace raw) = ?body @ [CHR ''}'']" by (simp add: skipSpace_Cons)
  then have "unmarshalEvent raw =
      storeEvent [(''subject'', JStr (validText s), quote s), (''time'', JStr tt, ?q), (''data'', shape v, payload)] zeroEvent"
    using mem by (simp add: unmarshalEvent_def pre skipSpace_def del: rawMembers.simps)
  then show ?thesis using unmarshalTime_text [OF tt] by (simp add: findField_def zeroEvent_def)
qed


lemma nats_lawfulD:
  assumes "nats_lawful nc subs sent"
  shows "nc_Publish nc s m n = (Ok u, n') \<Longrightarrow> subs n' = subs n \<and> sent n' = sent n @ [(s, m)]"
    and "nc_Publish nc s m n = (Err e, n') \<Longrightarrow> subs n' = subs n \<and> sent n' = sent n"
    and "nc_Publish nc s m n \<noteq> (Panic p, n')"
    and "nc_Subscribe nc s f n = (Ok x, n') \<Longrightarrow>
        subs n' = subs n @ [(x, s, f)] \<and> x \<notin> fst ` set (subs n) \<and> sent n' = sent n"
    and "nc_Subscribe nc s f n = (Err e, n') \<Longrightarrow> subs n' = subs n \<and> sent n' = sent n"
    and "nc_Subscribe nc s f n \<noteq> (Panic p, n')"
    and "nc_Unsubscribe nc x n = (Ok u, n') \<Longrightarrow> subs n' = filter (\<lambda>y. fst y \<noteq> x) (subs n) \<and> sent n' = sent n"
  using assms by (auto simp: nats_lawful_def)

text \<open>What a publication does: nothing but the reading of a clock when it fails, and one message when it succeeds.\<close>

lemma nats_Publish_cases:
  assumes lawful: "nats_lawful nc subs sent" and run: "nats_Publish nc subject v b = (r, b')"
  obtains (failed) e where "r = Err e" "subs (nb_nc b') = subs (nb_nc b)" "sent (nb_nc b') = sent (nb_nc b)"
  | (published) payload raw where "r = Ok ()" "marshal v = Some payload"
      "marshalEvent \<lparr>ev_Subject = subject, ev_Time = wall (nb_clock b 0), ev_Data = Some payload\<rparr> = Some raw"
      "subs (nb_nc b') = subs (nb_nc b)" "sent (nb_nc b') = sent (nb_nc b) @ [(subject, raw)]"
proof (cases "marshal v")
  case None
  then show thesis using run failed by (auto simp: nats_Publish_def)
next
  case (Some payload)
  let ?e = "marshalEvent \<lparr>ev_Subject = subject, ev_Time = wall (nb_clock b 0), ev_Data = Some payload\<rparr>"
  let ?b = "b\<lparr>nb_clock := \<lambda>n. nb_clock b (Suc n)\<rparr>"
  show thesis
  proof (cases ?e)
    case None
    then show thesis using run Some failed by (auto simp: nats_Publish_def Let_def)
  next
    case e: (Some raw)
    obtain x n where x: "nc_Publish nc subject raw (nb_nc b) = (x, n)" by (cases "nc_Publish nc subject raw (nb_nc b)")
    then have r: "r = wrap_err (''publish '' @ quoted subject) x" and n: "nb_nc b' = n"
      using run Some e by (auto simp: nats_Publish_def Let_def wrap_eff_def on_nc_def)
    show thesis
    proof (cases x)
      case (Ok u)
      then show thesis using published [OF _ Some e] r n nats_lawfulD(1) [OF lawful x [unfolded Ok]] by simp
    next
      case (Err err)
      then show thesis using failed r n nats_lawfulD(2) [OF lawful x [unfolded Err]] by simp
    next
      case (Panic q)
      then show thesis using nats_lawfulD(3) [OF lawful] x by blast
    qed
  qed
qed

lemma nats_Subscribe_cases:
  assumes lawful: "nats_lawful nc subs sent" and run: "nats_Subscribe nc subject handler b = (r, b')"
  obtains (failed) e where "r = Err e" "subs (nb_nc b') = subs (nb_nc b)" "sent (nb_nc b') = sent (nb_nc b)"
      "nb_clock b' = nb_clock b"
  | (subscribed) x where "r = Ok (on_nc (nc_Unsubscribe nc x))" "x \<notin> fst ` set (subs (nb_nc b))"
      "subs (nb_nc b') = subs (nb_nc b) @ [(x, subject, onMsg handler)]" "sent (nb_nc b') = sent (nb_nc b)"
      "nb_clock b' = nb_clock b"
proof -
  obtain x n where x: "nc_Subscribe nc subject (onMsg handler) (nb_nc b) = (x, n)"
    by (cases "nc_Subscribe nc subject (onMsg handler) (nb_nc b)")
  show thesis
  proof (cases x)
    case (Ok y)
    then show thesis using subscribed [of y] run x nats_lawfulD(4) [OF lawful x [unfolded Ok]]
      by (auto simp: nats_Subscribe_def bnd_def wrap_eff_def on_nc_def ret_def)
  next
    case (Err e)
    then show thesis using failed run x nats_lawfulD(5) [OF lawful x [unfolded Err]]
      by (auto simp: nats_Subscribe_def bnd_def wrap_eff_def on_nc_def)
  next
    case (Panic q)
    then show thesis using nats_lawfulD(6) [OF lawful] x by blast
  qed
qed

lemma deliver_append: "deliver (xs @ ys) msg c = deliver ys msg (deliver xs msg c)"
  by (simp add: deliver_def)

lemma deliver_skip: "(\<And>x. x \<in> set xs \<Longrightarrow> fst (snd x) \<noteq> fst msg) \<Longrightarrow> deliver xs msg c = c"
proof (induction xs)
  case (Cons x xs)
  have "fst (snd x) \<noteq> fst msg" using Cons.prems [of x] by simp
  then show ?case using Cons by (cases x) (simp add: deliver_def)
qed (simp add: deliver_def)

lemma deliver_one: "deliver [(x, s, f)] (s, m) c = snd (f m c)"
  by (simp add: deliver_def)

text \<open>A network in one process, on which the laws hold.\<close>

record 'c localNet =
  ln_subs :: "(nat \<times> string \<times> (string \<Rightarrow> ('c, unit) eff)) list"
  ln_sent :: "(string \<times> string) list"

definition localNats :: "('c localNet, nat, 'c) Nats" where
  "localNats =
     \<lparr>nc_Publish = (\<lambda>s m n. (Ok (), n\<lparr>ln_sent := ln_sent n @ [(s, m)]\<rparr>)),
      nc_Subscribe = (\<lambda>s f n. let x = Suc (sum_list (map fst (ln_subs n))) in
        (Ok x, n\<lparr>ln_subs := ln_subs n @ [(x, s, f)]\<rparr>)),
      nc_Unsubscribe = (\<lambda>x n. (Ok (), n\<lparr>ln_subs := filter (\<lambda>y. fst y \<noteq> x) (ln_subs n)\<rparr>)),
      nc_Drain = (\<lambda>n. (Ok (), n\<lparr>ln_subs := []\<rparr>))\<rparr>"

lemma localNats_lawful: "nats_lawful localNats ln_subs ln_sent"
proof -
  have "Suc (sum_list (map fst (ln_subs n))) \<notin> fst ` set (ln_subs n)" for n :: "'c localNet"
    using member_le_sum_list [of _ "map fst (ln_subs n)"] by fastforce
  then show ?thesis by (auto simp: nats_lawful_def localNats_def Let_def)
qed

lemma localNats_simps:
  "nc_Publish localNats s m n = (Ok (), n\<lparr>ln_sent := ln_sent n @ [(s, m)]\<rparr>)"
  "nc_Unsubscribe localNats x n = (Ok (), n\<lparr>ln_subs := filter (\<lambda>y. fst y \<noteq> x) (ln_subs n)\<rparr>)"
  "nc_Subscribe localNats s f n = (Ok (Suc (sum_list (map fst (ln_subs n)))),
     n\<lparr>ln_subs := ln_subs n @ [(Suc (sum_list (map fst (ln_subs n))), s, f)]\<rparr>)"
  by (simp_all add: localNats_def Let_def)


section \<open>Properties\<close>



end
