(* ===== verification/Notification.thy ===== *)
theory Notification
  imports Nats_Bus
begin

text \<open>
  \<^verbatim>\<open>internal/notification/notification.go\<close>: the consumer that subscribes to the platform's events and logs a
  notification for each. The bus object, the process log and the unsubscribe calls are its state; the handler
  runs on the log.
\<close>

section \<open>Definitions\<close>

record 'b Consumer =
  cn_bus :: 'b
  cn_log :: "entry list"
  cn_subs :: "('b, unit) eff list"

definition NewConsumer :: "'b \<Rightarrow> entry list \<Rightarrow> 'b Consumer" where
  "NewConsumer b lg = \<lparr>cn_bus = b, cn_log = lg, cn_subs = []\<rparr>"

definition dispatched :: "Event \<Rightarrow> entry" where
  "dispatched e =
     \<lparr>le_level = ''INFO'', le_msg = ''notification dispatched'',
      le_attrs = [(''event'', AString (ev_Subject e)), (''event_time'', ATime (ev_Time e)),
                  (''payload'', AString (case ev_Data e of None \<Rightarrow> [] | Some d \<Rightarrow> d))]\<rparr>"

definition consumer_handle :: "Event \<Rightarrow> (entry list, unit) eff" where
  "consumer_handle e lg = (Ok (), lg @ [dispatched e])"

definition consumerSubjects :: "string list" where
  "consumerSubjects =
     [SubjectUserCreated, SubjectWalletCreated, SubjectTxSubmitted, SubjectPaymentMade,
      SubjectChainTransfer, SubjectChainReorg]"

definition subscribedEntry :: "string \<Rightarrow> entry" where
  "subscribedEntry subj = \<lparr>le_level = ''INFO'', le_msg = ''subscribed'', le_attrs = [(''subject'', AString subj)]\<rparr>"

definition subscribeTo :: "('b, entry list) SubBus \<Rightarrow> string \<Rightarrow> ('b Consumer, unit) eff" where
  "subscribeTo bus subj c =
     (case Subscribe bus subj consumer_handle (cn_bus c) of
        (Ok unsub, b) \<Rightarrow>
          (Ok (), c\<lparr>cn_bus := b, cn_subs := cn_subs c @ [unsub], cn_log := cn_log c @ [subscribedEntry subj]\<rparr>)
      | (Err e, b) \<Rightarrow> (Err e, c\<lparr>cn_bus := b\<rparr>)
      | (Panic p, b) \<Rightarrow> (Panic p, c\<lparr>cn_bus := b\<rparr>))"

definition consumer_Start :: "('b, entry list) SubBus \<Rightarrow> ('b Consumer, unit) eff" where
  "consumer_Start bus = for_each consumerSubjects (subscribeTo bus)"

definition on_bus :: "('b, 'a) eff \<Rightarrow> ('b Consumer, 'a) eff" where
  "on_bus m c = (case m (cn_bus c) of (r, b) \<Rightarrow> (r, c\<lparr>cn_bus := b\<rparr>))"

definition consumer_Stop :: "('b Consumer, unit) eff" where
  "consumer_Stop c = for_each (cn_subs c) (\<lambda>unsub. ignore_err (on_bus unsub)) c"


section \<open>Laws\<close>

text \<open>The subscriptions a run of \<^verbatim>\<open>Start\<close> has made, with identifiers \<open>xs\<close> for the subjects \<open>ss\<close>.\<close>

definition consumerSubs :: "'sub list \<Rightarrow> string list \<Rightarrow> ('sub \<times> string \<times> (string \<Rightarrow> (entry list, unit) eff)) list" where
  "consumerSubs xs ss = map (\<lambda>(x, s). (x, s, onMsg consumer_handle)) (zip xs ss)"

lemma Start_run:
  assumes lawful: "nats_lawful nc subs sent"
    and run: "for_each ss (subscribeTo (natsBus nc)) c = (r, c')"
  shows "\<exists>k xs. k \<le> length ss \<and> length xs = k \<and> distinct xs \<and> set xs \<inter> fst ` set (subs (nb_nc (cn_bus c))) = {} \<and>
    subs (nb_nc (cn_bus c')) = subs (nb_nc (cn_bus c)) @ consumerSubs xs (take k ss) \<and>
    sent (nb_nc (cn_bus c')) = sent (nb_nc (cn_bus c)) \<and>
    cn_subs c' = cn_subs c @ map (\<lambda>x. on_nc (nc_Unsubscribe nc x)) xs \<and>
    cn_log c' = cn_log c @ map subscribedEntry (take k ss) \<and>
    (if k = length ss then r = Ok () else \<exists>e. r = Err e)"
  using run
proof (induction ss arbitrary: c)
  case Nil
  then show ?case by (simp add: ret_def consumerSubs_def)
next
  case (Cons s ss)
  obtain a b where sub: "nats_Subscribe nc s consumer_handle (cn_bus c) = (a, b)"
    by (cases "nats_Subscribe nc s consumer_handle (cn_bus c)")
  from lawful sub show ?case
  proof (cases rule: nats_Subscribe_cases)
    case (failed e)
    then have "r = Err e" "c' = c\<lparr>cn_bus := b\<rparr>"
      using Cons.prems sub by (simp_all add: subscribeTo_def natsBus_def bnd_def)
    then show ?thesis using failed by (intro exI [of _ 0] exI [of _ "[]"]) (simp add: consumerSubs_def)
  next
    case (subscribed x)
    let ?c = "c\<lparr>cn_bus := b, cn_subs := cn_subs c @ [on_nc (nc_Unsubscribe nc x)], cn_log := cn_log c @ [subscribedEntry s]\<rparr>"
    have "subscribeTo (natsBus nc) s c = (Ok (), ?c)" using sub subscribed by (simp add: subscribeTo_def natsBus_def)
    then have "for_each ss (subscribeTo (natsBus nc)) ?c = (r, c')" using Cons.prems by simp
    from Cons.IH [OF this] obtain k xs where IH: "k \<le> length ss" "length xs = k" "distinct xs"
        "set xs \<inter> fst ` set (subs (nb_nc b)) = {}"
        "subs (nb_nc (cn_bus c')) = subs (nb_nc b) @ consumerSubs xs (take k ss)"
        "sent (nb_nc (cn_bus c')) = sent (nb_nc b)"
        "cn_subs c' = cn_subs ?c @ map (\<lambda>x. on_nc (nc_Unsubscribe nc x)) xs"
        "cn_log c' = cn_log ?c @ map subscribedEntry (take k ss)"
        "if k = length ss then r = Ok () else \<exists>e. r = Err e"
      by auto
    have "x \<notin> set xs" "set xs \<inter> fst ` set (subs (nb_nc (cn_bus c))) = {}" using IH(4) subscribed(3) by auto
    then show ?thesis
      using IH subscribed
      by (intro exI [of _ "Suc k"] exI [of _ "x # xs"]) (auto simp: consumerSubs_def)
  qed
qed

lemma Stop_run:
  assumes lawful: "nats_lawful nc subs sent" and total: "\<And>x n. \<exists>n'. nc_Unsubscribe nc x n = (Ok (), n')"
  shows "\<exists>c'. for_each (map (\<lambda>x. on_nc (nc_Unsubscribe nc x)) xs) (\<lambda>unsub. ignore_err (on_bus unsub)) c = (Ok (), c') \<and>
    subs (nb_nc (cn_bus c')) = filter (\<lambda>y. fst y \<notin> set xs) (subs (nb_nc (cn_bus c)))"
proof (induction xs arbitrary: c)
  case (Cons x xs)
  obtain n where n: "nc_Unsubscribe nc x (nb_nc (cn_bus c)) = (Ok (), n)" using total by blast
  let ?c = "c\<lparr>cn_bus := (cn_bus c)\<lparr>nb_nc := n\<rparr>\<rparr>"
  have step: "ignore_err (on_bus (on_nc (nc_Unsubscribe nc x))) c = (Ok (), ?c)"
    by (simp add: ignore_err_def on_bus_def on_nc_def n)
  obtain c' where c': "for_each (map (\<lambda>x. on_nc (nc_Unsubscribe nc x)) xs) (\<lambda>unsub. ignore_err (on_bus unsub)) ?c = (Ok (), c')"
      "subs (nb_nc (cn_bus c')) = filter (\<lambda>y. fst y \<notin> set xs) (subs n)"
    using Cons.IH [of ?c] by auto
  then show ?case
    using nats_lawfulD(7) [OF lawful n] step by (auto intro: filter_cong)
qed (simp add: ret_def)

text \<open>A started consumer logs one notification per message on its subjects.\<close>

lemma deliver_consumer:
  assumes "length xs = length ss" and "distinct ss" and "subject \<in> set ss" and "unmarshalEvent raw = Some e"
  shows "deliver (consumerSubs xs ss) (subject, raw) lg = lg @ [dispatched e]"
  using assms(1-3)
proof (induction xs ss arbitrary: lg rule: list_induct2)
  case (Cons x xs s ss)
  show ?case
  proof (cases "s = subject")
    case True
    then have "deliver (consumerSubs xs ss) (subject, raw) l = l" for l
      using Cons.prems(1) by (intro deliver_skip) (auto simp: consumerSubs_def dest: set_zip_rightD)
    then show ?thesis
      using True assms(4) by (simp add: consumerSubs_def deliver_def onMsg_def consumer_handle_def)
  next
    case False
    then show ?thesis using Cons by (simp add: consumerSubs_def deliver_def)
  qed
qed simp

lemma distinct_consumerSubjects: "distinct consumerSubjects"
  by (simp add: consumerSubjects_def subject_defs)


section \<open>Properties\<close>




end
