(* ===== verification/Notification_Props.thy ===== *)
theory Notification_Props
  imports Notification User_Props
begin

text \<open>
  The services, the NATS network and the notification consumer together: what a service publishes is what the
  consumer dispatches.
\<close>

text \<open>A consumer started on the network dispatches each publication on its subjects once, whichever process
  publishes it over the same network.\<close>

lemma started_consumer_dispatches:
  assumes lawful: "nats_lawful nc subs sent"
    and others: "\<forall>x \<in> set (subs (nb_nc cb)). fst (snd x) \<noteq> subject"
    and start: "consumer_Start (natsBus nc) (NewConsumer cb lg) = (Ok (), c1)"
    and net: "subs (nb_nc b) = subs (nb_nc (cn_bus c1))" and subject: "subject \<in> set consumerSubjects"
    and pub: "nats_Publish nc subject v b = (Ok (), b')" and nest: "nesting v < maxNestingDepth"
  shows "\<exists>payload raw. marshal v = Some payload \<and> sent (nb_nc b') = sent (nb_nc b) @ [(subject, raw)] \<and>
    deliver (subs (nb_nc b')) (subject, raw) log0 =
      log0 @ [dispatched \<lparr>ev_Subject = subject, ev_Time = wall (nb_clock b 0), ev_Data = Some payload\<rparr>]"
proof -
  from lawful pub obtain payload raw where p: "marshal v = Some payload"
      "marshalEvent \<lparr>ev_Subject = subject, ev_Time = wall (nb_clock b 0), ev_Data = Some payload\<rparr> = Some raw"
      "subs (nb_nc b') = subs (nb_nc b)" "sent (nb_nc b') = sent (nb_nc b) @ [(subject, raw)]"
    by (rule nats_Publish_cases) auto
  obtain xs where S: "length xs = length consumerSubjects"
      "subs (nb_nc (cn_bus c1)) = subs (nb_nc cb) @ consumerSubs xs consumerSubjects"
    using Start_run [OF lawful start [unfolded consumer_Start_def]] by (auto simp: NewConsumer_def split: if_splits)
  have "validText subject = subject"
    using subject by (intro validText_ascii) (auto simp: consumerSubjects_def subject_defs byte_def)
  then have "unmarshalEvent raw = Some \<lparr>ev_Subject = subject, ev_Time = wall (nb_clock b 0), ev_Data = Some payload\<rparr>"
    using unmarshal_marshalEvent [OF p(1) nest p(2)] by simp
  from deliver_consumer [OF S(1) distinct_consumerSubjects subject this]
  have "deliver (subs (nb_nc b')) (subject, raw) log0 =
      log0 @ [dispatched \<lparr>ev_Subject = subject, ev_Time = wall (nb_clock b 0), ev_Data = Some payload\<rparr>]"
    using deliver_skip [of "subs (nb_nc cb)" "(subject, raw)" log0] others by (simp add: p(3) net S(2) deliver_append)
  then show ?thesis using p by blast
qed

text \<open>What a successful registration does to the bus, over any store.\<close>

lemma Register_publishes:
  assumes "Register mail_ok uuid svc email s = (Ok u, s')"
  shows "snd (sv_state s') = snd (Publish (svc_bus svc) SubjectUserCreated (user_any u) (snd (sv_state s)))"
proof -
  have ok: "mail_ok email" using assms by (auto simp: Register_def raise_def split: if_splits)
  let ?u = "\<lparr>us_ID = uuid (map (sv_random s) [0..<16]), us_Email = email, us_CreatedAt = wall (sv_clock s 0)\<rparr>"
  obtain x st where x: "user_Create (svc_store svc) ?u (fst (sv_state s)) = (x, st)" by (cases "user_Create (svc_store svc) ?u (fst (sv_state s))")
  obtain y b where y: "Publish (svc_bus svc) SubjectUserCreated (user_any ?u) (snd (sv_state s)) = (y, b)"
    by (cases "Publish (svc_bus svc) SubjectUserCreated (user_any ?u) (snd (sv_state s))")
  have "x = Ok ()" using assms ok x
    by (cases x; cases "sv_state s") (auto simp: Register_def rand_Read_def time_Now_def bnd_def on_state_def on_fst_def Let_def)
  then show ?thesis
    using assms ok x y
    by (cases y; cases "sv_state s")
       (auto simp: Register_def rand_Read_def time_Now_def bnd_def on_state_def on_fst_def on_snd_def ignore_err_def ret_def Let_def)
qed


section \<open>Properties\<close>



end
