(* ===== verification/Wallet.thy ===== *)
theory Wallet
  imports Nats_Bus Eth_Lib User
begin

text \<open>
  \<^verbatim>\<open>internal/wallet/wallet.go\<close>: key custody over go-ethereum's keystore, and the HTTP routes of the wallet
  service. The keystore is not part of the repository: its calls are the fields of a record \<open>KeyStore\<close>,
  \<open>KeystoreLib\<close> opens one, and \<open>keystore_lawful\<close> states what the service relies on.
\<close>

section \<open>Definitions\<close>

record Wallet =
  wa_Address :: string
  wa_CreatedAt :: int

record 'k KeyStore =
  ks_NewAccount :: "string \<Rightarrow> ('k, address) eff"
  ks_Accounts :: "('k, address list) eff"

text \<open>\<^verbatim>\<open>keystore.NewKeyStore\<close> and the scrypt parameters (N and P) it is opened with.\<close>

record 'k KeystoreLib =
  NewKeyStore :: "string \<Rightarrow> int \<Rightarrow> int \<Rightarrow> 'k KeyStore"
  StandardScrypt :: "int \<times> int"
  LightScrypt :: "int \<times> int"

record ('k, 'b) WalletService =
  ws_ks :: "'k KeyStore"
  ws_passphrase :: string
  ws_chainID :: int
  ws_bus :: "'b Bus"

text \<open>The objects behind the service: the keystore, the times this process created wallets at, the bus.\<close>

record ('k, 'b) walletState =
  wl_ks :: 'k
  wl_created :: "address \<rightharpoonup> int"
  wl_bus :: 'b

definition NewWalletService ::
  "'k KeystoreLib \<Rightarrow> string \<Rightarrow> string \<Rightarrow> int \<Rightarrow> bool \<Rightarrow> 'b Bus \<Rightarrow> ('k, 'b) WalletService result" where
  "NewWalletService lib dir passphrase chainID light bus =
     (if passphrase = [] then Err (Opaque ''keystore passphrase must not be empty'')
      else let (n, p) = (if light then LightScrypt lib else StandardScrypt lib) in
        Ok \<lparr>ws_ks = NewKeyStore lib dir n p, ws_passphrase = passphrase, ws_chainID = chainID, ws_bus = bus\<rparr>)"

definition wallet_any :: "Wallet \<Rightarrow> any" where
  "wallet_any w = AStruct [(''address'', AString (wa_Address w)), (''created_at'', ATime (wa_CreatedAt w))]"

definition on_ks :: "('k, 'a) eff \<Rightarrow> (('k, 'b) walletState, 'a) eff" where
  "on_ks m s = (case m (wl_ks s) of (r, k) \<Rightarrow> (r, s\<lparr>wl_ks := k\<rparr>))"

definition on_wbus :: "('b, 'a) eff \<Rightarrow> (('k, 'b) walletState, 'a) eff" where
  "on_wbus m s = (case m (wl_bus s) of (r, b) \<Rightarrow> (r, s\<lparr>wl_bus := b\<rparr>))"

text \<open>\<^verbatim>\<open>s.created[acct.Address] = now\<close>\<close>

definition noteCreated :: "address \<Rightarrow> int \<Rightarrow> (('k, 'b) walletState, unit) eff" where
  "noteCreated a t s = (Ok (), s\<lparr>wl_created := (wl_created s)(a \<mapsto> t)\<rparr>)"

definition wallet_Create ::
  "'abi Eth \<Rightarrow> ('k, 'b) WalletService \<Rightarrow> (('k, 'b) walletState srv, Wallet) eff" where
  "wallet_Create eth svc =
     bnd (on_state (on_ks (ks_NewAccount (ws_ks svc) (ws_passphrase svc)))) (\<lambda>a.
     bnd time_Now (\<lambda>now.
     bnd (on_state (noteCreated a (wall now))) (\<lambda>_.
     let w = \<lparr>wa_Address = Address_Hex eth a, wa_CreatedAt = wall now\<rparr> in
     bnd (on_state (on_wbus (ignore_err (Publish (ws_bus svc) SubjectWalletCreated (wallet_any w))))) (\<lambda>_.
     ret w))))"

text \<open>The time of a wallet this process did not create is the zero time.\<close>

definition createdAt :: "(address \<rightharpoonup> int) \<Rightarrow> address \<Rightarrow> int" where
  "createdAt created a = (case created a of Some t \<Rightarrow> t | None \<Rightarrow> zeroTime)"

definition wallet_List ::
  "'abi Eth \<Rightarrow> ('k, 'b) WalletService \<Rightarrow> (('k, 'b) walletState, Wallet list) eff" where
  "wallet_List eth svc =
     bnd (on_ks (ks_Accounts (ws_ks svc))) (\<lambda>accts s.
       (Ok (map (\<lambda>a. \<lparr>wa_Address = Address_Hex eth a, wa_CreatedAt = createdAt (wl_created s) a\<rparr>) accts), s))"

definition postWallets :: "'abi Eth \<Rightarrow> ('k, 'b) WalletService \<Rightarrow> ('k, 'b) walletState handler" where
  "postWallets eth svc r =
     on_err (wallet_Create eth svc)
       (\<lambda>e. Error 500 ''could not create wallet'')
       (\<lambda>w. JSON 201 (wallet_any w))"

definition listWallets :: "'abi Eth \<Rightarrow> ('k, 'b) WalletService \<Rightarrow> ('k, 'b) walletState handler" where
  "listWallets eth svc r =
     bnd (on_state (wallet_List eth svc)) (\<lambda>ws. JSON 200 (ASlice (map wallet_any ws)))"

definition walletRoutes :: "'abi Eth \<Rightarrow> ('k, 'b) WalletService \<Rightarrow> ('k, 'b) walletState route list" where
  "walletRoutes eth svc =
     [\<lparr>ro_method = ''GET'', ro_segs = [Lit ''healthz''], ro_handler = healthz\<rparr>,
      \<lparr>ro_method = ''POST'', ro_segs = [Lit ''wallets''], ro_handler = postWallets eth svc\<rparr>,
      \<lparr>ro_method = ''GET'', ro_segs = [Lit ''wallets''], ro_handler = RequireRole ''admin'' (listWallets eth svc)\<rparr>]"

definition WalletRoutes :: "'abi Eth \<Rightarrow> int \<Rightarrow> ('k, 'b) WalletService \<Rightarrow> ('k, 'b) walletState handler" where
  "WalletRoutes eth redirectCode svc = ServeMux redirectCode (walletRoutes eth svc)"

text \<open>\<^verbatim>\<open>cmd/wallet/main.go\<close>: the handler the wallet service serves.\<close>

definition walletHandler :: "'abi Eth \<Rightarrow> int \<Rightarrow> ('k, 'b) WalletService \<Rightarrow> ('k, 'b) walletState handler" where
  "walletHandler eth redirectCode svc = Chain (WalletRoutes eth redirectCode svc) [RequestID, Logger, Recovery]"


section \<open>The keystore\<close>

text \<open>\<open>accts k\<close> is the set of addresses on disk. A new account has a new address; a failed call adds none; the
  listing is complete and without repetition.\<close>

definition keystore_lawful :: "'k KeyStore \<Rightarrow> ('k \<Rightarrow> address set) \<Rightarrow> bool" where
  "keystore_lawful ks accts \<longleftrightarrow>
     (\<forall>pw k a k'. ks_NewAccount ks pw k = (Ok a, k') \<longrightarrow> a \<notin> accts k \<and> accts k' = insert a (accts k)) \<and>
     (\<forall>pw k e k'. ks_NewAccount ks pw k = (Err e, k') \<longrightarrow> accts k' = accts k) \<and>
     (\<forall>pw k p k'. ks_NewAccount ks pw k \<noteq> (Panic p, k')) \<and>
     (\<forall>k. \<exists>as k'. ks_Accounts ks k = (Ok as, k') \<and> distinct as \<and> set as = accts k \<and> accts k' = accts k)"

lemma keystore_lawfulD:
  assumes "keystore_lawful ks accts"
  shows "ks_NewAccount ks pw k = (Ok a, k') \<Longrightarrow> a \<notin> accts k \<and> accts k' = insert a (accts k)"
    and "ks_NewAccount ks pw k = (Err e, k') \<Longrightarrow> accts k' = accts k"
    and "ks_NewAccount ks pw k \<noteq> (Panic p, k')"
    and "\<exists>as k'. ks_Accounts ks k = (Ok as, k') \<and> distinct as \<and> set as = accts k \<and> accts k' = accts k"
  using assms by (auto simp: keystore_lawful_def)


section \<open>Laws\<close>

text \<open>Every outcome of \<^verbatim>\<open>Create\<close>.\<close>

lemma wallet_Create_cases:
  assumes lawful: "keystore_lawful (ws_ks svc) accts" and run: "wallet_Create eth svc s = (r, s')"
  obtains (failed) e where "r = Err e" "wl_created (sv_state s') = wl_created (sv_state s)"
      "accts (wl_ks (sv_state s')) = accts (wl_ks (sv_state s))" "wl_bus (sv_state s') = wl_bus (sv_state s)" "sv_w s' = sv_w s"
  | (created) a where "r = Ok \<lparr>wa_Address = Address_Hex eth a, wa_CreatedAt = wall (sv_clock s 0)\<rparr> \<or> (\<exists>p. r = Panic p)"
      "a \<notin> accts (wl_ks (sv_state s))" "accts (wl_ks (sv_state s')) = insert a (accts (wl_ks (sv_state s)))"
      "wl_created (sv_state s') = (wl_created (sv_state s))(a \<mapsto> wall (sv_clock s 0))"
      "(fst (ignore_err (Publish (ws_bus svc) SubjectWalletCreated
          (wallet_any \<lparr>wa_Address = Address_Hex eth a, wa_CreatedAt = wall (sv_clock s 0)\<rparr>)) (wl_bus (sv_state s))),
        wl_bus (sv_state s')) = ignore_err (Publish (ws_bus svc) SubjectWalletCreated
          (wallet_any \<lparr>wa_Address = Address_Hex eth a, wa_CreatedAt = wall (sv_clock s 0)\<rparr>)) (wl_bus (sv_state s))"
      "sv_w s' = sv_w s"
proof -
  obtain x k where x: "ks_NewAccount (ws_ks svc) (ws_passphrase svc) (wl_ks (sv_state s)) = (x, k)"
    by (cases "ks_NewAccount (ws_ks svc) (ws_passphrase svc) (wl_ks (sv_state s))")
  show thesis
  proof (cases x)
    case (Err e)
    then show thesis
      using failed run x keystore_lawfulD(2) [OF lawful x [unfolded Err]]
      by (auto simp: wallet_Create_def bnd_def on_state_def on_ks_def)
  next
    case (Panic p)
    then show thesis using keystore_lawfulD(3) [OF lawful] x by blast
  next
    case (Ok a)
    let ?w = "\<lparr>wa_Address = Address_Hex eth a, wa_CreatedAt = wall (sv_clock s 0)\<rparr>"
    obtain y b where y: "ignore_err (Publish (ws_bus svc) SubjectWalletCreated (wallet_any ?w)) (wl_bus (sv_state s)) = (y, b)"
      by (cases "ignore_err (Publish (ws_bus svc) SubjectWalletCreated (wallet_any ?w)) (wl_bus (sv_state s))")
    have noerr: "y \<noteq> Err e" for e
      using y by (auto simp: ignore_err_def split: prod.splits result.splits)
    define s1 where "s1 = s\<lparr>sv_clock := \<lambda>n. sv_clock s (Suc n), sv_state := \<lparr>wl_ks = k,
      wl_created = (wl_created (sv_state s))(a \<mapsto> wall (sv_clock s 0)), wl_bus = b\<rparr>\<rparr>"
    have "wallet_Create eth svc s = (case y of Ok _ \<Rightarrow> Ok ?w | Err e \<Rightarrow> Err e | Panic p \<Rightarrow> Panic p, s1)"
      using x Ok y
      by (cases y; cases "sv_state s")
         (simp_all add: wallet_Create_def bnd_def on_state_def on_ks_def noteCreated_def Let_def on_wbus_def ret_def s1_def)
    then have r: "r = (case y of Ok _ \<Rightarrow> Ok ?w | Err e \<Rightarrow> Err e | Panic p \<Rightarrow> Panic p)" and s1: "s' = s1" using run by simp_all
    show thesis
    proof (rule created [of a])
      show "r = Ok ?w \<or> (\<exists>p. r = Panic p)" using r noerr by (cases y) auto
      show "a \<notin> accts (wl_ks (sv_state s))" "accts (wl_ks (sv_state s')) = insert a (accts (wl_ks (sv_state s)))"
        using keystore_lawfulD(1) [OF lawful x [unfolded Ok]] by (simp_all add: s1 s1_def)
    qed (simp_all add: s1 s1_def y)
  qed
qed

text \<open>A wallet this process has created: on disk, with its time.\<close>

definition remembers :: "('k \<Rightarrow> address set) \<Rightarrow> address \<Rightarrow> int \<Rightarrow> ('k, 'b) walletState \<Rightarrow> bool" where
  "remembers accts a t s \<longleftrightarrow> a \<in> accts (wl_ks s) \<and> wl_created s a = Some t"

lemma wallet_Create_remembers:
  assumes "keystore_lawful (ws_ks svc) accts" and "wallet_Create eth svc s = (r, s')" and "remembers accts a t (sv_state s)"
  shows "remembers accts a t (sv_state s')"
  using assms(1,2)
proof (cases rule: wallet_Create_cases)
  case (created b)
  then show ?thesis using assms(3) by (auto simp: remembers_def)
qed (use assms(3) in \<open>simp add: remembers_def\<close>)

lemma wallet_List_run:
  assumes "keystore_lawful (ws_ks svc) accts"
  shows "\<exists>as k'. ks_Accounts (ws_ks svc) (wl_ks st) = (Ok as, k') \<and> distinct as \<and> set as = accts (wl_ks st) \<and>
    accts k' = accts (wl_ks st) \<and> wallet_List eth svc st =
      (Ok (map (\<lambda>a. \<lparr>wa_Address = Address_Hex eth a, wa_CreatedAt = createdAt (wl_created st) a\<rparr>) as), st\<lparr>wl_ks := k'\<rparr>)"
proof -
  obtain as k' where "ks_Accounts (ws_ks svc) (wl_ks st) = (Ok as, k')" "distinct as" "set as = accts (wl_ks st)" "accts k' = accts (wl_ks st)"
    using keystore_lawfulD(4) [OF assms] by blast
  then show ?thesis by (simp add: wallet_List_def bnd_def on_ks_def)
qed

lemma listWallets_state:
  assumes "keystore_lawful (ws_ks svc) accts" and "listWallets eth svc r s = (x, s')"
  shows "accts (wl_ks (sv_state s')) = accts (wl_ks (sv_state s)) \<and> wl_created (sv_state s') = wl_created (sv_state s)"
proof -
  obtain as k' where l: "accts k' = accts (wl_ks (sv_state s))"
      "wallet_List eth svc (sv_state s) = (Ok (map (\<lambda>a. \<lparr>wa_Address = Address_Hex eth a,
         wa_CreatedAt = createdAt (wl_created (sv_state s)) a\<rparr>) as), (sv_state s)\<lparr>wl_ks := k'\<rparr>)"
    using wallet_List_run [OF assms(1), of "sv_state s" eth] by blast
  let ?s = "s\<lparr>sv_state := (sv_state s)\<lparr>wl_ks := k'\<rparr>\<rparr>"
  obtain v where "JSON 200 v ?s = (x, s')" using assms(2) l(2) by (simp add: listWallets_def bnd_def on_state_def)
  from keeps_stateD [OF keeps_JSON(1) this] show ?thesis using l(1) by simp
qed

lemma WalletRoutes_remembers:
  assumes lawful: "keystore_lawful (ws_ks svc) accts" and rem: "remembers accts a t (sv_state s)"
  shows "remembers accts a t (sv_state (snd (WalletRoutes eth code svc r s)))"
proof -
  obtain x s' where run: "WalletRoutes eth code svc r s = (x, s')" by (cases "WalletRoutes eth code svc r s")
  consider "sv_state s' = sv_state s"
    | ro ms where "ro \<in> set (walletRoutes eth svc)" "ro_handler ro (r\<lparr>rq_pathValues := ms\<rparr>) s = (x, s')"
    using ServeMux_cases [OF run [unfolded WalletRoutes_def]] by blast
  then have "remembers accts a t (sv_state s')"
  proof cases
    case (2 ro ms)
    let ?r = "r\<lparr>rq_pathValues := ms\<rparr>"
    consider "healthz ?r s = (x, s')" | "postWallets eth svc ?r s = (x, s')" | "RequireRole ''admin'' (listWallets eth svc) ?r s = (x, s')"
      using 2 by (auto simp: walletRoutes_def)
    then show ?thesis
    proof cases
      case 1
      from keeps_stateD [OF keeps_healthz this] rem show ?thesis by simp
    next
      case 2
      obtain y s1 where y: "wallet_Create eth svc s = (y, s1)" by (cases "wallet_Create eth svc s")
      let ?k = "case y of Ok w \<Rightarrow> JSON 201 (wallet_any w) | Err e \<Rightarrow> Error 500 ''could not create wallet'' | Panic p \<Rightarrow> lift (Panic p)"
      have "keeps_state ?k" by (cases y) (simp_all add: keeps)
      moreover have "?k s1 = (x, s')" using 2 y by (cases y) (simp_all add: postWallets_def on_err_def lift_def)
      ultimately have "sv_state s' = sv_state s1" by (rule keeps_stateD)
      then show ?thesis using wallet_Create_remembers [OF lawful y rem] by simp
    next
      case 3
      then show ?thesis
        using listWallets_state [OF lawful, of eth ?r s x s'] keeps_stateD [OF keeps_JSON(2), of 403 "''insufficient role''" s x s'] rem
        by (auto simp: RequireRole_def remembers_def split: if_splits)
    qed
  qed (use rem in simp)
  then show ?thesis using run by simp
qed

end
