(* ===== verification/Wallet_Props.thy ===== *)
theory Wallet_Props
  imports Wallet User_Props
begin

text \<open>
  Properties of the wallet service: what has been created stays listed, and what clients, the log and the bus
  see of the keystore are addresses only.
\<close>

lemma wallets_route:
  "routesTo (walletRoutes eth svc) ''GET'' ''/wallets'' ''GET'' [Lit ''wallets''] []"
  "routesTo (walletRoutes eth svc) ''POST'' ''/wallets'' ''POST'' [Lit ''wallets''] []"
  by code_simp+

lemma wallets_handlers:
  assumes "rq_URL r = \<lparr>u_Scheme = [], u_Host = [], u_Path = ''/wallets'', u_RawPath = [], u_RawQuery = q\<rparr>"
  shows "rq_Method r = ''GET'' \<Longrightarrow> WalletRoutes eth code svc r = RequireRole ''admin'' (listWallets eth svc) (r\<lparr>rq_pathValues := []\<rparr>)"
    and "rq_Method r = ''POST'' \<Longrightarrow> WalletRoutes eth code svc r = postWallets eth svc (r\<lparr>rq_pathValues := []\<rparr>)"
proof -
  have get: "ro_handler ro = RequireRole ''admin'' (listWallets eth svc)"
    if "ro \<in> set (walletRoutes eth svc)" "ro_method ro = ''GET''" "ro_segs ro = [Lit ''wallets'']" for ro
    using that by (auto simp: walletRoutes_def)
  have post: "ro_handler ro = postWallets eth svc"
    if "ro \<in> set (walletRoutes eth svc)" "ro_method ro = ''POST''" "ro_segs ro = [Lit ''wallets'']" for ro
    using that by (auto simp: walletRoutes_def)
  show "WalletRoutes eth code svc r = RequireRole ''admin'' (listWallets eth svc) (r\<lparr>rq_pathValues := []\<rparr>)" if "rq_Method r = ''GET''"
    unfolding WalletRoutes_def using ServeMux_route [OF wallets_route(1) get that assms] by simp
  show "WalletRoutes eth code svc r = postWallets eth svc (r\<lparr>rq_pathValues := []\<rparr>)" if "rq_Method r = ''POST''"
    unfolding WalletRoutes_def using ServeMux_route [OF wallets_route(2) post that assms] by simp
qed

lemma handle_all_remembers:
  assumes "keystore_lawful (ws_ks svc) accts" and "remembers accts a t (sv_state s)"
  shows "remembers accts a t (sv_state (handle_all (WalletRoutes eth code svc) rs s))"
  by (rule handle_all_invariant [where I = "remembers accts a t"]) (simp_all add: WalletRoutes_remembers [OF assms(1)] assms(2))


section \<open>Two runs that differ in the keystore\<close>

text \<open>\<open>R\<close> relates keystores that behave alike as far as addresses go: the same new addresses and the same listings;
  key material and error texts may differ.\<close>

definition ks_alike :: "'k KeyStore \<Rightarrow> string \<Rightarrow> ('k \<Rightarrow> 'k \<Rightarrow> bool) \<Rightarrow> bool" where
  "ks_alike ks pw R \<longleftrightarrow> (\<forall>k1 k2. R k1 k2 \<longrightarrow>
     (case (ks_NewAccount ks pw k1, ks_NewAccount ks pw k2) of
        ((Ok a, k1'), (Ok b, k2')) \<Rightarrow> a = b \<and> R k1' k2'
      | ((Err e, k1'), (Err f, k2')) \<Rightarrow> R k1' k2'
      | _ \<Rightarrow> False) \<and>
     (case (ks_Accounts ks k1, ks_Accounts ks k2) of
        ((Ok as, k1'), (Ok bs, k2')) \<Rightarrow> as = bs \<and> R k1' k2'
      | _ \<Rightarrow> False))"

definition alike :: "('k \<Rightarrow> 'k \<Rightarrow> bool) \<Rightarrow> ('k, 'b) walletState srv \<Rightarrow> ('k, 'b) walletState srv \<Rightarrow> bool" where
  "alike R s t \<longleftrightarrow> R (wl_ks (sv_state s)) (wl_ks (sv_state t)) \<and>
     t = s\<lparr>sv_state := (sv_state s)\<lparr>wl_ks := wl_ks (sv_state t)\<rparr>\<rparr>"

text \<open>Results with the error text left open.\<close>

fun same_result :: "'a result \<Rightarrow> 'a result \<Rightarrow> bool" where
  "same_result (Ok x) (Ok y) = (x = y)"
| "same_result (Err e) (Err f) = True"
| "same_result (Panic p) (Panic q) = (p = q)"
| "same_result _ _ = False"

definition sim :: "('k \<Rightarrow> 'k \<Rightarrow> bool) \<Rightarrow> (('k, 'b) walletState srv, 'a) eff \<Rightarrow> bool" where
  "sim R m \<longleftrightarrow> (\<forall>s t. alike R s t \<longrightarrow> fst (m s) = fst (m t) \<and> alike R (snd (m s)) (snd (m t)))"

definition sim_err :: "('k \<Rightarrow> 'k \<Rightarrow> bool) \<Rightarrow> (('k, 'b) walletState srv, 'a) eff \<Rightarrow> bool" where
  "sim_err R m \<longleftrightarrow> (\<forall>s t. alike R s t \<longrightarrow> same_result (fst (m s)) (fst (m t)) \<and> alike R (snd (m s)) (snd (m t)))"

named_theorems sims \<open>calls that treat keystores alike in the same way\<close>

lemma simD: "sim R m \<Longrightarrow> alike R s t \<Longrightarrow> m s = (x, s') \<Longrightarrow> \<exists>t'. m t = (x, t') \<and> alike R s' t'"
  by (metis sim_def fst_conv snd_conv prod.collapse)

lemma sim_errD:
  assumes "sim_err R m" and "alike R s t" and "m s = (x, s1)" and "m t = (y, t1)"
  shows "same_result x y" "alike R s1 t1"
proof -
  have "same_result (fst (m s)) (fst (m t)) \<and> alike R (snd (m s)) (snd (m t))"
    using assms(1,2) unfolding sim_err_def by blast
  then show "same_result x y" "alike R s1 t1" using assms(3,4) by simp_all
qed

lemma simI: "(\<And>s t x s'. alike R s t \<Longrightarrow> m s = (x, s') \<Longrightarrow> \<exists>t'. m t = (x, t') \<and> alike R s' t') \<Longrightarrow> sim R m"
  unfolding sim_def by (metis fst_conv snd_conv prod.collapse)

lemma same_result_refl [simp]: "same_result r r"
  by (cases r) simp_all

lemma sim_err_sim: "sim R m \<Longrightarrow> sim_err R m"
  by (simp add: sim_def sim_err_def)

lemma sim_ret [sims]: "sim R (ret x)" "sim R (lift r)" "sim R (raise e)"
  by (simp_all add: sim_def ret_def lift_def raise_def)

lemma sim_bnd [sims]:
  assumes "sim R m" and "\<And>x. sim R (f x)"
  shows "sim R (bnd m f)"
proof (rule simI)
  fix s t y s' assume st: "alike R s t" and run: "bnd m f s = (y, s')"
  obtain x s1 where m: "m s = (x, s1)" by (cases "m s")
  obtain t1 where m': "m t = (x, t1)" and st1: "alike R s1 t1" using simD [OF assms(1) st m] by blast
  show "\<exists>t'. bnd m f t = (y, t') \<and> alike R s' t'"
  proof (cases x)
    case (Ok v)
    then have "f v s1 = (y, s')" using run m by simp
    from simD [OF assms(2) st1 this] show ?thesis using m' Ok by simp
  qed (use run m m' st1 in simp_all)
qed

lemma sim_err_bnd:
  fixes m :: "(('k, 'b) walletState srv, 'a) eff"
  assumes "sim_err R m" and "\<And>x. sim_err R (f x)"
  shows "sim_err R (bnd m f)"
  unfolding sim_err_def
proof (intro allI impI)
  fix s t :: "('k, 'b) walletState srv" assume st: "alike R s t"
  obtain x s1 where m: "m s = (x, s1)" by (cases "m s")
  obtain y t1 where m': "m t = (y, t1)" by (cases "m t")
  note xy = sim_errD [OF assms(1) st m m']
  show "same_result (fst (bnd m f s)) (fst (bnd m f t)) \<and> alike R (snd (bnd m f s)) (snd (bnd m f t))"
  proof (cases x)
    case (Ok v)
    then have y: "y = Ok v" using xy(1) by (cases y) auto
    have "same_result (fst (f v s1)) (fst (f v t1)) \<and> alike R (snd (f v s1)) (snd (f v t1))"
      using assms(2) [of v] xy(2) unfolding sim_err_def by blast
    then show ?thesis using m m' Ok y by simp
  qed (use xy m m' in \<open>cases y; simp\<close>)+
qed

lemma sim_on_err [sims]:
  fixes m :: "(('k, 'b) walletState srv, 'a) eff"
  assumes "sim_err R m" and "\<And>e f. h e = h f" and "\<And>e. sim R (h e)" and "\<And>x. sim R (f x)"
  shows "sim R (on_err m h f)"
  unfolding sim_def
proof (intro allI impI)
  fix s t :: "('k, 'b) walletState srv" assume st: "alike R s t"
  obtain x s1 where m: "m s = (x, s1)" by (cases "m s")
  obtain y t1 where m': "m t = (y, t1)" by (cases "m t")
  note xy = sim_errD [OF assms(1) st m m']
  show "fst (on_err m h f s) = fst (on_err m h f t) \<and> alike R (snd (on_err m h f s)) (snd (on_err m h f t))"
  proof (cases x)
    case (Err e)
    then obtain e' where "y = Err e'" using xy(1) by (cases y) auto
    then show ?thesis using Err m m' xy(2) assms(3) [of e] assms(2) [of e' e] by (simp add: on_err_def sim_def)
  qed (use xy m m' assms(4) in \<open>cases y; simp add: on_err_def sim_def\<close>)+
qed

lemma sim_ignore_err [sims]: "sim R m \<Longrightarrow> sim R (ignore_err m)"
proof (rule simI)
  fix s t y s' assume m: "sim R m" and st: "alike R s t" and run: "ignore_err m s = (y, s')"
  obtain x s1 where x: "m s = (x, s1)" by (cases "m s")
  obtain t1 where "m t = (x, t1)" "alike R s1 t1" using simD [OF m st x] by blast
  then show "\<exists>t'. ignore_err m t = (y, t') \<and> alike R s' t'" using run x by (cases x) (auto simp: ignore_err_def)
qed

text \<open>Calls on the rest of the process and of the service.\<close>

lemma alikeE:
  assumes "alike R s t"
  obtains k where "t = s\<lparr>sv_state := (sv_state s)\<lparr>wl_ks := k\<rparr>\<rparr>" and "R (wl_ks (sv_state s)) k"
  using assms that [of "wl_ks (sv_state t)"] by (simp add: alike_def)

lemma alikeI: "R (wl_ks (sv_state s)) k \<Longrightarrow> alike R s (s\<lparr>sv_state := (sv_state s)\<lparr>wl_ks := k\<rparr>\<rparr>)"
  by (simp add: alike_def)

lemma sim_process [sims]:
  "sim R time_Now" "sim R (rand_Read n)" "sim R (log_write l m a)" "sim R (header_edit f)"
  by (rule simI, erule alikeE, auto simp: alike_def time_Now_def rand_Read_def log_write_def header_edit_def; fail)+

lemma sim_writes [sims]: "sim R (WriteHeader c)" "sim R (Write bs)"
  by (rule simI, erule alikeE, auto simp: alike_def WriteHeader_def Write_def Let_def split: prod.splits; fail)+

lemma sim_Encode [sims]: "sim R (Encode v)"
  unfolding Encode_def by (cases "marshal v") (simp_all add: sims)

lemma sim_JSON [sims]: "sim R (JSON c v)" "sim R (Error c m)"
  unfolding Error_def JSON_def by (intro sims)+

lemma sim_service [sims]: "sim R (on_state (noteCreated a t))" "sim R (on_state (on_wbus m))"
  by (rule simI, erule alikeE, auto simp: alike_def on_state_def noteCreated_def on_wbus_def split: prod.splits; fail)+


lemma ks_alikeD:
  assumes "ks_alike ks pw R" and "R k1 k2"
  shows "case (ks_NewAccount ks pw k1, ks_NewAccount ks pw k2) of
        ((Ok a, k1'), (Ok b, k2')) \<Rightarrow> a = b \<and> R k1' k2'
      | ((Err e, k1'), (Err f, k2')) \<Rightarrow> R k1' k2'
      | _ \<Rightarrow> False"
    and "case (ks_Accounts ks k1, ks_Accounts ks k2) of
        ((Ok as, k1'), (Ok bs, k2')) \<Rightarrow> as = bs \<and> R k1' k2'
      | _ \<Rightarrow> False"
  using assms(1) [unfolded ks_alike_def, rule_format, OF assms(2)] by (rule conjunct1, rule conjunct2)

lemma alike_ks:
  assumes "ks_alike (ws_ks svc) (ws_passphrase svc) R" and "alike R s t"
  obtains (new) a s' t' where "on_state (on_ks (ks_NewAccount (ws_ks svc) (ws_passphrase svc))) s = (Ok a, s')"
      "on_state (on_ks (ks_NewAccount (ws_ks svc) (ws_passphrase svc))) t = (Ok a, t')" "alike R s' t'"
  | (failed) e f s' t' where "on_state (on_ks (ks_NewAccount (ws_ks svc) (ws_passphrase svc))) s = (Err e, s')"
      "on_state (on_ks (ks_NewAccount (ws_ks svc) (ws_passphrase svc))) t = (Err f, t')" "alike R s' t'"
proof -
  obtain k where t: "t = s\<lparr>sv_state := (sv_state s)\<lparr>wl_ks := k\<rparr>\<rparr>" and R: "R (wl_ks (sv_state s)) k"
    using assms(2) by (rule alikeE)
  obtain x1 k1 where n1: "ks_NewAccount (ws_ks svc) (ws_passphrase svc) (wl_ks (sv_state s)) = (x1, k1)"
    by (cases "ks_NewAccount (ws_ks svc) (ws_passphrase svc) (wl_ks (sv_state s))")
  obtain x2 k2 where n2: "ks_NewAccount (ws_ks svc) (ws_passphrase svc) k = (x2, k2)"
    by (cases "ks_NewAccount (ws_ks svc) (ws_passphrase svc) k")
  show thesis
    using ks_alikeD(1) [OF assms(1) R, unfolded n1 n2]
    using new failed n1 n2 by (cases x1; cases x2) (auto simp: t on_state_def on_ks_def alike_def)
qed

lemma sim_NewAccount:
  fixes svc :: "('k, 'b) WalletService"
  assumes "ks_alike (ws_ks svc) (ws_passphrase svc) R"
  shows "sim_err R (on_state (on_ks (ks_NewAccount (ws_ks svc) (ws_passphrase svc))) :: (('k, 'b) walletState srv, address) eff)"
  unfolding sim_err_def
proof (intro allI impI)
  fix s t :: "('k, 'b) walletState srv" assume "alike R s t"
  with assms show "same_result (fst (on_state (on_ks (ks_NewAccount (ws_ks svc) (ws_passphrase svc))) s))
      (fst (on_state (on_ks (ks_NewAccount (ws_ks svc) (ws_passphrase svc))) t)) \<and>
    alike R (snd (on_state (on_ks (ks_NewAccount (ws_ks svc) (ws_passphrase svc))) s))
      (snd (on_state (on_ks (ks_NewAccount (ws_ks svc) (ws_passphrase svc))) t))"
    by (rule alike_ks) simp_all
qed

lemma sim_Create:
  assumes "ks_alike (ws_ks svc) (ws_passphrase svc) R"
  shows "sim_err R (wallet_Create eth svc)"
  unfolding wallet_Create_def Let_def
  by (intro sim_err_bnd [OF sim_NewAccount [OF assms]] sim_err_sim sims)

lemma sim_List:
  assumes "ks_alike (ws_ks svc) (ws_passphrase svc) R"
  shows "sim R (on_state (wallet_List eth svc))"
proof (rule simI)
  fix s t x s' assume st: "alike R s t" and run: "on_state (wallet_List eth svc) s = (x, s')"
  obtain k where t: "t = s\<lparr>sv_state := (sv_state s)\<lparr>wl_ks := k\<rparr>\<rparr>" and R: "R (wl_ks (sv_state s)) k"
    using st by (rule alikeE)
  obtain x1 k1 where n1: "ks_Accounts (ws_ks svc) (wl_ks (sv_state s)) = (x1, k1)" by (cases "ks_Accounts (ws_ks svc) (wl_ks (sv_state s))")
  obtain x2 k2 where n2: "ks_Accounts (ws_ks svc) k = (x2, k2)" by (cases "ks_Accounts (ws_ks svc) k")
  obtain as where as: "x1 = Ok as" "x2 = Ok as" "R k1 k2"
    using ks_alikeD(2) [OF assms R, unfolded n1 n2] by (cases x1; cases x2) auto
  show "\<exists>t'. on_state (wallet_List eth svc) t = (x, t') \<and> alike R s' t'"
    using run n1 n2 as by (auto simp: t on_state_def wallet_List_def bnd_def on_ks_def alike_def)
qed

lemma sim_handlers:
  assumes "ks_alike (ws_ks svc) (ws_passphrase svc) R" and "ro \<in> set (walletRoutes eth svc)"
  shows "sim R (ro_handler ro r)"
proof -
  have "sim R (healthz r)" unfolding healthz_def by (rule sims)
  moreover have "sim R (postWallets eth svc r)"
    unfolding postWallets_def by (intro sim_on_err sim_Create [OF assms(1)] sims) simp
  moreover have "sim R (listWallets eth svc r)"
    unfolding listWallets_def by (intro sim_bnd sim_List [OF assms(1)] sims)
  then have "sim R (RequireRole ''admin'' (listWallets eth svc) r)" unfolding RequireRole_def by (simp add: sims)
  ultimately show ?thesis using assms(2) by (auto simp: walletRoutes_def)
qed

lemma alike_w: "alike R s t \<Longrightarrow> sv_w t = sv_w s" "alike R s t \<Longrightarrow> sv_log t = sv_log s"
  "alike R s t \<Longrightarrow> wl_bus (sv_state t) = wl_bus (sv_state s)"
  by (auto elim!: alikeE)

lemma sim_http_Error [sims]: "sim R (http_Error m c)"
  unfolding http_Error_def by (intro sims)

lemma sim_redirectTo [sims]: "sim R (redirectTo code u r)"
proof -
  have "sim R (\<lambda>s. header_edit (f (sv_w s)) s)" for f :: "ResponseWriter \<Rightarrow> header \<Rightarrow> header"
  proof (rule simI)
    fix s t x s' assume st: "alike R s t" and run: "header_edit (f (sv_w s)) s = (x, s')"
    show "\<exists>t'. header_edit (f (sv_w t)) t = (x, t') \<and> alike R s' t'"
      using simD [OF sim_process(4) st run] by (simp add: alike_w(1) [OF st])
  qed
  then show ?thesis unfolding redirectTo_def Let_def by (auto intro!: sims)
qed

lemma sim_ServeMux:
  assumes "\<And>ro r. ro \<in> set rs \<Longrightarrow> sim R (ro_handler ro r)"
  shows "sim R (ServeMux code rs r)"
proof (cases "findHandler rs (rq_Method r) (rq_URL r)")
  case (Handle ro ms)
  then show ?thesis using assms findHandler_in [OF Handle] by (simp add: ServeMux_def)
qed (simp_all add: ServeMux_def, (intro sims)+)

lemma sim_RequestID: "(\<And>r. sim R (h r)) \<Longrightarrow> sim R (RequestID h r)"
  unfolding RequestID_def Let_def by (auto intro!: sims)

lemma sim_Recovery:
  assumes "\<And>r. sim R (h r)"
  shows "sim R (Recovery h r)"
proof (rule simI)
  fix s t x s' assume st: "alike R s t" and run: "Recovery h r s = (x, s')"
  obtain y s1 where y: "h r s = (y, s1)" by (cases "h r s")
  obtain t1 where t1: "h r t = (y, t1)" "alike R s1 t1" using simD [OF assms st y] by blast
  let ?a = "\<lambda>p. bnd (log_write ''ERROR'' ''panic recovered'' [(''panic'', AString p), (''request_id'', AString (RequestIDFrom r))])
      (\<lambda>_. Error 500 ''internal error'') :: (_ srv, unit) eff"
  have a: "sim R (?a p)" for p by (intro sims)
  show "\<exists>t'. Recovery h r t = (x, t') \<and> alike R s' t'"
  proof (cases y)
    case (Panic p)
    then have "?a p s1 = (x, s')" using run y by (simp add: Recovery_def)
    from simD [OF a t1(2) this] show ?thesis using Panic t1(1) by (simp add: Recovery_def)
  qed (use run y t1 in \<open>auto simp: Recovery_def\<close>)
qed

lemma alike_status:
  "alike R s t \<Longrightarrow> alike R (push_status s) (push_status t)" "alike R s t \<Longrightarrow> alike R (pop_status s) (pop_status t)"
  by (erule alikeE, simp add: alike_def push_status_def pop_status_def)+

lemma sim_Logger:
  assumes "\<And>r. sim R (h r)"
  shows "sim R (Logger h r)"
  unfolding Logger_def
proof (rule sim_bnd)
  fix start
  show "sim R (\<lambda>s. case h r (push_status s) of
         (Ok _, s') \<Rightarrow>
           bnd time_Now (\<lambda>stop.
             log_write ''INFO'' ''request''
               [(''method'', AString (rq_Method r)), (''path'', AString (u_Path (rq_URL r))),
                (''status'', AInt (hd (w_wrapped (sv_w s')))), (''duration'', AInt (time_Sub stop start)),
                (''request_id'', AString (RequestIDFrom r))]) (pop_status s')
       | (res, s') \<Rightarrow> (res, pop_status s'))" (is "sim R ?m")
  proof (rule simI)
    fix s t x s' assume st: "alike R s t" and run: "?m s = (x, s')"
    obtain y s1 where y: "h r (push_status s) = (y, s1)" by (cases "h r (push_status s)")
    obtain t1 where t1: "h r (push_status t) = (y, t1)" "alike R s1 t1"
      using simD [OF assms alike_status(1) [OF st] y] by blast
    let ?l = "\<lambda>w. bnd time_Now (\<lambda>stop. log_write ''INFO'' ''request''
               [(''method'', AString (rq_Method r)), (''path'', AString (u_Path (rq_URL r))),
                (''status'', AInt (hd (w_wrapped w))), (''duration'', AInt (time_Sub stop start)),
                (''request_id'', AString (RequestIDFrom r))]) :: (_ srv, unit) eff"
    have l: "sim R (?l w)" for w by (intro sims)
    show "\<exists>t'. ?m t = (x, t') \<and> alike R s' t'"
    proof (cases y)
      case (Ok u)
      then have "?l (sv_w s1) (pop_status s1) = (x, s')" using run y by simp
      from simD [OF l alike_status(2) [OF t1(2)] this] show ?thesis using Ok t1 alike_w(1) [OF t1(2)] by simp
    qed (use run y t1 alike_status(2) [OF t1(2)] in auto)
  qed
qed (rule sims)

lemma sim_walletHandler:
  assumes "ks_alike (ws_ks svc) (ws_passphrase svc) R"
  shows "sim R (walletHandler eth code svc r)"
  unfolding walletHandler_def Chain.simps WalletRoutes_def
  by (intro sim_RequestID sim_Logger sim_Recovery sim_ServeMux sim_handlers [OF assms])

text \<open>The answers to a sequence of requests, each on a response of its own.\<close>

fun serveAll :: "'s handler \<Rightarrow> Request list \<Rightarrow> 's srv \<Rightarrow> (unit result \<times> ResponseWriter) list \<times> 's srv" where
  "serveAll h [] s = ([], s)"
| "serveAll h (r # rs) s =
     (case h r (s\<lparr>sv_w := newWriter\<rparr>) of (x, s1) \<Rightarrow>
       (case serveAll h rs s1 of (ws, s2) \<Rightarrow> ((x, sv_w s1) # ws, s2)))"

lemma alike_newWriter: "alike R s t \<Longrightarrow> alike R (s\<lparr>sv_w := w\<rparr>) (t\<lparr>sv_w := w\<rparr>)"
  by (erule alikeE) (simp add: alike_def)

lemma serveAll_alike:
  assumes "\<And>r. sim R (h r)"
  shows "alike R s t \<Longrightarrow> fst (serveAll h rs s) = fst (serveAll h rs t) \<and> alike R (snd (serveAll h rs s)) (snd (serveAll h rs t))"
proof (induction rs arbitrary: s t)
  case (Cons r rs)
  obtain x s1 where x: "h r (s\<lparr>sv_w := newWriter\<rparr>) = (x, s1)" by (cases "h r (s\<lparr>sv_w := newWriter\<rparr>)")
  obtain t1 where t1: "h r (t\<lparr>sv_w := newWriter\<rparr>) = (x, t1)" "alike R s1 t1"
    using simD [OF assms alike_newWriter [OF Cons.prems] x] by blast
  obtain ws s2 where ws: "serveAll h rs s1 = (ws, s2)" by (cases "serveAll h rs s1")
  obtain vs t2 where vs: "serveAll h rs t1 = (vs, t2)" by (cases "serveAll h rs t1")
  show ?case using Cons.IH [OF t1(2)] alike_w(1) [OF t1(2)] by (simp add: x t1(1) ws vs)
qed simp


section \<open>A keystore for the examples\<close>

record demoKeys =
  dk_seed :: string
  dk_keys :: "(address \<times> string) list"

definition demoKs :: "demoKeys KeyStore" where
  "demoKs =
     \<lparr>ks_NewAccount = (\<lambda>pw k. case List.find (\<lambda>a. a \<notin> fst ` set (dk_keys k)) (map of_nat [0..<Suc (length (dk_keys k))]) of
          None \<Rightarrow> (Err (Opaque (''keystore full: '' @ dk_seed k)), k)
        | Some a \<Rightarrow> (Ok a, k\<lparr>dk_keys := dk_keys k @ [(a, dk_seed k @ pw)]\<rparr>)),
      ks_Accounts = (\<lambda>k. (Ok (remdups (map fst (dk_keys k))), k))\<rparr>"

lemma find_holds: "List.find P xs = Some x \<Longrightarrow> P x"
  by (induction xs) (auto split: if_splits)

lemma demoKs_NewAccount:
  "ks_NewAccount demoKs pw k = (Ok a, k') \<Longrightarrow> a \<notin> fst ` set (dk_keys k) \<and> k' = k\<lparr>dk_keys := dk_keys k @ [(a, dk_seed k @ pw)]\<rparr>"
  "ks_NewAccount demoKs pw k = (Err e, k') \<Longrightarrow> k' = k"
  "ks_NewAccount demoKs pw k \<noteq> (Panic q, k')"
  unfolding demoKs_def KeyStore.simps
  by (cases "List.find (\<lambda>a. a \<notin> fst ` set (dk_keys k)) (map of_nat [0..<Suc (length (dk_keys k))])";
      simp del: upt_Suc; blast dest: find_holds)+

lemma demoKs_lawful: "keystore_lawful demoKs (\<lambda>k. fst ` set (dk_keys k))"
  unfolding keystore_lawful_def
proof (intro conjI allI impI)
  fix pw a and k k' :: demoKeys assume "ks_NewAccount demoKs pw k = (Ok a, k')"
  from demoKs_NewAccount(1) [OF this]
  show "a \<notin> fst ` set (dk_keys k)" and "fst ` set (dk_keys k') = insert a (fst ` set (dk_keys k))" by simp_all
next
  fix pw e and k k' :: demoKeys assume "ks_NewAccount demoKs pw k = (Err e, k')"
  from demoKs_NewAccount(2) [OF this] show "fst ` set (dk_keys k') = fst ` set (dk_keys k)" by simp
next
  fix k :: demoKeys
  show "\<exists>as k'. ks_Accounts demoKs k = (Ok as, k') \<and> distinct as \<and> set as = fst ` set (dk_keys k) \<and>
      fst ` set (dk_keys k') = fst ` set (dk_keys k)"
    by (simp add: demoKs_def)
qed (rule demoKs_NewAccount(3))

definition sameAddresses :: "demoKeys \<Rightarrow> demoKeys \<Rightarrow> bool" where
  "sameAddresses k1 k2 \<longleftrightarrow> map fst (dk_keys k1) = map fst (dk_keys k2)"

lemma demoKs_alike: "ks_alike demoKs pw sameAddresses"
  unfolding ks_alike_def
proof (intro allI impI)
  fix k1 k2 assume R: "sameAddresses k1 k2"
  then have "length (dk_keys k1) = length (dk_keys k2)" "fst ` set (dk_keys k1) = fst ` set (dk_keys k2)"
    unfolding sameAddresses_def by (metis length_map, metis set_map)
  then show "(case (ks_NewAccount demoKs pw k1, ks_NewAccount demoKs pw k2) of
        ((Ok a, k1'), (Ok b, k2')) \<Rightarrow> a = b \<and> sameAddresses k1' k2'
      | ((Err e, k1'), (Err f, k2')) \<Rightarrow> sameAddresses k1' k2'
      | _ \<Rightarrow> False) \<and>
     (case (ks_Accounts demoKs k1, ks_Accounts demoKs k2) of
        ((Ok as, k1'), (Ok bs, k2')) \<Rightarrow> as = bs \<and> sameAddresses k1' k2'
      | _ \<Rightarrow> False)"
    using R by (simp add: demoKs_def sameAddresses_def split: option.splits)
qed

definition demoWalletEth :: "unit Eth" where
  "demoWalletEth = \<lparr>abi_JSON = (\<lambda>_. Ok ()), event_ID = (\<lambda>_ _. 0), UnpackIntoInterface = (\<lambda>_ _ _. Inr 0),
     Pack = (\<lambda>_ _ _. Ok []), Unpack = (\<lambda>_ _ _. Ok []), Hash_Hex = (\<lambda>_. []),
     Address_Hex = (\<lambda>a. ''0x'' @ utoa (unat a)), HexToHash = (\<lambda>_. 0), HexToAddress = (\<lambda>_. 0), IsHexAddress = (\<lambda>_. True)\<rparr>"

definition demoWallets :: "(demoKeys, capture) WalletService" where
  "demoWallets = \<lparr>ws_ks = demoKs, ws_passphrase = ''correct horse'', ws_chainID = 11155111, ws_bus = captureBus\<rparr>"

definition demoWalletState :: "string \<Rightarrow> (demoKeys, capture) walletState srv" where
  "demoWalletState seed = userSrv \<lparr>wl_ks = \<lparr>dk_seed = seed, dk_keys = []\<rparr>, wl_created = Map.empty, wl_bus = []\<rparr>"


section \<open>Properties\<close>

text \<open>What a request answered with 201 has done.\<close>

lemma fresh_newWriter: "sv_w t = newWriter \<Longrightarrow> fresh t"
  by (simp add: fresh_def newWriter_def)

lemma post_wallet_created:
  assumes "keystore_lawful (ws_ks svc) accts"
    and "postWallets eth svc p (s\<lparr>sv_w := newWriter\<rparr>) = (x, s1)" and "w_code (sv_w s1) = Some 201"
  obtains a where "remembers accts a (wall (sv_clock s 0)) (sv_state s1)"
    and "sv_w s1 = answered 201 (wallet_any \<lparr>wa_Address = Address_Hex eth a, wa_CreatedAt = wall (sv_clock s 0)\<rparr>) newWriter"
proof -
  let ?s = "s\<lparr>sv_w := newWriter\<rparr>"
  obtain y s' where y: "wallet_Create eth svc ?s = (y, s')" by (cases "wallet_Create eth svc ?s")
  from assms(1) y show thesis
  proof (cases rule: wallet_Create_cases)
    case (failed e)
    then have "s1 = s'\<lparr>sv_w := answered 500 (AMap [(''error'', AString ''could not create wallet'')]) (sv_w s')\<rparr>"
      using assms(2) y Error_fresh [OF fresh_newWriter, of s' 500 "''could not create wallet''"] by (simp add: postWallets_def on_err_def)
    then show thesis using assms(3) by (simp add: answered_def)
  next
    case (created a)
    let ?w = "\<lparr>wa_Address = Address_Hex eth a, wa_CreatedAt = wall (sv_clock s 0)\<rparr>"
    have w: "sv_w s' = newWriter" using created(6) by simp
    have "y \<noteq> Panic q" for q
    proof
      assume "y = Panic q"
      then have "s1 = s'" using assms(2) y by (simp add: postWallets_def on_err_def)
      then show False using assms(3) w by (simp add: newWriter_def)
    qed
    then have "y = Ok ?w" using created(1) by auto
    then have "s1 = s'\<lparr>sv_w := answered 201 (wallet_any ?w) newWriter\<rparr>"
      using assms(2) y JSON_fresh [OF fresh_newWriter [OF w], of 201 "wallet_any ?w"] w by (simp add: postWallets_def on_err_def)
    then show thesis using that [of a] created(3,4) w by (simp add: remembers_def)
  qed
qed

text \<open>The answer to a listing holds every wallet the service remembers.\<close>

lemma list_wallet_remembered:
  assumes "keystore_lawful (ws_ks svc) accts" and "remembers accts a c (sv_state t)" and "sv_w t = newWriter"
    and "header_Get (rq_Header g) ''X-Auth-Role'' = ''admin''"
    and "rq_Method g = ''GET''" and "rq_URL g = \<lparr>u_Scheme = [], u_Host = [], u_Path = ''/wallets'', u_RawPath = [], u_RawQuery = []\<rparr>"
  shows "\<exists>ws s2. WalletRoutes eth code svc g t = (Ok (), s2) \<and> sv_w s2 = answered 200 (ASlice (map wallet_any ws)) newWriter \<and>
    \<lparr>wa_Address = Address_Hex eth a, wa_CreatedAt = c\<rparr> \<in> set ws"
proof -
  obtain as k' where l: "set as = accts (wl_ks (sv_state t))" "wallet_List eth svc (sv_state t) =
      (Ok (map (\<lambda>a. \<lparr>wa_Address = Address_Hex eth a, wa_CreatedAt = createdAt (wl_created (sv_state t)) a\<rparr>) as), (sv_state t)\<lparr>wl_ks := k'\<rparr>)"
    using wallet_List_run [OF assms(1), of "sv_state t" eth] by blast
  let ?ws = "map (\<lambda>a. \<lparr>wa_Address = Address_Hex eth a, wa_CreatedAt = createdAt (wl_created (sv_state t)) a\<rparr>) as"
  let ?t = "t\<lparr>sv_state := (sv_state t)\<lparr>wl_ks := k'\<rparr>\<rparr>"
  have "WalletRoutes eth code svc g t = (Ok (), ?t\<lparr>sv_w := answered 200 (ASlice (map wallet_any ?ws)) newWriter\<rparr>)"
    using l(2) JSON_fresh [OF fresh_newWriter, of ?t 200 "ASlice (map wallet_any ?ws)"] assms(3,4)
    by (simp add: wallets_handlers(1) [OF assms(6,5)] RequireRole_def HeaderRole_def listWallets_def bnd_def on_state_def del: map_map)
  moreover have "\<lparr>wa_Address = Address_Hex eth a, wa_CreatedAt = c\<rparr> \<in> set ?ws"
    using assms(2) l(1) by (auto simp: remembers_def createdAt_def intro!: image_eqI [of _ _ a])
  ultimately show ?thesis by (intro exI [of _ ?ws] exI [of _ "?t\<lparr>sv_w := answered 200 (ASlice (map wallet_any ?ws)) newWriter\<rparr>"]) simp
qed

text \<open>C21. A created wallet stays listed: when \<^verbatim>\<open>POST /wallets\<close> has answered 201 with a wallet, then after any further
  requests in any order \<^verbatim>\<open>GET /wallets\<close> for an administrator answers 200 with a list that contains this wallet,
  with the creation time the first answer had.\<close>

theorem created_wallet_listed:
  assumes "keystore_lawful (ws_ks svc) accts"
    and "rq_Method p = ''POST''" and "rq_URL p = \<lparr>u_Scheme = [], u_Host = [], u_Path = ''/wallets'', u_RawPath = [], u_RawQuery = []\<rparr>"
    and "WalletRoutes eth code svc p (s\<lparr>sv_w := newWriter\<rparr>) = (x, s1)" and "w_code (sv_w s1) = Some 201"
    and "rq_Method g = ''GET''" and "rq_URL g = \<lparr>u_Scheme = [], u_Host = [], u_Path = ''/wallets'', u_RawPath = [], u_RawQuery = []\<rparr>"
    and "header_Get (rq_Header g) ''X-Auth-Role'' = ''admin''"
  shows "\<exists>w ws s2. sv_w s1 = answered 201 (wallet_any w) newWriter \<and> wa_CreatedAt w = wall (sv_clock s 0) \<and>
    WalletRoutes eth code svc g ((handle_all (WalletRoutes eth code svc) rs s1)\<lparr>sv_w := newWriter\<rparr>) = (Ok (), s2) \<and>
    sv_w s2 = answered 200 (ASlice (map wallet_any ws)) newWriter \<and> w \<in> set ws"
proof -
  have "postWallets eth svc (p\<lparr>rq_pathValues := []\<rparr>) (s\<lparr>sv_w := newWriter\<rparr>) = (x, s1)"
    using assms(4) by (simp add: wallets_handlers(2) [OF assms(3,2)])
  from post_wallet_created [OF assms(1) this assms(5)] obtain a where rem: "remembers accts a (wall (sv_clock s 0)) (sv_state s1)"
    and s1: "sv_w s1 = answered 201 (wallet_any \<lparr>wa_Address = Address_Hex eth a, wa_CreatedAt = wall (sv_clock s 0)\<rparr>) newWriter" .
  let ?t = "(handle_all (WalletRoutes eth code svc) rs s1)\<lparr>sv_w := newWriter\<rparr>"
  have "remembers accts a (wall (sv_clock s 0)) (sv_state ?t)" using handle_all_remembers [OF assms(1) rem] by simp
  from list_wallet_remembered [OF assms(1) this _ assms(8,6,7), of eth code]
  obtain ws s2 where "WalletRoutes eth code svc g ?t = (Ok (), s2)" "sv_w s2 = answered 200 (ASlice (map wallet_any ws)) newWriter"
    "\<lparr>wa_Address = Address_Hex eth a, wa_CreatedAt = wall (sv_clock s 0)\<rparr> \<in> set ws" by auto
  then show ?thesis
    using s1 by (intro exI [of _ "\<lparr>wa_Address = Address_Hex eth a, wa_CreatedAt = wall (sv_clock s 0)\<rparr>"] exI [of _ ws] exI [of _ s2]) simp
qed

theorem created_wallet_listed_witness:
  "\<exists>w ws s2. sv_w (snd (WalletRoutes demoWalletEth 301 demoWallets (userRequest ''POST'' ''/wallets'' Map.empty) (demoWalletState ''seed''))) =
      answered 201 (wallet_any w) newWriter \<and> wa_CreatedAt w = 1500 \<and>
    WalletRoutes demoWalletEth 301 demoWallets (userRequest ''GET'' ''/wallets'' [''X-Auth-Role'' \<mapsto> [''admin'']])
      ((handle_all (WalletRoutes demoWalletEth 301 demoWallets)
         [userRequest ''GET'' ''/healthz'' Map.empty, userRequest ''POST'' ''/wallets'' Map.empty]
         (snd (WalletRoutes demoWalletEth 301 demoWallets (userRequest ''POST'' ''/wallets'' Map.empty) (demoWalletState ''seed''))))\<lparr>sv_w := newWriter\<rparr>) =
      (Ok (), s2) \<and>
    sv_w s2 = answered 200 (ASlice (map wallet_any ws)) newWriter \<and> w \<in> set ws"
proof -
  let ?p = "userRequest ''POST'' ''/wallets'' Map.empty" and ?g = "userRequest ''GET'' ''/wallets'' [''X-Auth-Role'' \<mapsto> [''admin'']]"
  have law: "keystore_lawful (ws_ks demoWallets) (\<lambda>k. fst ` set (dk_keys k))" by (simp add: demoWallets_def demoKs_lawful)
  have url: "rq_URL ?p = \<lparr>u_Scheme = [], u_Host = [], u_Path = ''/wallets'', u_RawPath = [], u_RawQuery = []\<rparr>" "rq_Method ?p = ''POST''"
    "rq_URL ?g = \<lparr>u_Scheme = [], u_Host = [], u_Path = ''/wallets'', u_RawPath = [], u_RawQuery = []\<rparr>" "rq_Method ?g = ''GET''"
    by (simp_all add: userRequest_def)
  have st: "(demoWalletState ''seed'')\<lparr>sv_w := newWriter\<rparr> = demoWalletState ''seed''" by (simp add: demoWalletState_def userSrv_def)
  obtain w s' where c: "wallet_Create demoWalletEth demoWallets (demoWalletState ''seed'') = (Ok w, s')" "fresh s'"
    by (simp add: wallet_Create_def bnd_def on_state_def on_ks_def demoWallets_def demoKs_def demoWalletState_def userSrv_def
        noteCreated_def Let_def on_wbus_def captureBus_def ignore_err_def ret_def time_Now_def fresh_def newWriter_def)
  have "w_code (sv_w (snd (WalletRoutes demoWalletEth 301 demoWallets ?p (demoWalletState ''seed'')))) = Some 201"
    by (simp add: wallets_handlers(2) [OF url(1,2)] postWallets_def on_err_def c JSON_fresh answered_def)
  moreover have "header_Get (rq_Header ?g) ''X-Auth-Role'' = ''admin''" by code_simp
  moreover have "wall (sv_clock (demoWalletState ''seed'') 0) = 1500" by (simp add: demoWalletState_def userSrv_def)
  ultimately show ?thesis
    using created_wallet_listed [of demoWallets _ ?p demoWalletEth 301 "demoWalletState ''seed''", OF law url(2,1) _ _ url(4,3),
      unfolded st, OF prod.collapse [symmetric], of "[userRequest ''GET'' ''/healthz'' Map.empty, ?p]"] by simp
qed

text \<open>C20. Keys stay in the keystore: two processes whose keystores issue and list the same addresses but hold other
  keys give the same answers to any sequence of requests (status, headers and body), write the same log and
  publish the same events; nothing but addresses leaves the service.\<close>

theorem wallet_answers_hide_keys:
  assumes "ks_alike (ws_ks svc) (ws_passphrase svc) R" and "R (wl_ks (sv_state s)) k"
  shows "fst (serveAll (walletHandler eth code svc) rs (s\<lparr>sv_state := (sv_state s)\<lparr>wl_ks := k\<rparr>\<rparr>)) =
      fst (serveAll (walletHandler eth code svc) rs s) \<and>
    sv_log (snd (serveAll (walletHandler eth code svc) rs (s\<lparr>sv_state := (sv_state s)\<lparr>wl_ks := k\<rparr>\<rparr>))) =
      sv_log (snd (serveAll (walletHandler eth code svc) rs s)) \<and>
    wl_bus (sv_state (snd (serveAll (walletHandler eth code svc) rs (s\<lparr>sv_state := (sv_state s)\<lparr>wl_ks := k\<rparr>\<rparr>)))) =
      wl_bus (sv_state (snd (serveAll (walletHandler eth code svc) rs s)))"
proof -
  let ?h = "walletHandler eth code svc" and ?t = "s\<lparr>sv_state := (sv_state s)\<lparr>wl_ks := k\<rparr>\<rparr>"
  have st: "alike R s ?t" by (rule alikeI) (rule assms(2))
  have h: "sim R (?h r)" for r by (rule sim_walletHandler) (rule assms(1))
  have "fst (serveAll ?h rs s) = fst (serveAll ?h rs ?t)" "alike R (snd (serveAll ?h rs s)) (snd (serveAll ?h rs ?t))"
    using serveAll_alike [of R ?h, OF h st] by (rule conjunct1, rule conjunct2)
  then show ?thesis using alike_w(2,3) [of R "snd (serveAll ?h rs s)" "snd (serveAll ?h rs ?t)"] by simp
qed

theorem wallet_answers_hide_keys_witness:
  "fst (serveAll (walletHandler demoWalletEth 301 demoWallets)
      [userRequest ''POST'' ''/wallets'' Map.empty, userRequest ''GET'' ''/wallets'' [''X-Auth-Role'' \<mapsto> [''admin'']]] (demoWalletState ''seed one'')) =
   fst (serveAll (walletHandler demoWalletEth 301 demoWallets)
      [userRequest ''POST'' ''/wallets'' Map.empty, userRequest ''GET'' ''/wallets'' [''X-Auth-Role'' \<mapsto> [''admin'']]] (demoWalletState ''seed two''))"
proof -
  have a: "ks_alike (ws_ks demoWallets) (ws_passphrase demoWallets) sameAddresses" by (simp add: demoWallets_def demoKs_alike)
  have R: "sameAddresses (wl_ks (sv_state (demoWalletState ''seed two''))) \<lparr>dk_seed = ''seed one'', dk_keys = []\<rparr>"
    by (simp add: demoWalletState_def userSrv_def sameAddresses_def)
  have "(demoWalletState ''seed two'')\<lparr>sv_state := (sv_state (demoWalletState ''seed two''))\<lparr>wl_ks := \<lparr>dk_seed = ''seed one'', dk_keys = []\<rparr>\<rparr>\<rparr> =
      demoWalletState ''seed one''"
    by (simp add: demoWalletState_def userSrv_def)
  with wallet_answers_hide_keys [where svc = demoWallets and eth = demoWalletEth and code = 301, OF a R]
  show ?thesis by (simp del: serveAll.simps)
qed

end
