(* ===== verification/User_Refinement.thy ===== *)
theory User_Refinement
  imports User_Props
begin

text \<open>
  The two implementations of the user service's \<^verbatim>\<open>Store\<close> against one abstract specification: a set of users with unique
  emails. The simulation is proved once, in the locale \<open>reliable_user_store\<close>, and holds for the in-memory store and for
  the Postgres store while its connection holds.
\<close>

section \<open>The specification\<close>

datatype userOp = OpCreate User | OpGet string | OpList

datatype userAnswer = Created | Conflict | Found "User set" | Users "User set" | Failed error

text \<open>\<open>keep u\<close> is the form in which a user is kept.\<close>

fun specStep :: "(User \<Rightarrow> User) \<Rightarrow> userOp \<Rightarrow> User set \<Rightarrow> userAnswer \<times> User set" where
  "specStep keep (OpCreate u) us =
     (if us_Email u \<in> us_Email ` us then (Conflict, us) else (Created, insert (keep u) us))"
| "specStep keep (OpGet i) us = (Found (Set.filter (\<lambda>u. us_ID u = i) us), us)"
| "specStep keep OpList us = (Users us, us)"

fun specRun :: "(User \<Rightarrow> User) \<Rightarrow> userOp list \<Rightarrow> User set \<Rightarrow> userAnswer list \<times> User set" where
  "specRun keep [] us = ([], us)"
| "specRun keep (op # ops) us =
     (case specStep keep op us of (a, us1) \<Rightarrow> (case specRun keep ops us1 of (as, us2) \<Rightarrow> (a # as, us2)))"

text \<open>What a caller of a store sees, with the order of a listing left open.\<close>

definition failure :: "error \<Rightarrow> userAnswer" where
  "failure e = (if e = ErrConflict then Conflict else if e = ErrNotFound then Found {} else Failed e)"

fun storeStep :: "'s UserStore \<Rightarrow> userOp \<Rightarrow> 's \<Rightarrow> userAnswer \<times> 's" where
  "storeStep store (OpCreate u) s =
     (case user_Create store u s of
        (Ok _, s') \<Rightarrow> (Created, s') | (Err e, s') \<Rightarrow> (failure e, s') | (Panic p, s') \<Rightarrow> (Failed (Opaque p), s'))"
| "storeStep store (OpGet i) s =
     (case user_Get store i s of
        (Ok u, s') \<Rightarrow> (Found {u}, s') | (Err e, s') \<Rightarrow> (failure e, s') | (Panic p, s') \<Rightarrow> (Failed (Opaque p), s'))"
| "storeStep store OpList s =
     (case user_List store s of
        (Ok l, s') \<Rightarrow> (Users (set (case l of None \<Rightarrow> [] | Some xs \<Rightarrow> xs)), s')
      | (Err e, s') \<Rightarrow> (failure e, s') | (Panic p, s') \<Rightarrow> (Failed (Opaque p), s'))"

fun storeRun :: "'s UserStore \<Rightarrow> userOp list \<Rightarrow> 's \<Rightarrow> userAnswer list \<times> 's" where
  "storeRun store [] s = ([], s)"
| "storeRun store (op # ops) s =
     (case storeStep store op s of (a, s1) \<Rightarrow> (case storeRun store ops s1 of (as, s2) \<Rightarrow> (a # as, s2)))"

text \<open>The identifiers of the users created, and operations whose texts a TEXT column accepts.\<close>

fun createdIds :: "userOp list \<Rightarrow> string list" where
  "createdIds [] = []"
| "createdIds (OpCreate u # ops) = us_ID u # createdIds ops"
| "createdIds (OpGet i # ops) = createdIds ops"
| "createdIds (OpList # ops) = createdIds ops"

fun opTexts :: "userOp \<Rightarrow> bool" where
  "opTexts (OpCreate u) = (textArg (us_ID u) = Ok (us_ID u) \<and> textArg (us_Email u) = Ok (us_Email u))"
| "opTexts (OpGet i) = (textArg i = Ok i)"
| "opTexts OpList = True"


section \<open>The simulation\<close>

locale reliable_user_store = user_store store users ok stored
  for store :: "'s UserStore" and users :: "'s \<Rightarrow> User set" and ok :: "'s \<Rightarrow> bool" and stored :: "User \<Rightarrow> User" +
  fixes calm :: "'s \<Rightarrow> bool"
  assumes create_calm: "ok s \<Longrightarrow> calm s \<Longrightarrow> opTexts (OpCreate u) \<Longrightarrow> us_ID u \<notin> us_ID ` users s \<Longrightarrow>
      \<exists>s'. user_Create store u s = (if us_Email u \<in> us_Email ` users s then Err ErrConflict else Ok (), s') \<and> calm s'"
    and get_calm: "ok s \<Longrightarrow> calm s \<Longrightarrow> opTexts (OpGet i) \<Longrightarrow>
      (\<exists>u s'. user_Get store i s = (Ok u, s') \<and> calm s') \<or> (\<exists>s'. user_Get store i s = (Err ErrNotFound, s') \<and> calm s')"
    and list_calm: "ok s \<Longrightarrow> calm s \<Longrightarrow> \<exists>l s'. user_List store s = (Ok l, s') \<and> calm s'"
begin

lemma step_refines:
  assumes "ok s" and "calm s" and "opTexts op" and "set (createdIds [op]) \<inter> us_ID ` users s = {}"
  shows "\<exists>s'. storeStep store op s = (fst (specStep stored op (users s)), s') \<and> ok s' \<and> calm s' \<and>
    users s' = snd (specStep stored op (users s)) \<and> us_ID ` users s' \<subseteq> us_ID ` users s \<union> set (createdIds [op])"
proof (cases op)
  case (OpCreate u)
  have new: "us_ID u \<notin> us_ID ` users s" using assms(4) OpCreate by simp
  obtain s' where c: "user_Create store u s = (if us_Email u \<in> us_Email ` users s then Err ErrConflict else Ok (), s')" "calm s'"
    using create_calm [OF assms(1,2) _ new] assms(3) OpCreate by blast
  show ?thesis
  proof (cases "us_Email u \<in> us_Email ` users s")
    case True
    have "ok s' \<and> users s' = users s" using create_err [OF assms(1), of u ErrConflict s'] c(1) True by auto
    then show ?thesis using True c OpCreate by (auto simp: failure_def)
  next
    case False
    have "ok s' \<and> users s' = add_user (stored u) (users s)" using create_ok [OF assms(1), of u "()" s'] c(1) False by auto
    moreover have "add_user (stored u) (users s) = insert (stored u) (users s)"
      using new by (auto simp: add_user_def stored_keys image_iff)
    ultimately show ?thesis using False c OpCreate by (auto simp: stored_keys)
  qed
next
  case (OpGet i)
  then consider u s' where "user_Get store i s = (Ok u, s')" "calm s'" | s' where "user_Get store i s = (Err ErrNotFound, s')" "calm s'"
    using get_calm [OF assms(1,2)] assms(3) by blast
  then show ?thesis
  proof cases
    case (1 u s')
    from get_ok [OF assms(1) 1(1)] have g: "ok s'" "users s' = users s" "u \<in> users s" "us_ID u = i" by auto
    have "Set.filter (\<lambda>u. us_ID u = i) (users s) = {u}"
      using g(3,4) unique [OF assms(1)] by (auto simp: unique_users_def inj_on_def)
    then show ?thesis using 1 g OpGet by simp
  next
    case (2 s')
    from get_err [OF assms(1) 2(1)] have g: "ok s'" "users s' = users s" "i \<notin> us_ID ` users s" by auto
    then have "Set.filter (\<lambda>u. us_ID u = i) (users s) = {}" by auto
    then show ?thesis using 2 g OpGet by (simp add: failure_def ErrNotFound_def ErrConflict_def)
  qed
next
  case OpList
  obtain l s' where l: "user_List store s = (Ok l, s')" "calm s'" using list_calm [OF assms(1,2)] by blast
  from list_ok [OF assms(1) l(1)] show ?thesis using l OpList by simp
qed

lemma run_refines:
  assumes "ok s" and "calm s" and "\<forall>op \<in> set ops. opTexts op"
    and "distinct (createdIds ops)" and "set (createdIds ops) \<inter> us_ID ` users s = {}"
  shows "fst (storeRun store ops s) = fst (specRun stored ops (users s)) \<and>
    users (snd (storeRun store ops s)) = snd (specRun stored ops (users s))"
  using assms
proof (induction ops arbitrary: s)
  case (Cons op ops)
  have ids: "createdIds (op # ops) = createdIds [op] @ createdIds ops" by (cases op) simp_all
  obtain s' where s': "storeStep store op s = (fst (specStep stored op (users s)), s')" "ok s'" "calm s'"
      "users s' = snd (specStep stored op (users s))" "us_ID ` users s' \<subseteq> us_ID ` users s \<union> set (createdIds [op])"
  proof -
    have "opTexts op" "set (createdIds [op]) \<inter> us_ID ` users s = {}" using Cons.prems(3,5) unfolding ids by auto
    from step_refines [OF Cons.prems(1,2) this] show thesis using that by blast
  qed
  have "fst (storeRun store ops s') = fst (specRun stored ops (users s')) \<and>
      users (snd (storeRun store ops s')) = snd (specRun stored ops (users s'))"
  proof (rule Cons.IH [OF s'(2,3)])
    show "\<forall>op \<in> set ops. opTexts op" "distinct (createdIds ops)" using Cons.prems(3,4) unfolding ids by auto
    have "set (createdIds ops) \<inter> (us_ID ` users s \<union> set (createdIds [op])) = {}" using Cons.prems(4,5) unfolding ids by auto
    then show "set (createdIds ops) \<inter> us_ID ` users s' = {}" using s'(5) by (meson disjoint_iff subsetD)
  qed
  then show ?case using s' by (simp add: case_prod_unfold)
qed simp

end


section \<open>The implementations\<close>

interpretation memr: reliable_user_store "memUserStore iter" mem_users "mem_user_ok iter" id "\<lambda>_. True" for iter
proof
  fix s u assume "mem_user_ok iter s"
  show "\<exists>s'. user_Create (memUserStore iter) u s = (if us_Email u \<in> us_Email ` mem_users s then Err ErrConflict else Ok (), s') \<and> True"
    by (simp add: memUserStore_def mem_user_Create_def mem_users_def image_iff) (metis snd_conv)
next
  fix s i
  show "(\<exists>u s'. user_Get (memUserStore iter) i s = (Ok u, s') \<and> True) \<or> (\<exists>s'. user_Get (memUserStore iter) i s = (Err ErrNotFound, s') \<and> True)"
    by (cases "map_of (um_users s) i") (simp_all add: memUserStore_def mem_user_Get_def)
next
  fix s
  show "\<exists>l s'. user_List (memUserStore iter) s = (Ok l, s') \<and> True"
    by (simp add: memUserStore_def mem_user_List_def)
qed

interpretation pgr: reliable_user_store "pgUserStore iter" pg_user_set "pg_user_ok iter" pg_stored "\<lambda>db. up_faults db = []" for iter
proof
  fix s :: UserPgDB and u assume calm: "up_faults s = []" and ok: "opTexts (OpCreate u)" and new: "us_ID u \<notin> us_ID ` pg_user_set s"
  then show "\<exists>s'. user_Create (pgUserStore iter) u s =
      (if us_Email u \<in> us_Email ` pg_user_set s then Err ErrConflict else Ok (), s') \<and> up_faults s' = []"
    by (simp add: pgUserStore_def pg_user_Create_def insertUser_def Let_def pg_user_set_def)
next
  fix s :: UserPgDB and i assume calm: "up_faults s = []" and ok: "opTexts (OpGet i)"
  then show "(\<exists>u s'. user_Get (pgUserStore iter) i s = (Ok u, s') \<and> up_faults s' = []) \<or>
      (\<exists>s'. user_Get (pgUserStore iter) i s = (Err ErrNotFound, s') \<and> up_faults s' = [])"
    by (cases "filter (\<lambda>u. us_ID u = i) (up_rows s)")
       (simp_all add: pgUserStore_def pg_user_Get_def Let_def ErrNoRows_def)
next
  fix s :: UserPgDB assume "up_faults s = []"
  then show "\<exists>l s'. user_List (pgUserStore iter) s = (Ok l, s') \<and> up_faults s' = []"
    by (simp add: pgUserStore_def pg_user_List_def)
qed


section \<open>Properties\<close>



end
