(* ===== verification/Loadtest.thy ===== *)
theory Loadtest
  imports Process Go_Proxy "HOL-Library.Multiset"
begin

text \<open>
  \<^verbatim>\<open>loadtest/main.go\<close>: the load generator. Workers send requests until the deadline, count the outcomes in shared
  atomic counters and keep the latencies of the successful ones; \<open>report\<close> prints totals and percentiles. The
  interleaving of the workers is an explicit sequence of events. The command line and the HTTP client are arguments.
\<close>

section \<open>Durations as text\<close>

text \<open>\<^verbatim>\<open>Duration.Round\<close>\<close>

definition dur_Round :: "int \<Rightarrow> int \<Rightarrow> int" where
  "dur_Round d m =
     (if m \<le> 0 then d
      else if d < 0 then
        (let r = - (d smod m) in
         if 2 * r < m then d + r
         else if minDuration \<le> d - m + r then d - m + r else minDuration)
      else
        (let r = d smod m in
         if 2 * r < m then d - r
         else if d + m - r \<le> maxDuration then d + m - r else maxDuration))"

text \<open>\<^verbatim>\<open>fmtFrac\<close>: the last \<open>prec\<close> decimal digits as a fraction, without trailing zeros and without a bare point.\<close>

definition fmtFrac :: "nat \<Rightarrow> nat \<Rightarrow> string" where
  "fmtFrac v prec =
     (let ds = rev (dropWhile (\<lambda>c. c = CHR ''0'') (rev (digits prec (v mod 10 ^ prec)))) in
      if ds = [] then [] else CHR ''.'' # ds)"

text \<open>\<^verbatim>\<open>Duration.String\<close>\<close>

definition dur_String :: "int \<Rightarrow> string" where
  "dur_String d =
     (let u = nat \<bar>d\<bar>;
          body = (if u = 0 then ''0s''
            else if u < 10 ^ 3 then utoa u @ ''ns''
            else if u < 10 ^ 6 then utoa (u div 10 ^ 3) @ fmtFrac u 3 @ [CHR 0xC2, CHR 0xB5] @ ''s''
            else if u < 10 ^ 9 then utoa (u div 10 ^ 6) @ fmtFrac u 6 @ ''ms''
            else let s = u div 10 ^ 9; m = s div 60; h = m div 60 in
              (if 0 < h then utoa h @ ''h'' else []) @ (if 0 < m then utoa (m mod 60) @ ''m'' else []) @
              utoa (s mod 60) @ fmtFrac u 9 @ ''s'')
      in if d < 0 then ''-'' @ body else body)"


section \<open>Requests\<close>

text \<open>\<^verbatim>\<open>do\<close>: the status of the answer, zero when the request cannot be built or sent. \<open>newRequest\<close> is \<^verbatim>\<open>http.NewRequest\<close>
  for a GET without a body, \<open>clientDo\<close> is \<^verbatim>\<open>client.Do\<close>.\<close>

definition load_do ::
  "(string \<Rightarrow> Request result) \<Rightarrow> (Request \<Rightarrow> ('n, Response) eff) \<Rightarrow> string \<Rightarrow> string \<Rightarrow> ('n, int) eff" where
  "load_do newRequest clientDo url token n =
     (case newRequest url of
        Ok req \<Rightarrow>
          (let req' = (if token \<noteq> [] then req\<lparr>rq_Header := header_Set ''Authorization'' (''Bearer '' @ token) (rq_Header req)\<rparr> else req)
           in case clientDo req' n of
                (Ok resp, n') \<Rightarrow> (Ok (rs_StatusCode resp), n')
              | (Err e, n') \<Rightarrow> (Ok 0, n')
              | (Panic p, n') \<Rightarrow> (Panic p, n'))
      | Err e \<Rightarrow> (Ok 0, n)
      | Panic p \<Rightarrow> (Panic p, n))"


section \<open>Workers\<close>

record tally =
  lt_ok :: int
  lt_failed :: int
  lt_local :: "nat \<Rightarrow> int list"
  lt_latencies :: "int list"

definition emptyTally :: tally where
  "emptyTally = \<lparr>lt_ok = 0, lt_failed = 0, lt_local = (\<lambda>_. []), lt_latencies = []\<rparr>"

text \<open>One turn of a worker's loop with the status and the latency it measured, and the end of a worker.\<close>

datatype loadEvent = Turn nat int int | Done nat

definition successful :: "int \<Rightarrow> bool" where
  "successful code \<longleftrightarrow> 200 \<le> code \<and> code < 400"

fun tallyStep :: "loadEvent \<Rightarrow> tally \<Rightarrow> tally" where
  "tallyStep (Turn i code lat) t =
     (if successful code then t\<lparr>lt_ok := lt_ok t + 1, lt_local := (lt_local t)(i := lt_local t i @ [lat])\<rparr>
      else t\<lparr>lt_failed := lt_failed t + 1\<rparr>)"
| "tallyStep (Done i) t = t\<lparr>lt_latencies := lt_latencies t @ lt_local t i\<rparr>"

definition tallyAll :: "loadEvent list \<Rightarrow> tally" where
  "tallyAll es = fold tallyStep es emptyTally"

text \<open>An interleaving of \<open>c\<close> workers: every worker ends once, after its turns.\<close>

fun interleaving :: "nat set \<Rightarrow> loadEvent list \<Rightarrow> bool" where
  "interleaving live [] = (live = {})"
| "interleaving live (Turn i code lat # es) = (i \<in> live \<and> interleaving live es)"
| "interleaving live (Done i # es) = (i \<in> live \<and> interleaving (live - {i}) es)"


section \<open>The report\<close>

definition pct :: "int list \<Rightarrow> int \<Rightarrow> int result" where
  "pct srt p =
     (if length srt = 0 then Ok 0
      else let n = int (length srt); idx0 = (p * n) sdiv 100; idx = (if n \<le> idx0 then n - 1 else idx0)
           in if idx < 0 then Panic ''index out of range'' else Ok (srt ! nat idx))"

text \<open>\<^verbatim>\<open>%.0f\<close> of \<^verbatim>\<open>float64(ok) / elapsed.Seconds()\<close>\<close>

definition throughput :: "int \<Rightarrow> int \<Rightarrow> string" where
  "throughput elapsed ok =
     (let s = Seconds elapsed in
      if s = 0 then (if ok = 0 then ''NaN'' else ''+Inf'')
      else itoa (roundEven (fl (fl (of_int ok) / s))))"

definition latencyText :: "string \<Rightarrow> int \<Rightarrow> string" where
  "latencyText name d = ''latency '' @ name @ '':  '' @ dur_String (dur_Round d 1000)"

definition latencyLine :: "string \<Rightarrow> int list \<Rightarrow> int \<Rightarrow> string result" where
  "latencyLine name srt p = bind_result (pct srt p) (\<lambda>d. Ok (latencyText name d))"

text \<open>The lines on standard output and on standard error.\<close>

definition load_report :: "int \<Rightarrow> int \<Rightarrow> int \<Rightarrow> int list \<Rightarrow> int \<Rightarrow> (string list \<times> string list) result" where
  "load_report elapsed ok failed lat c =
     (let total = ok + failed; srt = sort lat;
          top = [''duration:     '' @ dur_String (dur_Round elapsed (10 ^ 6)),
                 ''concurrency:  '' @ itoa c,
                 ''requests:     '' @ itoa total @ '' (ok='' @ itoa ok @ '' failed='' @ itoa failed @ '')'',
                 ''throughput:   '' @ throughput elapsed ok @ '' req/s''];
          note = (if 0 < failed then [''note: '' @ itoa failed @ '' requests failed (non-2xx/3xx)''] else [])
      in if length srt = 0 then Ok (top, note)
         else bind_result (latencyLine ''p50'' srt 50) (\<lambda>a.
              bind_result (latencyLine ''p90'' srt 90) (\<lambda>b.
              bind_result (latencyLine ''p99'' srt 99) (\<lambda>d.
              Ok (top @ [a, b, d], note)))))"

text \<open>A schedule says which worker's turn comes next, with the latency it will measure, and when a worker ends; the
  requests go out in this order.\<close>

datatype turn = Send nat int | Stop nat

fun load_events :: "('n, int) eff \<Rightarrow> turn list \<Rightarrow> ('n, loadEvent list) eff" where
  "load_events request [] = ret []"
| "load_events request (Send i lat # ts) =
     bnd request (\<lambda>code. bnd (load_events request ts) (\<lambda>es. ret (Turn i code lat # es)))"
| "load_events request (Stop i # ts) =
     bnd (load_events request ts) (\<lambda>es. ret (Done i # es))"

definition load_main ::
  "(string \<Rightarrow> Request result) \<Rightarrow> (Request \<Rightarrow> ('n, Response) eff) \<Rightarrow> string \<Rightarrow> string \<Rightarrow> int \<Rightarrow> turn list \<Rightarrow> int \<Rightarrow>
   ('n, string list \<times> string list) eff" where
  "load_main newRequest clientDo url token c sched elapsed =
     bnd (load_events (load_do newRequest clientDo url token) sched) (\<lambda>es.
       let t = tallyAll es in lift (load_report elapsed (lt_ok t) (lt_failed t) (lt_latencies t) c))"


section \<open>Laws\<close>

fun turns :: "loadEvent list \<Rightarrow> (int \<times> int) list" where
  "turns [] = []"
| "turns (Turn i code lat # es) = (code, lat) # turns es"
| "turns (Done i # es) = turns es"

definition goodLatencies :: "loadEvent list \<Rightarrow> int list" where
  "goodLatencies es = map snd (filter (\<lambda>(code, lat). successful code) (turns es))"

lemma tally_counts:
  "lt_ok (fold tallyStep es t) = lt_ok t + int (length (goodLatencies es))"
  "lt_failed (fold tallyStep es t) = lt_failed t + int (length (turns es)) - int (length (goodLatencies es))"
proof (induction es arbitrary: t)
  case (Cons e es)
  { case 1 then show ?case using Cons by (cases e) (auto simp: goodLatencies_def) }
  { case 2 then show ?case using Cons by (cases e) (auto simp: goodLatencies_def) }
qed (simp_all add: goodLatencies_def)

text \<open>What is not yet handed over is with the workers that have not ended.\<close>

lemma tally_latencies:
  assumes "interleaving live es" and "finite live"
  shows "mset (lt_latencies (fold tallyStep es t)) =
    mset (lt_latencies t) + (\<Sum>i\<in>live. mset (lt_local t i)) + mset (goodLatencies es)"
  using assms
proof (induction live es arbitrary: t rule: interleaving.induct)
  case (2 live i code lat es)
  let ?t = "tallyStep (Turn i code lat) t"
  have IH: "mset (lt_latencies (fold tallyStep es ?t)) =
      mset (lt_latencies ?t) + (\<Sum>i\<in>live. mset (lt_local ?t i)) + mset (goodLatencies es)"
    using 2 by simp
  show ?case
  proof (cases "successful code")
    case True
    have "(\<Sum>j\<in>live. mset (((lt_local t)(i := lt_local t i @ [lat])) j)) = (\<Sum>j\<in>live. mset (lt_local t j)) + {#lat#}"
      using 2(2,3) by (simp add: sum.remove [of live i])
    then show ?thesis using IH True by (simp add: goodLatencies_def)
  next
    case False
    then show ?thesis using IH by (simp add: goodLatencies_def)
  qed
next
  case (3 live i es)
  let ?t = "tallyStep (Done i) t"
  have "mset (lt_latencies (fold tallyStep es ?t)) =
      mset (lt_latencies ?t) + (\<Sum>i\<in>live - {i}. mset (lt_local ?t i)) + mset (goodLatencies es)"
    using 3 by simp
  moreover have "(\<Sum>j\<in>live. mset (lt_local t j)) = mset (lt_local t i) + (\<Sum>j\<in>live - {i}. mset (lt_local t j))"
    using 3(2,3) by (simp add: sum.remove [of live i])
  ultimately show ?case by (simp add: goodLatencies_def)
qed (simp add: goodLatencies_def)

text \<open>In a sorted list the element at \<open>k\<close> has at most \<open>k\<close> elements below it and at least \<open>k + 1\<close> not above it.\<close>

lemma sorted_rank:
  assumes "sorted xs" and "k < length xs"
  shows "length (filter (\<lambda>x. x < xs ! k) xs) \<le> k" and "Suc k \<le> length (filter (\<lambda>x. x \<le> xs ! k) xs)"
proof -
  have "{i. i < length xs \<and> xs ! i < xs ! k} \<subseteq> {..<k}"
  proof
    fix i assume "i \<in> {i. i < length xs \<and> xs ! i < xs ! k}"
    then have "i < length xs" "\<not> xs ! k \<le> xs ! i" by auto
    then have "\<not> k \<le> i" using sorted_nth_mono [OF assms(1)] by blast
    then show "i \<in> {..<k}" by simp
  qed
  from card_mono [OF _ this] show "length (filter (\<lambda>x. x < xs ! k) xs) \<le> k" by (simp add: length_filter_conv_card)
  have "{..k} \<subseteq> {i. i < length xs \<and> xs ! i \<le> xs ! k}" using assms sorted_nth_mono [OF assms(1)] by auto
  from card_mono [OF _ this] show "Suc k \<le> length (filter (\<lambda>x. x \<le> xs ! k) xs)" by (simp add: length_filter_conv_card)
qed

lemma pct_sorted:
  assumes "sorted srt" and "srt \<noteq> []" and "0 \<le> p" and "p \<le> 100"
  shows "\<exists>d. pct srt p = Ok d \<and> d \<in> set srt \<and>
    100 * int (length (filter (\<lambda>x. x < d) srt)) \<le> p * int (length srt) \<and>
    p * int (length srt) \<le> 100 * int (length (filter (\<lambda>x. x \<le> d) srt))"
proof -
  let ?n = "int (length srt)"
  let ?i = "p * ?n div 100"
  define k where "k = nat (if ?n \<le> ?i then ?n - 1 else ?i)"
  have n: "0 < ?n" using assms(2) by simp
  have pn: "0 \<le> p * ?n" using assms(3) by simp
  then have sd: "(p * ?n) sdiv 100 = ?i" by (simp add: signed_divide_int_def sgn_if)
  have i0: "0 \<le> ?i" using pn by simp
  have k: "k < length srt" using n i0 by (auto simp: nat_less_iff k_def)
  have run: "pct srt p = Ok (srt ! k)" using n i0 sd by (simp add: pct_def Let_def k_def)
  note rank = sorted_rank [OF assms(1) k]
  have "100 * int k \<le> p * ?n" using i0 n by (auto simp: k_def)
  then have lo: "100 * int (length (filter (\<lambda>x. x < srt ! k) srt)) \<le> p * ?n" using rank(1) by linarith
  have "p * ?n \<le> 100 * (int k + 1)"
  proof (cases "?n \<le> ?i")
    case True
    then have "int k + 1 = ?n" using n by (simp add: k_def)
    then show ?thesis using assms(4) n by (simp add: mult_right_mono)
  next
    case False
    then have "int k = ?i" using i0 by (simp add: k_def)
    then show ?thesis by simp
  qed
  moreover have "int k + 1 \<le> int (length (filter (\<lambda>x. x \<le> srt ! k) srt))" using rank(2) by simp
  then have "100 * (int k + 1) \<le> 100 * int (length (filter (\<lambda>x. x \<le> srt ! k) srt))" by simp
  ultimately have "p * ?n \<le> 100 * int (length (filter (\<lambda>x. x \<le> srt ! k) srt))" by (rule order_trans)
  then show ?thesis using run lo nth_mem [OF k] by blast
qed

lemma pct_mono:
  assumes "sorted srt" and "0 \<le> p" and "p \<le> q" and "pct srt p = Ok a" and "pct srt q = Ok b"
  shows "a \<le> b"
proof (cases "srt = []")
  case False
  let ?n = "int (length srt)"
  let ?idx = "\<lambda>p. nat (if ?n \<le> p * ?n div 100 then ?n - 1 else p * ?n div 100)"
  have n: "0 < ?n" using False by simp
  have run: "pct srt r = Ok (srt ! ?idx r)" if "0 \<le> r" for r
  proof -
    have "0 \<le> r * ?n div 100" using n that by (simp add: pos_imp_zdiv_nonneg_iff)
    moreover have "(r * ?n) sdiv 100 = r * ?n div 100" using n that by (simp add: signed_divide_int_def sgn_if)
    ultimately show ?thesis using n by (simp add: pct_def Let_def)
  qed
  have "p * ?n div 100 \<le> q * ?n div 100" using assms(3) n by (intro zdiv_mono1 mult_right_mono) simp_all
  then have "?idx p \<le> ?idx q" by (auto intro: nat_mono)
  moreover have "?idx q < length srt"
  proof -
    have "0 \<le> q * ?n div 100" using n assms(2,3) by (simp add: pos_imp_zdiv_nonneg_iff)
    then show ?thesis using n by (auto simp: nat_less_iff)
  qed
  ultimately have "srt ! ?idx p \<le> srt ! ?idx q" by (rule sorted_nth_mono [OF assms(1)])
  then show ?thesis using assms(2-5) run by simp
qed (use assms in \<open>simp add: pct_def\<close>)


section \<open>Properties\<close>

text \<open>C37. The counts of a load test do not depend on how its workers interleave: once every worker has ended, each request
  was counted once, as ok for a status from 200 to 399 and as failed otherwise, and the collected latencies are those of
  the ok requests, each once.\<close>

theorem load_tally_exact:
  assumes "interleaving {..<c} es"
  shows "lt_ok (tallyAll es) = int (length (filter (\<lambda>(code, lat). 200 \<le> code \<and> code < 400) (turns es))) \<and>
    lt_ok (tallyAll es) + lt_failed (tallyAll es) = int (length (turns es)) \<and>
    mset (lt_latencies (tallyAll es)) = mset (map snd (filter (\<lambda>(code, lat). 200 \<le> code \<and> code < 400) (turns es)))"
  using tally_counts [of es emptyTally] tally_latencies [OF assms, of emptyTally]
  by (simp add: tallyAll_def emptyTally_def goodLatencies_def successful_def)

theorem load_tally_exact_witness:
  "lt_ok (tallyAll [Turn 0 200 5, Turn 1 500 9, Turn 1 302 7, Done 1, Turn 0 0 1, Done 0]) = 2 \<and>
   mset (lt_latencies (tallyAll [Turn 0 200 5, Turn 1 500 9, Turn 1 302 7, Done 1, Turn 0 0 1, Done 0])) = {#5, 7#}"
proof -
  have "interleaving {..<2} [Turn 0 200 5, Turn 1 500 9, Turn 1 302 7, Done 1, Turn 0 0 1, Done 0]"
    by (auto simp: lessThan_nat_numeral lessThan_Suc)
  from load_tally_exact [OF this] show ?thesis by simp
qed

text \<open>C38. The printed percentiles are percentiles: whenever there are latencies, in any order, the report succeeds; for each of
  p50, p90 and p99 it prints a measured latency such that at most p percent of the measurements are smaller and at least p
  percent are not larger; and the three do not decrease.\<close>

theorem report_percentiles:
  assumes "lat \<noteq> []"
  shows "\<exists>a b d top err. load_report elapsed ok failed lat c = Ok (top @ [latencyText ''p50'' a, latencyText ''p90'' b, latencyText ''p99'' d], err) \<and>
    a \<le> b \<and> b \<le> d \<and>
    (\<forall>(p, x) \<in> {(50, a), (90, b), (99, d)}. x \<in> set lat \<and>
       100 * int (length (filter (\<lambda>y. y < x) lat)) \<le> p * int (length lat) \<and>
       p * int (length lat) \<le> 100 * int (length (filter (\<lambda>y. y \<le> x) lat)))"
proof -
  let ?s = "sort lat"
  have s: "sorted ?s" "?s \<noteq> []" using assms by (simp_all flip: length_greater_0_conv)
  have len: "length (filter P ?s) = length (filter P lat)" for P by (metis filter_sort length_sort)
  note pc = pct_sorted [OF s, unfolded len, simplified]
  obtain a b d where v: "pct ?s 50 = Ok a" "pct ?s 90 = Ok b" "pct ?s 99 = Ok d" using pc [of 50] pc [of 90] pc [of 99] by auto
  have "a \<le> b" "b \<le> d" using pct_mono [OF s(1) _ _ v(1,2)] pct_mono [OF s(1) _ _ v(2,3)] by simp_all
  moreover obtain top err where "load_report elapsed ok failed lat c = Ok (top @ [latencyText ''p50'' a, latencyText ''p90'' b, latencyText ''p99'' d], err)"
    using s(2) by (simp add: load_report_def Let_def latencyLine_def v)
  ultimately show ?thesis using pc [of 50] pc [of 90] pc [of 99] v
    by (intro exI [of _ a] exI [of _ b] exI [of _ d] exI [of _ top] exI [of _ err]) simp
qed

theorem report_percentiles_witness:
  "\<exists>a b d top err. load_report 2000000000 3 0 [7000, 5000, 9000] 1 =
      Ok (top @ [latencyText ''p50'' a, latencyText ''p90'' b, latencyText ''p99'' d], err) \<and> a \<le> b \<and> b \<le> d"
proof -
  have "[7000, 5000, 9000 :: int] \<noteq> []" by simp
  from report_percentiles [OF this, of 2000000000 3 0 1] show ?thesis by blast
qed

end
