(* ===== verification/Mains_Props.thy ===== *)
theory Mains_Props
  imports Mains
begin

text \<open>
  What a started process guarantees: the gateway's secret in production, joined with the authentication of its
  requests; the monitor the chain monitor runs; the store the user service serves.
\<close>

text \<open>The middleware leaves the service's objects to the handler: a request runs it once.\<close>

lemma Chain_runs:
  assumes "Chain h [RequestID, Logger, Recovery] r s = (res, s')"
  obtains i s1 s2 x where "h (r\<lparr>rq_requestID := Some i\<rparr>) s1 = (x, s2)" and "sv_state s1 = sv_state s" and "sv_state s' = sv_state s2"
    and "\<And>n. sv_clock s1 n = sv_clock s (Suc n)"
proof -
  let ?i = "requestIdent r s"
  let ?r = "r\<lparr>rq_requestID := Some ?i\<rparr>"
  obtain t where t: "Chain h [RequestID, Logger, Recovery] r s = Logger (Recovery h) ?r t" "sv_state t = sv_state s" "sv_clock t = sv_clock s"
    using RequestID_runs [of "Logger (Recovery h)" r s] by auto
  define s1 where "s1 = push_status (t\<lparr>sv_clock := \<lambda>n. sv_clock t (Suc n)\<rparr>)"
  have s1: "sv_state s1 = sv_state s" "\<And>n. sv_clock s1 n = sv_clock s (Suc n)" using t(2,3) by (simp_all add: s1_def push_status_def)
  obtain x s2 where x: "h ?r s1 = (x, s2)" by (cases "h ?r s1")
  obtain y s3 where y: "Recovery h ?r s1 = (y, s3)" by (cases "Recovery h ?r s1")
  let ?log = "bnd (log_write ''ERROR'' ''panic recovered'' [(''panic'', AString (case x of Panic p \<Rightarrow> p | _ \<Rightarrow> [])), (''request_id'', AString (RequestIDFrom ?r))])
      (\<lambda>_. Error 500 ''internal error'') :: (_ srv, unit) eff"
  have "keeps_state ?log" by (intro keeps)
  then have "sv_state s3 = sv_state s2"
    using x y keeps_stateD [of ?log s2 y s3] by (cases x) (auto simp: Recovery_def)
  moreover have "sv_state s' = sv_state s3"
    using assms t(1) y by (cases y) (auto simp: Logger_def bnd_def time_Now_def log_write_def pop_status_def s1_def)
  ultimately show thesis using that [OF x s1(1) _ s1(2)] by simp
qed

text \<open>A gateway that started serves this handler.\<close>

lemma gatewayMain_started:
  assumes "gatewayMain jwt url_Parse transport newClient fused code env s = (Ok (addr, h), s')"
  obtains limiter gw where "\<not> (env ''ENV'' = ''production'' \<and> EnvOr env ''JWT_SECRET'' defaultJWTSecret = defaultJWTSecret)"
    and "NewGateway url_Parse transport (gatewayConfig env limiter) = Ok gw"
    and "h = Chain (GatewayHandler jwt code gw) [RequestID, Logger, Recovery]"
proof -
  let ?prod = "EnvOr env ''ENV'' ''development'' = ''production''" and ?sec = "EnvOr env ''JWT_SECRET'' defaultJWTSecret"
  have no: "\<not> (?prod \<and> ?sec = defaultJWTSecret)"
    using assms by (auto simp: gatewayMain_def Let_def bnd_def log_write_def raise_def)
  let ?warn = "if \<not> ?prod \<and> ?sec = defaultJWTSecret
     then log_write ''WARN'' (''using default JWT secret '' @ [CHR 0xE2, CHR 0x80, CHR 0x94] @ '' development only'') [] else ret ()"
  let ?start = "\<lambda>limiter. orExit ''init gateway'' (lift (NewGateway url_Parse transport (gatewayConfig env limiter))) (\<lambda>gw.
        ret (EnvOr env ''GATEWAY_ADDR'' '':8080'', Chain (GatewayHandler jwt code gw) [RequestID, Logger, Recovery]))"
  have run: "bnd ?warn (\<lambda>_. bnd (selectLimiter newClient fused env) ?start) s = (Ok (addr, h), s')"
    using assms no by (simp only: gatewayMain_def Let_def if_False)
  obtain s1 where s1: "?warn s = (Ok (), s1)" by (cases "\<not> ?prod \<and> ?sec = defaultJWTSecret") (simp_all add: log_write_def ret_def)
  obtain l s2 where l: "selectLimiter newClient fused env s1 = (l, s2)" by (cases "selectLimiter newClient fused env s1")
  then obtain limiter where lim: "l = Ok limiter" using run s1 by (cases l) simp_all
  have st: "?start limiter s2 = (Ok (addr, h), s')" using run s1 l lim by simp
  obtain gw where gw: "NewGateway url_Parse transport (gatewayConfig env limiter) = Ok gw"
    using st by (cases "NewGateway url_Parse transport (gatewayConfig env limiter)")
      (simp_all add: orExit_def on_err_def lift_def exitWith_def bnd_def log_write_def raise_def)
  then have "h = Chain (GatewayHandler jwt code gw) [RequestID, Logger, Recovery]"
    using st by (simp add: orExit_def on_err_def lift_def ret_def)
  moreover have "\<not> (env ''ENV'' = ''production'' \<and> ?sec = defaultJWTSecret)" using no by (auto simp: EnvOr_def)
  ultimately show thesis using that gw by blast
qed


section \<open>Properties\<close>

text \<open>C17. A production gateway is never behind a known secret: a gateway that started with \<^verbatim>\<open>ENV=production\<close> has a secret from its
  environment that is not the built-in one, and any request, through its whole stack, that reaches an upstream service
  carries a bearer token that is signed with this secret under HS256 and names the platform as its issuer.\<close>

theorem production_gateway_secret:
  assumes "jwt_lawful jwt" and "env ''ENV'' = ''production''"
    and "gatewayMain jwt url_Parse transport newClient fused code env s0 = (Ok (addr, h), s1)"
    and "h r s = (res, s')" and "snd (sv_state s') \<noteq> snd (sv_state s)"
  shows "env ''JWT_SECRET'' \<noteq> [] \<and> env ''JWT_SECRET'' \<noteq> defaultJWTSecret \<and>
    (\<exists>tok c. header_Get (rq_Header r) ''Authorization'' = ''Bearer '' @ tok \<and>
       jwt_carries jwt ''HS256'' (env ''JWT_SECRET'') tok c \<and> cl_Issuer c = ''web3-event-platform'')"
proof -
  obtain limiter gw where start: "\<not> (env ''ENV'' = ''production'' \<and> EnvOr env ''JWT_SECRET'' defaultJWTSecret = defaultJWTSecret)"
      "NewGateway url_Parse transport (gatewayConfig env limiter) = Ok gw"
      "h = Chain (GatewayHandler jwt code gw) [RequestID, Logger, Recovery]"
    using gatewayMain_started [OF assms(3)] by blast
  have sec: "env ''JWT_SECRET'' \<noteq> []" "env ''JWT_SECRET'' \<noteq> defaultJWTSecret"
    using start(1) assms(2) by (auto simp: EnvOr_def split: if_splits)
  have au: "au_issuer (gc_Auth (gatewayConfig env limiter)) = ''web3-event-platform''"
    "au_secret (gc_Auth (gatewayConfig env limiter)) = env ''JWT_SECRET''"
    using sec(1) by (simp_all add: gatewayConfig_def NewAuthenticator_def EnvOr_def)
  obtain i t1 t2 x where run: "GatewayHandler jwt code gw (r\<lparr>rq_requestID := Some i\<rparr>) t1 = (x, t2)"
      "sv_state t1 = sv_state s" "sv_state s' = sv_state t2"
    using Chain_runs [OF assms(4) [unfolded start(3)]] by metis
  have iss: "au_issuer (gc_Auth (gatewayConfig env limiter)) \<noteq> []" by (simp add: au)
  have chg: "snd (sv_state t2) \<noteq> snd (sv_state t1)" using assms(5) run(2,3) by simp
  from upstream_authenticated [OF assms(1) start(2) iss run(1) chg] show ?thesis using sec au by auto
qed

definition prodEnv :: environ where
  "prodEnv key = (if key = ''ENV'' then ''production'' else if key = ''JWT_SECRET'' then ''s3cret'' else [])"

definition prodClaims :: Claims where
  "prodClaims = adminClaims\<lparr>cl_Issuer := ''web3-event-platform''\<rparr>"

definition prodJwt :: Jwt where
  "prodJwt = oneTokenJwt prodClaims ''s3cret'' ''tok''"

definition prodMain :: "(((RateLimiter \<times> (string \<Rightarrow> int)) \<times> nat) srv, string \<times> ((RateLimiter \<times> (string \<Rightarrow> int)) \<times> nat) handler) eff" where
  "prodMain = gatewayMain prodJwt (\<lambda>u. Ok (demoURL u)) countingNetwork (\<lambda>_. countingRedis) False 301 prodEnv"

definition prodState :: "((RateLimiter \<times> (string \<Rightarrow> int)) \<times> nat) srv" where
  "prodState = demoSrv ((NewRateLimiter 20 40, \<lambda>_. 0), 0)"

lemma prodMain_starts: "\<exists>gw s1. prodMain prodState = (Ok ('':8080'', Chain (GatewayHandler prodJwt 301 gw) [RequestID, Logger, Recovery]), s1) \<and>
    gw_cfg gw = gatewayConfig prodEnv (inMemory False) \<and> gw_userProxy gw = newProxy countingNetwork (demoURL ''http://localhost:8081'')"
  by (simp add: prodMain_def gatewayMain_def Let_def prodEnv_def EnvOr_def defaultJWTSecret_def bnd_def ret_def selectLimiter_def log_write_def
      on_state_def on_fst_def orExit_def on_err_def lift_def NewGateway_def gatewayConfig_def prodState_def demoSrv_def)
     (rule exI, rule conjI, rule refl, simp)

lemma prodMain_forwards:
  assumes "gw_cfg gw = gatewayConfig prodEnv (inMemory False)" and "gw_userProxy gw = newProxy countingNetwork (demoURL ''http://localhost:8081'')"
    and "Chain (GatewayHandler prodJwt 301 gw) [RequestID, Logger, Recovery] (demoRequest ''GET'' ''/api/v1/users'') prodState = (res, s')"
  shows "snd (sv_state s') = 1"
proof -
  let ?r0 = "demoRequest ''GET'' ''/api/v1/users''"
  obtain i t1 t2 x where run: "GatewayHandler prodJwt 301 gw (?r0\<lparr>rq_requestID := Some i\<rparr>) t1 = (x, t2)"
      "sv_state t1 = sv_state prodState" "sv_state s' = sv_state t2" "\<And>n. sv_clock t1 n = sv_clock prodState (Suc n)"
    using Chain_runs [OF assms(3)] by metis
  let ?r = "?r0\<lparr>rq_requestID := Some i\<rparr>"
  have r: "rq_Method ?r = ''GET''" "?r\<lparr>rq_pathValues := []\<rparr> = ?r"
    "rq_URL ?r = \<lparr>u_Scheme = [], u_Host = [], u_Path = ''/api/v1/users'', u_RawPath = [], u_RawQuery = []\<rparr>"
    "header_Get (rq_Header ?r) ''Authorization'' = ''Bearer '' @ ''tok''"
    by (simp_all add: demoRequest_def header_Get_def)
  have clk: "sv_clock t1 = (\<lambda>_. \<lparr>wall = 0, mono = 0\<rparr>)" using run(4) by (simp add: prodState_def demoSrv_def fun_eq_iff)
  obtain l where ul: "underLimit gw ?r t1 = (Ok True, t1\<lparr>sv_state := ((l, \<lambda>_. 0), 0)\<rparr>)"
    using run(2) clk by (cases t1) (auto simp: underLimit_def assms(1) gatewayConfig_def inMemory_def on_state_def on_fst_def rl_Allow_def
      NewRateLimiter_def prodState_def demoSrv_def bnd_def time_Now_def)
  let ?t = "t1\<lparr>sv_state := ((l, \<lambda>_. 0), 0)\<rparr>"
  have "Verify prodJwt (gc_Auth (gw_cfg gw)) ''tok'' ?t = (Ok prodClaims, ?t\<lparr>sv_clock := \<lambda>n. sv_clock ?t (Suc n)\<rparr>)"
    by (rule Verify_complete)
       (simp_all add: prodJwt_def oneTokenJwt_lawful, simp_all add: oneTokenJwt_def assms(1) gatewayConfig_def NewAuthenticator_def EnvOr_def
         prodEnv_def prodClaims_def adminClaims_def timely_def clk Second_def)
  then have v: "Verify prodJwt (gc_Auth (gw_cfg gw)) ''tok'' ?t = (Ok prodClaims, ?t)" using clk by simp
  let ?r' = "?r\<lparr>rq_Header := header_Set HeaderRole (cl_Role prodClaims) (header_Set HeaderSubject (cl_Subject prodClaims) (rq_Header ?r))\<rparr>"
  have "gw_userProxy gw ?r' ?t = (x, t2)"
    using run(1) authed_forward [OF ul r(4) v] unfolding users_handler [OF r(1,3)] r(2) by simp
  moreover have "\<exists>out. outgoing (proxyDirector (demoURL ''http://localhost:8081'')) ?r' = Some out"
    by (simp add: outgoing_def Let_def upgradeType_def containsToken_def header_values_def demoRequest_def header_Set_def
        HeaderRole_def HeaderSubject_def isPrint_def)
  ultimately show ?thesis
    using ReverseProxy_calls run(3) by (fastforce simp: assms(2) newProxy_def on_snd_def countingNetwork_def)
qed

theorem production_gateway_secret_witness:
  "\<exists>addr h s1 tok c. prodMain prodState = (Ok (addr, h), s1) \<and>
    snd (sv_state (snd (h (demoRequest ''GET'' ''/api/v1/users'') prodState))) = 1 \<and>
    header_Get (rq_Header (demoRequest ''GET'' ''/api/v1/users'')) ''Authorization'' = ''Bearer '' @ tok \<and>
    jwt_carries prodJwt ''HS256'' ''s3cret'' tok c \<and> cl_Issuer c = ''web3-event-platform''"
proof -
  obtain gw s1 where gw: "prodMain prodState = (Ok ('':8080'', Chain (GatewayHandler prodJwt 301 gw) [RequestID, Logger, Recovery]), s1)"
      "gw_cfg gw = gatewayConfig prodEnv (inMemory False)" "gw_userProxy gw = newProxy countingNetwork (demoURL ''http://localhost:8081'')"
    using prodMain_starts by blast
  let ?h = "Chain (GatewayHandler prodJwt 301 gw) [RequestID, Logger, Recovery]" and ?r = "demoRequest ''GET'' ''/api/v1/users''"
  obtain res s' where run: "?h ?r prodState = (res, s')" by (cases "?h ?r prodState")
  have one: "snd (sv_state s') = 1" by (rule prodMain_forwards [OF gw(2,3) run])
  have chg: "snd (sv_state s') \<noteq> snd (sv_state prodState)" using one by (simp add: prodState_def demoSrv_def)
  have lw: "jwt_lawful prodJwt" unfolding prodJwt_def by (rule oneTokenJwt_lawful)
  have env: "prodEnv ''ENV'' = ''production''" "prodEnv ''JWT_SECRET'' = ''s3cret''" by (simp_all add: prodEnv_def)
  obtain tok c where "header_Get (rq_Header ?r) ''Authorization'' = ''Bearer '' @ tok" "jwt_carries prodJwt ''HS256'' ''s3cret'' tok c"
      "cl_Issuer c = ''web3-event-platform''"
    using production_gateway_secret [OF lw env(1) gw(1) [unfolded prodMain_def] run chg] unfolding env(2) by blast
  then show ?thesis using gw(1) run one by (intro exI [of _ "'':8080''"] exI [of _ ?h] exI [of _ s1] exI [of _ tok] exI [of _ c]) simp
qed

text \<open>The check covers the signing secret only: a production gateway starts with the built-in admin credentials.\<close>

theorem production_default_clients:
  "gatewayClients prodEnv ''admin-client'' = Some \<lparr>cli_Secret = ''admin-secret'', cli_Role = ''admin''\<rparr>"
  by (simp add: gatewayClients_def prodEnv_def EnvOr_def RoleAdmin_def)

text \<open>Without Redis the configured rate is not used.\<close>

theorem rate_ignored_in_memory:
  "env ''REDIS_ADDR'' = [] \<Longrightarrow>
    selectLimiter newClient fused env s = selectLimiter newClient fused (env(''RATE_LIMIT_PER_MIN'' := v)) s"
  by (simp add: selectLimiter_def Let_def)


section \<open>The chain monitor\<close>

text \<open>The block the chain monitor starts from: the configured one, the head of the node when none or no number is
  configured, and 0 when the head cannot be read.\<close>

lemma resolveStartBlock_cases:
  "fst (resolveStartBlock env client s) = Ok (case atou (env ''START_BLOCK'') of
     Some n \<Rightarrow> if n < 2 ^ 64 then of_nat n else (case HeaderByNumber client None of Ok head \<Rightarrow> word_of_int (h_Number head) | _ \<Rightarrow> 0)
   | None \<Rightarrow> (case HeaderByNumber client None of Ok head \<Rightarrow> word_of_int (h_Number head) | _ \<Rightarrow> 0))"
  if "\<And>p. HeaderByNumber client None \<noteq> Panic p"
  using that
  by (cases "HeaderByNumber client None"; cases "atou (env ''START_BLOCK'')")
     (auto simp: resolveStartBlock_def Let_def ParseUint_def on_err_def lift_def bnd_def log_write_def ret_def atou_def split: if_splits)

text \<open>A step of a \<^verbatim>\<open>main\<close> that went on succeeded.\<close>

lemma orExit_Ok:
  assumes "orExit msg m f s = (Ok x, s')"
  obtains a s1 where "m s = (Ok a, s1)" and "f a s1 = (Ok x, s')"
proof (cases "m s")
  case (Pair r s1)
  then show thesis using assms that
    by (cases r) (auto simp: orExit_def on_err_def exitWith_def bnd_def log_write_def raise_def)
qed

lemma bnd_OkE:
  assumes "bnd m f s = (Ok x, s')"
  obtains a s1 where "m s = (Ok a, s1)" and "f a s1 = (Ok x, s')"
  using assms by (auto simp: bnd_eq_Ok)

text \<open>The monitor a started process runs: over the Postgres store, with the depth from the environment and a positive interval.\<close>

lemma chainmonitorMain_started:
  assumes "chainmonitorMain eth nats_Connect pgxpool_New pgx dial code env s = (Ok (m, addr, h), s')"
  shows "store m = pgStore eth" and "Confirmations (cfg m) = envUint env ''CONFIRMATIONS'' 5" and "0 < PollInterval (cfg m)"
    and "Tokens (cfg m) = []" and "h = healthService code"
proof -
  obtain b client start where m: "New eth client (pgStore eth) b (monitorConfig env start) = Ok m"
      and h: "h = healthService code"
    using assms unfolding chainmonitorMain_def Let_def
    by (elim orExit_Ok bnd_OkE) (auto simp: lift_def ret_def intro: that)
  show "h = healthService code" by (rule h)
  show "store m = pgStore eth" "Confirmations (cfg m) = envUint env ''CONFIRMATIONS'' 5" "0 < PollInterval (cfg m)" "Tokens (cfg m) = []"
    using m by (auto simp: New_def Let_def monitorConfig_def defaultPollInterval_def split: result.splits)
qed

text \<open>The index a chain monitor process keeps: for whatever its nodes answer and whichever calls to the database are lost, with the
  confirmation depth of its environment.\<close>

theorem chainmonitor_process_invariant:
  assumes "chainmonitorMain eth nats_Connect pgxpool_New pgx dial code env s = (Ok (m, addr, h), s')"
    and "\<forall>p \<in> set ps. heads_below H (p_backend p)" and "pg_inv eth db" and "index_ok (pg_blocks eth db)"
    and "conf_sound (envUint env ''CONFIRMATIONS'' 5) H (pg_rows eth db)"
  shows "\<exists>r db' b'. Run eth m ps (db, b) = Some (r, (db', b')) \<and> pg_inv eth db' \<and>
    index_ok (pg_blocks eth db') \<and> conf_sound (envUint env ''CONFIRMATIONS'' 5) H (pg_rows eth db')"
  using pg.Run_preserves [OF chainmonitorMain_started(1) [OF assms(1)] assms(2), of "(db, b)" eth] assms(3-5)
  by (auto simp: pg.W_def chainmonitorMain_started(2) [OF assms(1)])


section \<open>The user service\<close>

text \<open>A started user service serves its routes over the in-memory store without a connection string and over Postgres with one.\<close>

lemma userMain_started:
  assumes "userMain nats_Connect pgx iter iter' mail_ok uuid code env s = (Ok (addr, h), s')"
  obtains nc where "Connect nats_Connect (EnvOr env ''NATS_URL'' ''nats://localhost:4222'') = Ok nc"
    and "h = userHandler mail_ok uuid code (NewUserService
       (if env ''POSTGRES_DSN'' = [] then onFstStore (memUserStore iter) else onSndStore (pgUserStore iter'))
       (Bus.truncate (natsBus nc)))"
proof -
  have sel: "store = (if env ''POSTGRES_DSN'' = [] then onFstStore (memUserStore iter) else onSndStore (pgUserStore iter'))"
    if "selectStore pgx iter iter' env (env ''POSTGRES_DSN'') t = (Ok store, t')" for store and t t' :: "((UserMemStore \<times> UserPgDB) \<times> 'a NATSBus) srv"
    using that unfolding selectStore_def
    by (auto elim!: orExit_Ok bnd_OkE simp: ret_def split: if_splits)
  from assms show thesis
    unfolding userMain_def Let_def
    by (elim orExit_Ok bnd_OkE) (auto simp: lift_def ret_def dest!: sel intro: that)
qed

end
