(* ===== verification/Spec2Isabelle.thy ===== *)
theory Spec2Isabelle
  imports Chain_Props Chain_Termination Margin_Props Margin_Typed Margin_Service Platform Rate_Limit_Redis Notification_Props
    Wallet_Props User_Refinement Loadtest Mains_Props
begin

text \<open>
  \<^bold>\<open>Verification of the Web3 Event Platform\<close>

  The platform is a set of Go services. A public gateway issues and checks tokens, limits the request rate and proxies to
  a user, a wallet and a margin service. A chain monitor follows an Ethereum chain into Postgres. The user and wallet
  services and the chain monitor publish domain events on a NATS bus, and a notification service consumes them. A load generator measures the
  gateway. Paths below are relative to \<^verbatim>\<open>src/\<close>.

  \<^bold>\<open>How the code is modelled.\<close>
  A Go call on a stateful object is a function \<open>'s \<Rightarrow> 'a result \<times> 's\<close> (\<open>eff\<close>, theory \<open>Go_Prelude\<close>). A \<open>result\<close> is a value, an
  error or a panic; \<open>bnd\<close> sequences calls as \<^verbatim>\<open>if err != nil { return err }\<close> does, and the error is kept as a value with its
  wrapping. An interface value is a record of such functions. An HTTP handler is a function of the request on a record
  \<open>srv\<close> that holds the objects of the service, its clock, random source and log, and the response writer of the connection.
  Structs are records with the fields of the source. Block numbers are 64-bit words; amounts of the margin engine are exact
  rationals as in \<^verbatim>\<open>math/big\<close>; the rate limiter computes with rounded \<^verbatim>\<open>float64\<close> values; times are nanosecond counts.

  Third-party code is a parameter: go-ethereum's ABI, address and keystore functions (\<open>Eth\<close>, \<open>KeyStore\<close>, \<open>KeystoreLib\<close>), the node
  (\<open>ChainBackend\<close>, \<open>ContractCaller\<close>), the JWT library (\<open>Jwt\<close>), Redis (\<open>Redis\<close>), NATS (\<open>Nats\<close>), pgx (\<open>Pgx\<close>), the uuid generator,
  and the network behind the proxy. What the code relies on is a named predicate (\<open>transfer_abi_lawful\<close>, \<open>hex_lawful\<close>,
  \<open>jwt_lawful\<close>, \<open>redis_counts\<close>, \<open>nats_lawful\<close>, \<open>keystore_lawful\<close>), and every property that assumes one has a witness with a concrete
  instance. What the language leaves open is a parameter too: map iteration order, the fusing of a multiplication with an
  addition, the validity of a mail address (\<^verbatim>\<open>net/mail\<close>), the status code of a redirect, which differs between Go releases.

  \<^bold>\<open>Standard library.\<close>
  \<^item> \<open>Go_Text\<close>, \<open>Go_Rat\<close>, \<open>Go_Float\<close>, \<open>Go_Time\<close>: decimal text, \<^verbatim>\<open>big.Rat\<close> parsing and printing, rounding to \<^verbatim>\<open>float64\<close>, durations.
  \<^item> \<open>Go_Json\<close>, \<open>Go_Rfc3339\<close>, \<open>Go_Json_Laws\<close>: \<^verbatim>\<open>encoding/json\<close> on bytes, with the round trip of marshalled values and times.
  \<^item> \<open>Go_Http\<close>, \<open>Go_Mux\<close>, \<open>Go_Mux_Laws\<close>, \<open>Go_Proxy\<close>: headers, URLs and the response writer, \<^verbatim>\<open>ServeMux\<close>, \<^verbatim>\<open>ReverseProxy\<close>.
  \<^item> \<open>Go_Pgx\<close>: round trips to Postgres, each of which succeeds, fails without effect, or takes effect and loses its reply.

  \<^bold>\<open>Chain monitor\<close> (\<^verbatim>\<open>internal/chainmonitor\<close>).
  \<^item> \<open>Erc20\<close> is \<^verbatim>\<open>erc20.go\<close>; \<open>Chain_Store\<close> is \<^verbatim>\<open>store.go\<close>, with the contract of a store as the locales \<open>chain_store\<close>, \<open>append_store\<close> and
    \<open>reliable_store\<close>; \<open>Chain_Postgres\<close> is \<^verbatim>\<open>store_postgres.go\<close>. Both stores are interpretations.
  \<^item> \<open>Chain_Monitor\<close> is \<^verbatim>\<open>monitor.go\<close>: \<open>Sync\<close> is \<open>syncStart\<close>, \<open>syncLoop\<close> over \<open>syncStep\<close>, and \<open>syncFinish\<close>; \<open>Run\<close> takes the list of
    polls that happen before its context ends. The block loop is a \<open>partial_function (option)\<close>, so \<open>None\<close> is a call that never
    returns; no fuel is used.
  \<^item> \<open>Chain_Invariant\<close>, \<open>Chain_Bus\<close>, \<open>Chain_Converge\<close> and \<open>Chain_Props\<close> show, for any node answers and lost database calls, that the index stays
    gap-free and hash-linked and confirms nothing too early; that it converges to the canonical chain after a reorg; that
    a successful poll confirms exactly the blocks that are deep enough; that the bus has no influence on the index, and in which order
    events appear. \<open>Chain_Termination\<close> shows that polls return for every head but the largest word, and that for this one they do not.

  \<^bold>\<open>Margin\<close> (\<^verbatim>\<open>internal/margin\<close>, \<^verbatim>\<open>cmd/margin\<close>).
  \<open>Margin\<close> holds the engine and its sources, \<open>Margin_Service\<close> the configuration and the endpoint. \<open>Margin_Props\<close> shows that \<open>Evaluate\<close> agrees with a
  reference valuation (locale \<open>valuation\<close>, interpreted on the on-chain and the static sources), its bounds, errors and
  printed amounts; \<open>Margin_Service\<close> what the endpoint answers on every branch, through mux and middleware; \<open>Margin_Typed\<close> that every answer parses back to a value of one fixed type.

  \<^bold>\<open>Gateway\<close> (\<^verbatim>\<open>pkg/auth\<close>, \<^verbatim>\<open>pkg/httpx\<close>, \<^verbatim>\<open>internal/gateway\<close>).
  \<open>Auth\<close>, \<open>Httpx\<close>, \<open>Gateway\<close>, \<open>Rate_Limit\<close> and \<open>Rate_Limit_Redis\<close> follow the files of these packages. \<open>Gateway_Props\<close> shows that nothing reaches an
  upstream without a verified token and the limiter's consent, and who gets a token; \<open>Httpx_Props\<close> that the middleware
  contains panics and logs every request; the limiter theories bound what a client gets through, for one process and for a fleet
  over one Redis. \<open>Platform\<close> joins the gateway and the user service.

  \<^bold>\<open>Users, wallets, events\<close> (\<^verbatim>\<open>internal/user\<close>, \<^verbatim>\<open>internal/wallet\<close>, \<^verbatim>\<open>internal/notification\<close>, \<^verbatim>\<open>pkg/events\<close>).
  \<^item> \<open>User_Store\<close> holds the contract \<open>user_store\<close> and both stores, \<open>User\<close> the service; \<open>User_Props\<close> shows uniqueness of users under any
    traffic and faults and the effect of a registration; \<open>User_Refinement\<close> that both stores implement one abstract specification
    (locale \<open>reliable_user_store\<close>).
  \<^item> \<open>Events\<close> and \<open>Nats_Bus\<close> hold the event envelope and the bus, \<open>Notification\<close> the consumer; \<open>Notification_Props\<close> follows a registration to the
    consumer's log.
  \<^item> \<open>Wallet\<close> and \<open>Wallet_Props\<close>: created wallets stay listed, and nothing but addresses of the keystore can be observed.

  \<^bold>\<open>Processes\<close> (\<^verbatim>\<open>cmd\<close>, \<^verbatim>\<open>pkg/server\<close>, \<^verbatim>\<open>loadtest\<close>).
  \<open>Process\<close> has the environment readers and the life cycle of \<^verbatim>\<open>server.Run\<close> as a step relation, in which listener, signal and
  drain interleave freely. \<open>Mains\<close> has the entry points, \<open>Mains_Props\<close> what a started gateway, chain monitor or user service guarantees. \<open>Loadtest\<close> has the
  load generator, whose workers interleave as an arbitrary sequence of events.

  \<^bold>\<open>Not modelled.\<close>
  \<^item> \<^verbatim>\<open>pkg/logging\<close>: it adds a constant tag to every line. Log entries of the HTTP services, of start-up and of the consumer are
    recorded; the warnings of \<^verbatim>\<open>Monitor.Run\<close> and \<^verbatim>\<open>rollback\<close> are not.
  \<^item> Real time: the timeouts of the HTTP server and of dialling, the ticker of \<^verbatim>\<open>Run\<close>, the deadline of the load test and its command line. When a
    context ends is an argument (of \<open>Sync\<close>), or the end of a sequence (of polls, of turns).
  \<^item> Concurrency inside one service: handlers and consumers run one after another. The stores and the limiter do their work under
    one mutex or in one database statement or transaction, so the order of the calls is what a schedule can choose; the
    properties over sequences of requests hold for every order.
  \<^item> The SQL of the migrations and the deployment files, whose content the services do not read, and the tests, but for the
    recording bus of \<^verbatim>\<open>monitor_test.go\<close>, which observes what the monitor publishes.
\<close>

end
